(* ===== verification/Prelude.thy ===== *)
theory Prelude
  imports Main "HOL-Library.Word" "HOL-Library.Sublist"
begin

text \<open>
  Shared vocabulary of the development: the outcome type of every fallible operation, its
  sequencing combinator, the machine integer types, the collections of rewrite rules that the
  component theories fill, and list facts that several components use.
\<close>

section \<open>Machine integers\<close>

type_synonym u8 = "8 word"
type_synonym u32 = "32 word"
type_synonym u64 = "64 word"

lemma unat_u8_less: "unat (x :: u8) < 256"
  using unsigned_less [of x] by simp

section \<open>Outcomes\<close>

text \<open>
  An \<open>io::Error\<close> matters to the program only through \<open>ErrorKind::NotFound\<close>; every other
  error is an \<open>anyhow\<close> message. \<open>Halt\<close> is not an error value: it is the end of the run, by a
  power cut or by a panic, so no handler of the program sees it.
\<close>

datatype err = NotFound | IoErr | Msg string

datatype halt = PowerLoss | Panic

datatype 'a res = Ok 'a | Err err | Halt halt

text \<open>The \<open>?\<close> operator on a pure \<open>Result\<close>.\<close>

definition rbind :: "'a res \<Rightarrow> ('a \<Rightarrow> 'b res) \<Rightarrow> 'b res" where
  "rbind m f = (case m of Ok a \<Rightarrow> f a | Err e \<Rightarrow> Err e | Halt h \<Rightarrow> Halt h)"

text \<open>\<open>.context(..)\<close>: an error keeps being an error, under the new message.\<close>

definition rctx :: "string \<Rightarrow> 'a res \<Rightarrow> 'a res" where
  "rctx msg m = (case m of Err _ \<Rightarrow> Err (Msg msg) | _ \<Rightarrow> m)"

text \<open>\<open>Option::context(..)\<close>: \<open>None\<close> becomes an error.\<close>

definition some_or :: "string \<Rightarrow> 'a option \<Rightarrow> 'a res" where
  "some_or msg x = (case x of None \<Rightarrow> Err (Msg msg) | Some a \<Rightarrow> Ok a)"

definition ensure :: "bool \<Rightarrow> string \<Rightarrow> unit res" where
  "ensure b msg = (if b then Ok () else Err (Msg msg))"

definition is_ok :: "'a res \<Rightarrow> bool" where
  "is_ok r = (case r of Ok _ \<Rightarrow> True | _ \<Rightarrow> False)"

definition is_err :: "'a res \<Rightarrow> bool" where
  "is_err r = (case r of Err _ \<Rightarrow> True | _ \<Rightarrow> False)"

lemma rbind_simps [simp]:
  "rbind (Ok a) f = f a"
  "rbind (Err e) f = Err e"
  "rbind (Halt h) f = Halt h"
  by (simp_all add: rbind_def)

lemma rbind_eq_Ok: "rbind m f = Ok b \<longleftrightarrow> (\<exists>a. m = Ok a \<and> f a = Ok b)"
  by (cases m) auto

lemma rctx_simps [simp]:
  "rctx s (Ok a) = Ok a"
  "rctx s (Err e) = Err (Msg s)"
  "rctx s (Halt h) = Halt h"
  by (simp_all add: rctx_def)

lemma rctx_eq_Ok [simp]: "rctx s m = Ok a \<longleftrightarrow> m = Ok a"
  by (cases m) auto

lemma some_or_simps [simp]:
  "some_or s (Some a) = Ok a"
  "some_or s None = Err (Msg s)"
  by (simp_all add: some_or_def)

lemma some_or_eq_Ok [simp]: "some_or s x = Ok a \<longleftrightarrow> x = Some a"
  by (cases x) auto

lemma ensure_simps [simp]:
  "ensure True s = Ok ()"
  "ensure False s = Err (Msg s)"
  by (simp_all add: ensure_def)

lemma ensure_eq_Ok [simp]: "ensure b s = Ok u \<longleftrightarrow> b"
  by (cases b) auto

lemma is_ok_simps [simp]:
  "is_ok (Ok a)" "\<not> is_ok (Err e)" "\<not> is_ok (Halt h)"
  by (simp_all add: is_ok_def)

lemma is_err_simps [simp]:
  "\<not> is_err (Ok a)" "is_err (Err e)" "\<not> is_err (Halt h)"
  by (simp_all add: is_err_def)

text \<open>Inversion of a successful chain of \<open>?\<close>: the bundle the parsers' proofs use.\<close>

lemmas ok_inv = rbind_eq_Ok

section \<open>Lists\<close>

text \<open>The slices \<open>v[i..i + 2]\<close> for \<open>i\<close> in \<open>(0..v.len()).step_by(2)\<close>.\<close>

fun chunks2 :: "'a list \<Rightarrow> 'a list list" where
  "chunks2 [] = []"
| "chunks2 [x] = [[x]]"
| "chunks2 (x # y # zs) = [x, y] # chunks2 zs"

lemma length_chunks2: "even (length xs) \<Longrightarrow> length (chunks2 xs) = length xs div 2"
  by (induction xs rule: chunks2.induct) auto

text \<open>\<open>iter().map(f).collect::<Result<Vec<_>>>()\<close>: the first failure wins.\<close>

fun collect_res :: "('a \<Rightarrow> 'b res) \<Rightarrow> 'a list \<Rightarrow> 'b list res" where
  "collect_res f [] = Ok []"
| "collect_res f (x # xs) = rbind (f x) (\<lambda>y. rbind (collect_res f xs) (\<lambda>ys. Ok (y # ys)))"

lemma collect_res_Ok_length: "collect_res f xs = Ok ys \<Longrightarrow> length ys = length xs"
  by (induction xs arbitrary: ys) (auto simp: ok_inv)

lemma collect_res_map:
  "(\<And>x. x \<in> set xs \<Longrightarrow> f x = Ok (g x)) \<Longrightarrow> collect_res f xs = Ok (map g xs)"
  by (induction xs) auto

lemma collect_res_Err:
  "x \<in> set xs \<Longrightarrow> \<forall>y. f x \<noteq> Ok y \<Longrightarrow> collect_res f xs \<noteq> Ok ys"
  by (induction xs arbitrary: ys) (auto simp: ok_inv)

end
