(* ===== verification/Rust_Text.thy ===== *)
theory Rust_Text
  imports Prelude
begin

text \<open>
  The parts of Rust's \<open>str\<close> and integer parsing that the program uses. A \<open>str\<close> is its UTF-8
  bytes (a \<^typ>\<open>char\<close> is one byte), so lengths and slices count what the source counts, and the
  White\_Space characters that \<open>trim\<close> removes are recognised by their encodings.
\<close>

section \<open>ASCII and UTF-8\<close>

definition is_ascii :: "string \<Rightarrow> bool" where
  "is_ascii s = list_all (\<lambda>c. of_char c < (128 :: nat)) s"

definition utf8_cont :: "nat \<Rightarrow> nat \<Rightarrow> char \<Rightarrow> bool" where
  "utf8_cont lo hi c = (let n = of_char c in lo \<le> n \<and> n \<le> hi)"

text \<open>The well-formed byte sequences of the Unicode standard (\<open>std::str::from_utf8\<close>).\<close>

fun utf8_valid :: "string \<Rightarrow> bool" where
  "utf8_valid [] = True"
| "utf8_valid (a # s) =
    (let n = (of_char a :: nat) in
     if n < 0x80 then utf8_valid s
     else if 0xC2 \<le> n \<and> n \<le> 0xDF then
       (case s of b # r \<Rightarrow> utf8_cont 0x80 0xBF b \<and> utf8_valid r | _ \<Rightarrow> False)
     else if 0xE0 \<le> n \<and> n \<le> 0xEF then
       (case s of b # c # r \<Rightarrow>
          utf8_cont (if n = 0xE0 then 0xA0 else 0x80) (if n = 0xED then 0x9F else 0xBF) b
          \<and> utf8_cont 0x80 0xBF c \<and> utf8_valid r | _ \<Rightarrow> False)
     else if 0xF0 \<le> n \<and> n \<le> 0xF4 then
       (case s of b # c # d # r \<Rightarrow>
          utf8_cont (if n = 0xF0 then 0x90 else 0x80) (if n = 0xF4 then 0x8F else 0xBF) b
          \<and> utf8_cont 0x80 0xBF c \<and> utf8_cont 0x80 0xBF d \<and> utf8_valid r | _ \<Rightarrow> False)
     else False)"

lemma is_ascii_simps [simp]:
  "is_ascii []"
  "is_ascii (c # s) \<longleftrightarrow> of_char c < (128 :: nat) \<and> is_ascii s"
  "is_ascii (s @ t) \<longleftrightarrow> is_ascii s \<and> is_ascii t"
  by (simp_all add: is_ascii_def)

lemma is_ascii_concat [simp]: "is_ascii (concat xss) \<longleftrightarrow> (\<forall>xs\<in>set xss. is_ascii xs)"
  by (induction xss) auto

lemma ascii_utf8_valid: "is_ascii s \<Longrightarrow> utf8_valid s"
  by (induction s) simp_all

section \<open>White space\<close>

text \<open>The UTF-8 encodings of the 25 characters with the Unicode property White\_Space.\<close>

definition white_space :: "string list" where
  "white_space =
    [[CHR 0x09], [CHR 0x0A], [CHR 0x0B], [CHR 0x0C], [CHR 0x0D], [CHR 0x20],
     [CHR 0xC2, CHR 0x85], [CHR 0xC2, CHR 0xA0], [CHR 0xE1, CHR 0x9A, CHR 0x80],
     [CHR 0xE2, CHR 0x80, CHR 0x80], [CHR 0xE2, CHR 0x80, CHR 0x81],
     [CHR 0xE2, CHR 0x80, CHR 0x82], [CHR 0xE2, CHR 0x80, CHR 0x83],
     [CHR 0xE2, CHR 0x80, CHR 0x84], [CHR 0xE2, CHR 0x80, CHR 0x85],
     [CHR 0xE2, CHR 0x80, CHR 0x86], [CHR 0xE2, CHR 0x80, CHR 0x87],
     [CHR 0xE2, CHR 0x80, CHR 0x88], [CHR 0xE2, CHR 0x80, CHR 0x89],
     [CHR 0xE2, CHR 0x80, CHR 0x8A], [CHR 0xE2, CHR 0x80, CHR 0xA8],
     [CHR 0xE2, CHR 0x80, CHR 0xA9], [CHR 0xE2, CHR 0x80, CHR 0xAF],
     [CHR 0xE2, CHR 0x81, CHR 0x9F], [CHR 0xE3, CHR 0x80, CHR 0x80]]"

text \<open>Bytes of the white-space character a string starts (ends) with; 0 when there is none.\<close>

definition ws_len :: "string \<Rightarrow> nat" where
  "ws_len s = (case find (\<lambda>w. prefix w s) white_space of None \<Rightarrow> 0 | Some w \<Rightarrow> length w)"

definition ws_len_end :: "string \<Rightarrow> nat" where
  "ws_len_end s = (case find (\<lambda>w. suffix w s) white_space of None \<Rightarrow> 0 | Some w \<Rightarrow> length w)"

definition ascii_space :: "char \<Rightarrow> bool" where
  "ascii_space c \<longleftrightarrow>
    c = CHR 0x09 \<or> c = CHR 0x0A \<or> c = CHR 0x0B \<or> c = CHR 0x0C \<or> c = CHR 0x0D \<or> c = CHR 0x20"

text \<open>An ASCII character that is not white space: what \<open>trim\<close> and \<open>split_whitespace\<close> keep.\<close>

definition plain :: "char \<Rightarrow> bool" where
  "plain c \<longleftrightarrow> of_char c < (128 :: nat) \<and> \<not> ascii_space c"

lemma ws_len_Nil [simp]: "ws_len [] = 0"
  by (simp add: ws_len_def white_space_def)

lemma ws_len_end_Nil [simp]: "ws_len_end [] = 0"
  by (simp add: ws_len_end_def white_space_def)

lemma white_space_nonempty: "w \<in> set white_space \<Longrightarrow> w \<noteq> []"
  by (auto simp: white_space_def)

lemma find_Some_pos:
  "find P white_space = Some w \<Longrightarrow> w \<in> set white_space \<and> P w"
  by (auto simp: find_Some_iff)

lemma ws_len_le: "ws_len s \<le> length s"
  unfolding ws_len_def by (auto split: option.splits dest!: find_Some_pos prefix_length_le)

lemma ws_len_end_le: "ws_len_end s \<le> length s"
  unfolding ws_len_end_def by (auto split: option.splits dest!: find_Some_pos suffix_length_le)


lemma ws_len_ascii:
  assumes "of_char c < (128 :: nat)"
  shows "ws_len (c # s) = (if ascii_space c then 1 else 0)"
proof -
  have "c \<noteq> CHR 0xC2" "c \<noteq> CHR 0xE1" "c \<noteq> CHR 0xE2" "c \<noteq> CHR 0xE3"
    using assms by auto
  then show ?thesis
    by (auto simp: ws_len_def white_space_def ascii_space_def)
qed

lemma white_space_last:
  "list_all (\<lambda>w. length w = 1 \<or> of_char (last w) \<ge> (128 :: nat)) white_space"
  by (simp add: white_space_def)

lemma ws_len_end_ascii:
  assumes c: "of_char c < (128 :: nat)"
  shows "ws_len_end (s @ [c]) = (if ascii_space c then 1 else 0)"
proof -
  have "suffix w (s @ [c]) \<longleftrightarrow> w = [c]" if "w \<in> set white_space" for w
  proof
    assume "suffix w (s @ [c])"
    then obtain zs where "s @ [c] = zs @ w" by (auto simp: suffix_def)
    with white_space_nonempty [OF that] have "last w = c"
      by (metis last_appendR last_snoc)
    moreover from white_space_last that c \<open>last w = c\<close> have "length w = 1"
      by (auto simp: list_all_iff)
    ultimately show "w = [c]"
      by (cases w) auto
  qed (simp add: suffix_def)
  then have "find (\<lambda>w. suffix w (s @ [c])) white_space = find (\<lambda>w. w = [c]) white_space"
    by (intro find_cong) auto
  then show ?thesis
    by (auto simp: ws_len_end_def white_space_def ascii_space_def)
qed

lemma ws_len_plain [simp]: "plain c \<Longrightarrow> ws_len (c # s) = 0"
  by (simp add: plain_def ws_len_ascii)

lemma ws_len_end_plain [simp]: "plain c \<Longrightarrow> ws_len_end (s @ [c]) = 0"
  by (simp add: plain_def ws_len_end_ascii)

lemma plain_ascii: "list_all plain s \<Longrightarrow> is_ascii s"
  by (induction s) (auto simp: plain_def)

subsection \<open>\<open>trim\<close> and its variants\<close>

function trim_start :: "string \<Rightarrow> string" where
  "trim_start s = (if ws_len s = 0 then s else trim_start (drop (ws_len s) s))"
  by pat_completeness auto
termination
proof (relation "measure length", simp)
  fix s :: string
  assume "ws_len s \<noteq> 0"
  with ws_len_le [of s] show "(drop (ws_len s) s, s) \<in> measure length"
    by auto
qed

function trim_end :: "string \<Rightarrow> string" where
  "trim_end s =
    (if ws_len_end s = 0 then s else trim_end (take (length s - ws_len_end s) s))"
  by pat_completeness auto
termination
proof (relation "measure length", simp)
  fix s :: string
  assume "ws_len_end s \<noteq> 0"
  with ws_len_end_le [of s]
  show "(take (length s - ws_len_end s) s, s) \<in> measure length"
    by auto
qed

declare trim_start.simps [simp del]
declare trim_end.simps [simp del]

definition trim :: "string \<Rightarrow> string" where
  "trim s = trim_end (trim_start s)"

lemma trim_start_stop: "ws_len s = 0 \<Longrightarrow> trim_start s = s"
  by (simp add: trim_start.simps)

lemma trim_end_stop: "ws_len_end s = 0 \<Longrightarrow> trim_end s = s"
  by (simp add: trim_end.simps)

lemma trim_start_Nil [simp]: "trim_start [] = []"
  by (simp add: trim_start_stop)

lemma trim_end_Nil [simp]: "trim_end [] = []"
  by (simp add: trim_end_stop)

lemma trim_Nil [simp]: "trim [] = []"
  by (simp add: trim_def)

lemma trim_start_plain [simp]: "plain c \<Longrightarrow> trim_start (c # s) = c # s"
  by (simp add: trim_start_stop)

lemma trim_end_plain [simp]: "plain c \<Longrightarrow> trim_end (s @ [c]) = s @ [c]"
  by (simp add: trim_end_stop)

lemma trim_start_space [simp]: "ascii_space c \<Longrightarrow> trim_start (c # s) = trim_start s"
  by (subst trim_start.simps) (auto simp: ascii_space_def ws_len_ascii)

lemma trim_end_space [simp]: "ascii_space c \<Longrightarrow> trim_end (s @ [c]) = trim_end s"
  by (subst trim_end.simps) (auto simp: ascii_space_def ws_len_end_ascii)

lemma trim_plain:
  assumes "s = [] \<or> plain (hd s) \<and> plain (last s)"
  shows "trim s = s"
proof (cases "s = []")
  case False
  then obtain c cs where s: "s = c # cs" by (cases s) auto
  have "trim_end s = s"
    using assms False trim_end_plain [of "last s" "butlast s"] by simp
  then show ?thesis
    using assms False by (simp add: trim_def s)
qed simp

lemma trim_newline:
  assumes "s = [] \<or> plain (hd s) \<and> plain (last s)"
  shows "trim (s @ [CHR 0x0A]) = s"
proof (cases "s = []")
  case True
  then show ?thesis by (simp add: trim_def ascii_space_def)
next
  case False
  then obtain c cs where s: "s = c # cs" by (cases s) auto
  have "trim_start (s @ [CHR 0x0A]) = s @ [CHR 0x0A]"
    using assms by (simp add: s)
  then have "trim (s @ [CHR 0x0A]) = trim_end s"
    by (simp add: trim_def ascii_space_def)
  then show ?thesis
    using assms False trim_end_plain [of "last s" "butlast s"] by simp
qed

lemma trim_start_suffix: "suffix (trim_start s) s"
proof (induction s rule: trim_start.induct)
  case (1 s)
  then show ?case
    by (subst trim_start.simps) (auto intro: suffix_order.trans suffix_drop)
qed

lemma trim_end_prefix: "prefix (trim_end s) s"
proof (induction s rule: trim_end.induct)
  case (1 s)
  then show ?case
    by (subst trim_end.simps) (auto intro: prefix_order.trans take_is_prefix)
qed

section \<open>Splitting and searching\<close>

fun cons_hd :: "'a \<Rightarrow> 'a list list \<Rightarrow> 'a list list" where
  "cons_hd x [] = [[x]]"
| "cons_hd x (ys # yss) = (x # ys) # yss"

text \<open>\<open>s.split(c)\<close> for an ASCII character.\<close>

fun split_on :: "char \<Rightarrow> string \<Rightarrow> string list" where
  "split_on c [] = [[]]"
| "split_on c (x # xs) = (if x = c then [] # split_on c xs else cons_hd x (split_on c xs))"

text \<open>\<open>s.split_once(c)\<close>.\<close>

fun split_once :: "char \<Rightarrow> string \<Rightarrow> (string \<times> string) option" where
  "split_once c [] = None"
| "split_once c (x # xs) =
    (if x = c then Some ([], xs) else map_option (\<lambda>(a, b). (x # a, b)) (split_once c xs))"

text \<open>
  \<open>split_while\<close> separates at every character whose length in bytes \<open>sep\<close> gives at the place it
  starts (0 where no separator starts): the shape of \<open>split(closure)\<close> and \<open>split_whitespace\<close>.
\<close>

function split_by :: "(string \<Rightarrow> nat) \<Rightarrow> string \<Rightarrow> string list" where
  "split_by sep [] = [[]]"
| "split_by sep (x # xs) =
    (if sep (x # xs) = 0 then cons_hd x (split_by sep xs)
     else [] # split_by sep (drop (sep (x # xs) - 1) xs))"
  by pat_completeness auto
termination
  by (relation "measure (\<lambda>(_, s). length s)") auto

definition split_whitespace :: "string \<Rightarrow> string list" where
  "split_whitespace s = filter (\<lambda>t. t \<noteq> []) (split_by ws_len s)"

definition strip_prefix :: "string \<Rightarrow> string \<Rightarrow> string option" where
  "strip_prefix p s = (if prefix p s then Some (drop (length p) s) else None)"

text \<open>\<open>s.find(p)\<close>: the byte offset of the first occurrence.\<close>

fun find_sub :: "string \<Rightarrow> string \<Rightarrow> nat option" where
  "find_sub p [] = (if p = [] then Some 0 else None)"
| "find_sub p (x # xs) = (if prefix p (x # xs) then Some 0 else map_option Suc (find_sub p xs))"

definition contains :: "string \<Rightarrow> string \<Rightarrow> bool" where
  "contains s p \<longleftrightarrow> find_sub p s \<noteq> None"

definition to_lower :: "char \<Rightarrow> char" where
  "to_lower c = (let n = (of_char c :: nat) in if 65 \<le> n \<and> n \<le> 90 then char_of (n + 32) else c)"

definition eq_ignore_ascii_case :: "string \<Rightarrow> string \<Rightarrow> bool" where
  "eq_ignore_ascii_case s t \<longleftrightarrow> map to_lower s = map to_lower t"

text \<open>\<open>lines.join(sep)\<close>.\<close>

fun join :: "string \<Rightarrow> string list \<Rightarrow> string" where
  "join sep [] = []"
| "join sep [s] = s"
| "join sep (s # t # ts) = s @ sep @ join sep (t # ts)"

text \<open>
  \<open>s.lines()\<close>: every line ends at a line feed, which is removed with the carriage return before
  it; a last line without a line feed is kept as it is, and an empty rest is no line.
\<close>

fun split_inclusive :: "string \<Rightarrow> string list" where
  "split_inclusive [] = []"
| "split_inclusive (x # xs) =
    (if x = CHR 0x0A then [x] # split_inclusive xs else cons_hd x (split_inclusive xs))"

definition strip_eol :: "string \<Rightarrow> string" where
  "strip_eol l =
    (if l \<noteq> [] \<and> last l = CHR 0x0A then
       (let m = butlast l in if m \<noteq> [] \<and> last m = CHR 0x0D then butlast m else m)
     else l)"

definition text_lines :: "string \<Rightarrow> string list" where
  "text_lines s = map strip_eol (split_inclusive s)"

subsection \<open>Laws\<close>

lemma cons_hd_append [simp]: "xss \<noteq> [] \<Longrightarrow> cons_hd x xss = (x # hd xss) # tl xss"
  by (cases xss) auto

lemma split_on_ne [simp]: "split_on c s \<noteq> []"
  by (induction s) (auto split: list.splits)

lemma split_on_none: "c \<notin> set s \<Longrightarrow> split_on c s = [s]"
  by (induction s) auto

lemma split_on_append: "c \<notin> set s \<Longrightarrow> split_on c (s @ c # t) = s # split_on c t"
  by (induction s) auto

lemma split_once_append: "c \<notin> set s \<Longrightarrow> split_once c (s @ c # t) = Some (s, t)"
  by (induction s) auto

lemma split_once_none: "split_once c s = None \<longleftrightarrow> c \<notin> set s"
  by (induction s) auto

lemma split_once_Some: "split_once c s = Some (a, b) \<Longrightarrow> s = a @ c # b \<and> c \<notin> set a"
  by (induction s arbitrary: a) (auto split: if_splits)

lemma join_split_on: "join [c] (split_on c s) = s"
proof (induction s)
  case (Cons x xs)
  obtain t ts where "split_on c xs = t # ts" by (cases "split_on c xs") auto
  with Cons show ?case by (cases ts) auto
qed simp

lemma split_by_ne [simp]: "split_by sep s \<noteq> []"
  by (induction sep s rule: split_by.induct) auto

text \<open>A text of plain characters followed by a one-byte separator.\<close>

lemma split_by_append:
  assumes "list_all plain s" and "\<And>c t. plain c \<Longrightarrow> c \<in> set s \<Longrightarrow> sep (c # t) = 0" and "sep (x # t) = 1"
  shows "split_by sep (s @ x # t) = s # split_by sep t"
  using assms by (induction s) auto

lemma split_by_none:
  assumes "list_all plain s" and "\<And>c t. plain c \<Longrightarrow> c \<in> set s \<Longrightarrow> sep (c # t) = 0"
  shows "split_by sep s = [s]"
  using assms by (induction s) auto

lemma split_whitespace_Nil [simp]: "split_whitespace [] = []"
  by (simp add: split_whitespace_def)

lemma split_whitespace_append:
  assumes "list_all plain s" "s \<noteq> []" "ascii_space x"
  shows "split_whitespace (s @ x # t) = s # split_whitespace t"
proof -
  have "ws_len (x # t) = 1"
    using assms(3) by (subst ws_len_ascii) (auto simp: ascii_space_def)
  then have "split_by ws_len (s @ x # t) = s # split_by ws_len t"
    using assms(1) by (intro split_by_append) auto
  then show ?thesis using assms(2) by (simp add: split_whitespace_def)
qed

lemma split_whitespace_token:
  "list_all plain s \<Longrightarrow> s \<noteq> [] \<Longrightarrow> split_whitespace s = [s]"
  by (simp add: split_whitespace_def split_by_none)

lemma find_sub_None: "find_sub p s = None \<longleftrightarrow> \<not> sublist p s"
  by (induction s) (auto simp: sublist_Cons_right)

lemma contains_sublist: "contains s p \<longleftrightarrow> sublist p s"
  by (simp add: contains_def find_sub_None)

lemma find_sub_Some:
  "find_sub p s = Some i \<Longrightarrow> i \<le> length s \<and> prefix p (drop i s)"
  by (induction s arbitrary: i) (auto split: if_splits)

lemma find_sub_first:
  "find_sub p s = Some i \<Longrightarrow> j < i \<Longrightarrow> \<not> prefix p (drop j s)"
proof (induction s arbitrary: i j)
  case (Cons x xs)
  then show ?case by (cases j) (auto split: if_splits)
qed (auto split: if_splits)

lemma split_inclusive_append:
  "CHR 0x0A \<notin> set l \<Longrightarrow>
    split_inclusive (l @ CHR 0x0A # t) = (l @ [CHR 0x0A]) # split_inclusive t"
  by (induction l) auto

lemma strip_eol_line [simp]:
  "l = [] \<or> last l \<noteq> CHR 0x0D \<Longrightarrow> strip_eol (l @ [CHR 0x0A]) = l"
  by (auto simp: strip_eol_def)

text \<open>A line as the program writes it: no line feed, and no carriage return at its end.\<close>

definition is_line :: "string \<Rightarrow> bool" where
  "is_line l \<longleftrightarrow> CHR 0x0A \<notin> set l \<and> (l = [] \<or> last l \<noteq> CHR 0x0D)"

lemma text_lines_Nil [simp]: "text_lines [] = []"
  by (simp add: text_lines_def)

lemma text_lines_append:
  "is_line l \<Longrightarrow> text_lines (l @ CHR 0x0A # t) = l # text_lines t"
  by (auto simp: text_lines_def split_inclusive_append is_line_def)

lemma join_newline:
  "ls \<noteq> [] \<Longrightarrow> join [CHR 0x0A] ls @ [CHR 0x0A] = concat (map (\<lambda>l. l @ [CHR 0x0A]) ls)"
  by (induction ls rule: induct_list012) auto

lemma text_lines_concat:
  "list_all is_line ls \<Longrightarrow> text_lines (concat (map (\<lambda>l. l @ [CHR 0x0A]) ls)) = ls"
  by (induction ls) (auto simp: text_lines_append)

lemma text_lines_join:
  "list_all is_line ls \<Longrightarrow> ls \<noteq> [] \<Longrightarrow> text_lines (join [CHR 0x0A] ls @ [CHR 0x0A]) = ls"
  by (simp add: join_newline text_lines_concat)

section \<open>Text before and after a plain character\<close>

lemma white_space_not_plain: "w \<in> set white_space \<Longrightarrow> c \<in> set w \<Longrightarrow> \<not> plain c"
proof -
  have "list_all (list_all (\<lambda>c. \<not> plain c)) white_space"
    by (simp add: white_space_def plain_def ascii_space_def)
  then show "w \<in> set white_space \<Longrightarrow> c \<in> set w \<Longrightarrow> \<not> plain c" by (auto simp: list_all_iff)
qed

lemma ws_len_before_plain: "plain c \<Longrightarrow> ws_len (q @ c # r) = ws_len q"
proof -
  assume c: "plain c"
  have "prefix w (q @ c # r) \<longleftrightarrow> prefix w q" if "w \<in> set white_space" for w
  proof
    assume "prefix w (q @ c # r)"
    then consider "prefix w q" | us where "w = q @ us" "prefix us (c # r)" by (auto simp: prefix_append)
    then show "prefix w q"
    proof cases
      case 2
      then have "us = []" using white_space_not_plain [OF that, of c] c by (cases us) auto
      with 2 show ?thesis by simp
    qed
  qed simp
  then have "find (\<lambda>w. prefix w (q @ c # r)) white_space = find (\<lambda>w. prefix w q) white_space"
    by (intro find_cong) auto
  then show ?thesis by (simp add: ws_len_def)
qed

lemma trim_start_before_plain: "plain c \<Longrightarrow> trim_start (q @ c # r) = trim_start q @ c # r"
proof (induction q rule: trim_start.induct)
  case (1 q)
  show ?case
  proof (cases "ws_len q = 0")
    case True
    then show ?thesis by (simp add: trim_start_stop ws_len_before_plain [OF 1(2)])
  next
    case False
    have "trim_start (q @ c # r) = trim_start (drop (ws_len q) q @ c # r)"
      using False ws_len_le [of q] by (subst trim_start.simps) (simp add: ws_len_before_plain [OF 1(2)])
    also have "\<dots> = trim_start (drop (ws_len q) q) @ c # r" using 1(1) [OF False 1(2)] .
    also have "trim_start (drop (ws_len q) q) = trim_start q" using False by (subst (2) trim_start.simps) simp
    finally show ?thesis .
  qed
qed

lemma split_by_before_plain:
  assumes c: "plain c"
  shows "split_by ws_len (q @ c # r) = butlast (split_by ws_len q) @
    (last (split_by ws_len q) @ c # hd (split_by ws_len r)) # tl (split_by ws_len r)"
proof (induction q rule: length_induct)
  case (1 q)
  show ?case
  proof (cases q)
    case Nil
    then show ?thesis using c by simp
  next
    case (Cons x xs)
    have len: "ws_len (x # xs @ c # r) = ws_len (x # xs)" using ws_len_before_plain [OF c, of "x # xs" r] by simp
    show ?thesis
    proof (cases "ws_len (x # xs) = 0")
      case True
      obtain t ts where S: "split_by ws_len xs = t # ts" by (cases "split_by ws_len xs") auto
      with True 1 [rule_format, of xs] Cons len show ?thesis by (cases ts) auto
    next
      case False
      have le: "ws_len (x # xs) - 1 \<le> length xs" using ws_len_le [of "x # xs"] by simp
      have "split_by ws_len (q @ c # r) = [] # split_by ws_len (drop (ws_len (x # xs) - 1) xs @ c # r)"
        using False len le Cons by simp
      also have "\<dots> = [] # butlast (split_by ws_len (drop (ws_len (x # xs) - 1) xs)) @
          (last (split_by ws_len (drop (ws_len (x # xs) - 1) xs)) @ c # hd (split_by ws_len r)) # tl (split_by ws_len r)"
        using 1 [rule_format, of "drop (ws_len (x # xs) - 1) xs"] Cons by simp
      finally show ?thesis using False Cons by simp
    qed
  qed
qed

lemma find_sub_take:
  "find_sub p s = Some i \<Longrightarrow> p \<noteq> [] \<Longrightarrow> find_sub p (take (i + length p) s @ x) = Some i"
proof (induction s arbitrary: i)
  case (Cons c s)
  show ?case
  proof (cases "prefix p (c # s)")
    case True
    then have "i = 0" using Cons.prems by simp
    moreover obtain r where "c # s = p @ r" using True by (auto simp: prefix_def)
    ultimately show ?thesis using Cons.prems(2) by (cases p) auto
  next
    case False
    then obtain k where k: "i = Suc k" "find_sub p s = Some k" using Cons.prems by auto
    have "k + length p \<le> length s" using find_sub_Some [OF k(2)] by (auto dest: prefix_length_le)
    have "\<not> prefix p (c # take (k + length p) s @ x)"
    proof
      let ?q = "c # take (k + length p) s"
      assume "prefix p (c # take (k + length p) s @ x)"
      moreover have "prefix ?q (?q @ x)" by simp
      moreover have "length p \<le> length ?q" using \<open>k + length p \<le> length s\<close> by simp
      ultimately have "prefix p ?q" by (metis append_Cons prefix_length_prefix)
      moreover have "prefix ?q (c # s)" by (simp add: take_is_prefix)
      ultimately show False using False prefix_order.trans by blast
    qed
    then show ?thesis using Cons.IH [OF k(2) Cons.prems(2)] by (simp add: k(1))
  qed
qed simp

end
