(* ===== verification/Rust_Num.thy ===== *)
theory Rust_Num
  imports Rust_Text
begin

text \<open>
  \<open>FromStr\<close> and \<open>Display\<close> of Rust's unsigned integers: \<open>str::parse::<uN>()\<close>,
  \<open>uN::from_str_radix\<close>, \<open>to_string()\<close>, and the saturating operations the counters use.
\<close>

section \<open>Parsing\<close>

text \<open>\<open>char::to_digit(radix)\<close>.\<close>

definition digit_val :: "nat \<Rightarrow> char \<Rightarrow> nat option" where
  "digit_val r c =
    (let n = of_char c;
         d = (if 48 \<le> n \<and> n \<le> 57 then n - 48
              else if 97 \<le> n \<and> n \<le> 122 then n - 87
              else if 65 \<le> n \<and> n \<le> 90 then n - 55 else r)
     in if d < r then Some d else None)"

fun digits_val :: "nat \<Rightarrow> nat \<Rightarrow> string \<Rightarrow> nat option" where
  "digits_val r acc [] = Some acc"
| "digits_val r acc (c # cs) =
    (case digit_val r c of None \<Rightarrow> None | Some d \<Rightarrow> digits_val r (acc * r + d) cs)"

text \<open>
  \<open>from_str_radix\<close> of an unsigned type: an empty string and a lone sign are errors, one leading
  plus sign is skipped, a minus sign is an invalid digit.
\<close>

definition parse_radix :: "nat \<Rightarrow> string \<Rightarrow> nat option" where
  "parse_radix r s =
    (case s of [] \<Rightarrow> None
     | c # cs \<Rightarrow> if c = CHR ''+'' then (if cs = [] then None else digits_val r 0 cs)
                 else digits_val r 0 (c # cs))"

text \<open>Values that do not fit in the type are an error (\<open>PosOverflow\<close>).\<close>

definition parse_word_radix :: "nat \<Rightarrow> string \<Rightarrow> 'a::len word option" where
  "parse_word_radix r s =
    (case parse_radix r s of None \<Rightarrow> None
     | Some n \<Rightarrow> if n < 2 ^ LENGTH('a) then Some (of_nat n) else None)"

definition parse_word :: "string \<Rightarrow> 'a::len word option" where
  "parse_word s = parse_word_radix 10 s"

section \<open>Printing\<close>

definition digit_char :: "nat \<Rightarrow> char" where
  "digit_char d = (if d < 10 then char_of (48 + d) else char_of (87 + d))"

fun show_nat :: "nat \<Rightarrow> string" where
  "show_nat n = (if n < 10 then [digit_char n] else show_nat (n div 10) @ [digit_char (n mod 10)])"

declare show_nat.simps [simp del]

definition show_word :: "'a::len word \<Rightarrow> string" where
  "show_word w = show_nat (unat w)"

section \<open>Saturating arithmetic\<close>

definition sat_inc :: "'a::len word \<Rightarrow> 'a word" where
  "sat_inc w = (if w = - 1 then w else w + 1)"

definition sat_sub :: "'a::len word \<Rightarrow> 'a word \<Rightarrow> 'a word" where
  "sat_sub a b = (if a < b then 0 else a - b)"

lemma unat_minus_one_word: "unat (- 1 :: 'a::len word) = 2 ^ LENGTH('a) - 1"
  by (simp add: unsigned_minus_1_eq_mask mask_eq_exp_minus_1)

lemma unat_sat_inc: "unat (sat_inc (w :: 'a::len word)) = min (unat w + 1) (2 ^ LENGTH('a) - 1)"
proof (cases "w = - 1")
  case True
  then show ?thesis by (simp add: sat_inc_def unat_minus_one_word)
next
  case False
  have "unat w \<noteq> 2 ^ LENGTH('a) - 1"
    using False by (metis unat_minus_one_word word_unat_eq_iff)
  moreover have "unat w < 2 ^ LENGTH('a)" by (rule unsigned_less)
  ultimately have "unat w + 1 < 2 ^ LENGTH('a)" by linarith
  with False show ?thesis by (simp add: sat_inc_def unat_word_ariths)
qed

lemma unat_sat_sub: "unat (sat_sub a b) = unat a - unat b"
  by (auto simp: sat_sub_def word_less_nat_alt unat_sub word_le_nat_alt)

section \<open>Laws\<close>

lemma digit_char_val: "d < 10 \<Longrightarrow> 10 \<le> r \<Longrightarrow> digit_val r (digit_char d) = Some d"
  by (simp add: digit_val_def digit_char_def Let_def)

lemma hex_digit_char_val: "d < 16 \<Longrightarrow> digit_val 16 (digit_char d) = Some d"
  by (simp add: digit_val_def digit_char_def Let_def)

lemma digits_val_append:
  "digits_val r acc (s @ t) = (case digits_val r acc s of None \<Rightarrow> None | Some n \<Rightarrow> digits_val r n t)"
  by (induction s arbitrary: acc) (auto split: option.splits)

lemma digits_val_show_nat: "digits_val 10 0 (show_nat n) = Some n"
proof (induction n rule: show_nat.induct)
  case (1 n)
  show ?case
  proof (cases "n < 10")
    case True
    then show ?thesis by (simp add: show_nat.simps [of n] digit_char_val)
  next
    case False
    with 1 show ?thesis
      by (subst show_nat.simps) (simp add: digits_val_append digit_char_val)
  qed
qed

definition is_digit :: "char \<Rightarrow> bool" where
  "is_digit c \<longleftrightarrow> 48 \<le> (of_char c :: nat) \<and> (of_char c :: nat) \<le> 57"

lemma is_digit_digit_char: "d < 10 \<Longrightarrow> is_digit (digit_char d)"
  by (simp add: is_digit_def digit_char_def)

lemma show_nat_digits: "list_all is_digit (show_nat n)"
proof (induction n rule: show_nat.induct)
  case (1 n)
  then show ?case
    by (subst show_nat.simps) (auto simp: is_digit_digit_char)
qed

lemma show_nat_ne [simp]: "show_nat n \<noteq> []"
  by (subst show_nat.simps) simp

lemma is_digit_plain: "is_digit c \<Longrightarrow> plain c"
  by (auto simp: is_digit_def plain_def ascii_space_def)

lemma show_word_ne [simp]: "show_word w \<noteq> []"
  by (simp add: show_word_def)

lemma show_word_digits: "list_all is_digit (show_word w)"
  by (simp add: show_word_def show_nat_digits)

lemma show_word_plain: "list_all plain (show_word w)"
  using show_word_digits [of w] by (auto simp: list_all_iff is_digit_plain)

lemma show_word_ascii [simp]: "is_ascii (show_word w)"
  by (simp add: plain_ascii show_word_plain)

lemma show_word_ends: "plain (hd (show_word w))" "plain (last (show_word w))"
  using show_word_plain [of w] by (auto simp: list_all_iff)

lemma show_word_no: "\<not> is_digit c \<Longrightarrow> c \<notin> set (show_word w)"
  using show_word_digits [of w] by (auto simp: list_all_iff)

lemma parse_radix_show_nat: "parse_radix 10 (show_nat n) = Some n"
proof (cases "show_nat n")
  case (Cons c cs)
  with show_nat_digits [of n] have "c \<noteq> CHR ''+''"
    by (auto simp: is_digit_def)
  with Cons digits_val_show_nat [of n] show ?thesis
    by (simp add: parse_radix_def)
qed simp

lemma parse_show_word [simp]: "parse_word (show_word w) = Some w"
  by (simp add: parse_word_def parse_word_radix_def show_word_def parse_radix_show_nat)

lemma trim_show_word [simp]: "trim (show_word w) = show_word w"
  by (simp add: trim_plain show_word_ends)

lemma trim_show_word_newline [simp]: "trim (show_word w @ [CHR 0x0A]) = show_word w"
  by (simp add: trim_newline show_word_ends)

lemma is_line_show_word [simp]: "is_line (show_word w)"
  using show_word_no [of "CHR 0x0A" w] show_word_ends(2) [of w]
  by (auto simp: is_line_def is_digit_def plain_def ascii_space_def)

lemma parse_word_bound: "parse_word s = Some (w :: 'a::len word) \<Longrightarrow>
    \<exists>n. parse_radix 10 s = Some n \<and> n < 2 ^ LENGTH('a) \<and> unat w = n"
  by (auto simp: parse_word_def parse_word_radix_def unat_of_nat split: option.splits if_splits)

lemma show_nat_small: "n < 10 \<Longrightarrow> show_nat n = [digit_char n]"
  by (simp add: show_nat.simps)

lemma show_nat_step: "\<not> n < 10 \<Longrightarrow> show_nat n = show_nat (n div 10) @ [digit_char (n mod 10)]"
  by (simp add: show_nat.simps)

text \<open>A key, an equals sign and a number: the line format of \<open>config\<close> and \<open>deadman\<close>.\<close>

lemma is_line_kv: "CHR 0x0A \<notin> set k \<Longrightarrow> is_line (k @ show_word w)"
  using is_line_show_word [of w] by (simp add: is_line_def)

section \<open>Checked arithmetic\<close>

text \<open>\<open>+\<close> and \<open>*\<close> on unsigned integers: a debug build panics on overflow, a release build wraps.\<close>

definition add_checked :: "bool \<Rightarrow> 'a::len word \<Rightarrow> 'a word \<Rightarrow> 'a word res" where
  "add_checked dbg a b = (if dbg \<and> unat a + unat b \<ge> 2 ^ LENGTH('a) then Halt Panic else Ok (a + b))"

definition mul_checked :: "bool \<Rightarrow> 'a::len word \<Rightarrow> 'a word \<Rightarrow> 'a word res" where
  "mul_checked dbg a b = (if dbg \<and> unat a * unat b \<ge> 2 ^ LENGTH('a) then Halt Panic else Ok (a * b))"

lemma add_checked_small: "unat a + unat b < 2 ^ LENGTH('a::len) \<Longrightarrow> add_checked dbg a (b :: 'a word) = Ok (a + b)"
  by (simp add: add_checked_def)

end
