(* ===== verification/Codec.thy ===== *)
theory Codec
  imports Rust_Num
begin

text \<open>
  The interface of every piece of state that the tools keep as a text file: the writer's text of a
  value (\<open>enc\<close>), the reader's parser (\<open>dec\<close>), and which values the writer ever writes (\<open>good\<close>).
  The writer and the reader are often different programs (\<open>dsctl arm\<close> writes what \<open>ds-unlock\<close>
  reads in the initramfs), so the law that joins them is stated once and each component that owns
  a file format proves it for its own definitions.
\<close>

locale text_codec =
  fixes enc :: "'a \<Rightarrow> string"
    and dec :: "string \<Rightarrow> 'a res"
    and good :: "'a \<Rightarrow> bool"
  assumes dec_enc: "good x \<Longrightarrow> dec (enc x) = Ok x"
    and enc_ascii: "good x \<Longrightarrow> is_ascii (enc x)"
begin

lemma enc_utf8: "good x \<Longrightarrow> utf8_valid (enc x)"
  by (simp add: enc_ascii ascii_utf8_valid)

lemma enc_inj: "good x \<Longrightarrow> good y \<Longrightarrow> enc x = enc y \<Longrightarrow> x = y"
  by (metis dec_enc res.inject(1))

lemma dec_enc_unique: "good x \<Longrightarrow> dec (enc x) = Ok y \<longleftrightarrow> y = x"
  by (auto simp: dec_enc)

end

text \<open>
  A reader that ignores one trailing line feed, as all of the program's readers do: the writer may
  end the text with one or not.
\<close>

locale line_codec = text_codec +
  assumes dec_newline: "good x \<Longrightarrow> dec (enc x @ [CHR 0x0A]) = Ok x"
begin

lemma dec_line: "good x \<Longrightarrow> t = enc x \<or> t = enc x @ [CHR 0x0A] \<Longrightarrow> dec t = Ok x"
  by (auto simp: dec_enc dec_newline)

end

section \<open>Keyslot numbers\<close>

text \<open>
  \<open>daily.slot\<close> and \<open>recovery.slot\<close> are written as a decimal number and a line feed
  (\<open>dsctl enroll-recovery\<close>, \<open>sync_esp_state\<close>) and read back by \<open>dsctl\<close>, \<open>ds-unlock\<close> and \<open>ds-erase\<close>.
  This is the reader of \<open>dsctl\<close> and \<open>ds-unlock\<close>.
\<close>

definition parse_slot :: "string \<Rightarrow> u8 res" where
  "parse_slot text =
    rbind (some_or ''invalid keyslot metadata'' (parse_word (trim text))) (\<lambda>slot.
    if slot > 31 then Err (Msg ''keyslot outside 0..31'') else Ok slot)"

lemma parse_slot_Ok: "parse_slot t = Ok n \<Longrightarrow> n \<le> 31"
  by (auto simp: parse_slot_def ok_inv split: if_splits)

interpretation slot_file: line_codec show_word parse_slot "\<lambda>n. n \<le> 31"
  by unfold_locales (simp_all add: parse_slot_def not_less)

end
