(* ===== verification/World.thy ===== *)
theory World
  imports Codec "HOL-Library.AList"
begin

text \<open>
  The machine the tools run on: paths, the file system as system calls see it and as a power cut
  leaves it, the commands the tools run, and the sequencing of effects. Every system call takes the
  next entry of the fault schedule: it works (\<open>Go\<close>, also when the schedule is used up), it fails
  (\<open>Fail\<close>), or the power is cut before it (\<open>Cut\<close>); theorems quantify over all schedules.
\<close>

section \<open>Paths\<close>

text \<open>
  A \<open>Path\<close> is the list of its components, as \<open>Path::components\<close> gives them and as \<open>Path\<close>
  equality compares them; an absolute path starts with the component \<open>/\<close>. Repeated and trailing
  slashes and inner \<open>.\<close> components disappear, \<open>..\<close> stays.
\<close>

type_synonym path = "string list"

definition components :: "string \<Rightarrow> path" where
  "components s =
    (let parts = split_on CHR ''/'' s;
         front = (if prefix ''/'' s then [''/''] else if hd parts = ''.'' then [''.''] else [])
     in front @ filter (\<lambda>c. c \<noteq> [] \<and> c \<noteq> ''.'') parts)"

definition is_absolute :: "path \<Rightarrow> bool" where
  "is_absolute p \<longleftrightarrow> p \<noteq> [] \<and> hd p = ''/''"

definition parent_of :: "path \<Rightarrow> path option" where
  "parent_of p = (if p = [] \<or> p = [''/''] then None else Some (butlast p))"

definition file_name :: "path \<Rightarrow> string option" where
  "file_name p =
    (if p = [] \<or> last p = ''/'' \<or> last p = ''.'' \<or> last p = ''..'' then None else Some (last p))"

definition path_text :: "path \<Rightarrow> string" where
  "path_text p =
    (if is_absolute p then ''/'' @ join ''/'' (tl p) else join ''/'' p)"

section \<open>The file system\<close>

text \<open>
  A regular file has its bytes, its mode bits and whether its bytes have been synced since they were
  last written. A path maps to a node; hard links are not modelled, and a symbolic link stands only
  in the last component of a path that a system call resolves.
\<close>

datatype node =
    File (f_data: string) (f_mode: nat) (f_synced: bool)
  | Dir (d_mode: nat)
  | Symlink path
  | BlockDev
  | OtherNode

type_synonym fs = "(path \<times> node) list"

abbreviation fs_get :: "fs \<Rightarrow> path \<Rightarrow> node option" where
  "fs_get \<equiv> map_of"

abbreviation fs_put :: "path \<Rightarrow> node \<Rightarrow> fs \<Rightarrow> fs" where
  "fs_put \<equiv> AList.update"

abbreviation fs_del :: "path \<Rightarrow> fs \<Rightarrow> fs" where
  "fs_del \<equiv> AList.delete"

text \<open>Resolution of a final symbolic link, to the kernel's depth of 40.\<close>

fun follow :: "nat \<Rightarrow> fs \<Rightarrow> path \<Rightarrow> node option" where
  "follow 0 f p = None"
| "follow (Suc n) f p =
    (case fs_get f p of
       Some (Symlink t) \<Rightarrow> follow n f (if is_absolute t then t else butlast p @ t)
     | x \<Rightarrow> x)"

definition look :: "fs \<Rightarrow> path \<Rightarrow> node option" where
  "look f p = follow 40 f p"

text \<open>The path at which that resolution ends.\<close>

fun follow_path :: "nat \<Rightarrow> fs \<Rightarrow> path \<Rightarrow> path" where
  "follow_path 0 f p = p"
| "follow_path (Suc n) f p =
    (case fs_get f p of
       Some (Symlink t) \<Rightarrow> follow_path n f (if is_absolute t then t else butlast p @ t)
     | _ \<Rightarrow> p)"

definition target_of :: "fs \<Rightarrow> path \<Rightarrow> path" where
  "target_of f p = follow_path 40 f p"

definition is_link :: "node \<Rightarrow> bool" where
  "is_link n = (case n of Symlink _ \<Rightarrow> True | _ \<Rightarrow> False)"

definition is_file_node :: "node \<Rightarrow> bool" where
  "is_file_node n = (case n of File _ _ _ \<Rightarrow> True | _ \<Rightarrow> False)"

definition is_dir_node :: "node \<Rightarrow> bool" where
  "is_dir_node n = (case n of Dir _ \<Rightarrow> True | _ \<Rightarrow> False)"

text \<open>The entries of one directory become durable when the directory is synced.\<close>

definition sync_entries :: "path \<Rightarrow> fs \<Rightarrow> fs \<Rightarrow> fs" where
  "sync_entries d v u =
    filter (\<lambda>(p, _). parent_of p = Some d) v @ filter (\<lambda>(p, _). parent_of p \<noteq> Some d) u"

section \<open>The machine\<close>

datatype fault = Go | Fail | Cut

text \<open>The end of a command: it could not be started, or it ended with success or not and printed.\<close>

datatype cmd = NoSpawn | Exited bool string

text \<open>
  \<open>w_vis\<close> is the file system that system calls see, \<open>w_dur\<close> what is certainly on the disk, \<open>w_ext\<close>
  everything else that commands act on (the LUKS headers first of all). \<open>w_exec\<close> is what running a
  program with arguments and standard input does: \<open>cryptsetup\<close>, \<open>shred\<close>, \<open>mkinitcpio\<close> and the
  other programs are not part of this repository. \<open>w_kdf\<close> is PBKDF2, \<open>w_rand\<close> the random bytes the
  system will give, \<open>w_tty\<close> the secrets that will be typed, \<open>w_stdin\<close> the standard
  input left when it is not a terminal. \<open>w_log\<close> records the commands run and
  \<open>w_spawned\<close> those started without waiting; no program reads them.
\<close>

type_synonym 'x store = "fs \<times> fs \<times> 'x"

record 'x world =
  w_vis :: fs
  w_dur :: fs
  w_ext :: 'x
  w_exec :: "string \<Rightarrow> string list \<Rightarrow> string \<Rightarrow> 'x store \<Rightarrow> cmd \<times> 'x store"
  w_kdf :: "string \<Rightarrow> u8 list \<Rightarrow> u32 \<Rightarrow> u8 list option"
  w_sched :: "fault list"
  w_clock :: u64
  w_pid :: nat
  w_debug :: bool
  w_env :: "string \<Rightarrow> string option"
  w_cwd :: path
  w_tty :: "string list"
  w_stdin :: "string option"
  w_rand :: "u8 list"
  w_log :: "(string \<times> string list \<times> string) list"
  w_spawned :: "(string \<times> string list) list"

type_synonym ('x, 'a) io = "'x world \<Rightarrow> 'a res \<times> 'x world"

section \<open>Sequencing\<close>

definition ret :: "'a \<Rightarrow> ('x, 'a) io" where
  "ret a w = (Ok a, w)"

definition fail :: "err \<Rightarrow> ('x, 'a) io" where
  "fail e w = (Err e, w)"

definition bail :: "string \<Rightarrow> ('x, 'a) io" where
  "bail msg = fail (Msg msg)"

definition lift :: "'a res \<Rightarrow> ('x, 'a) io" where
  "lift r w = (r, w)"

definition ask :: "('x world \<Rightarrow> 'a) \<Rightarrow> ('x, 'a) io" where
  "ask f w = (Ok (f w), w)"

text \<open>The \<open>;\<close> and \<open>?\<close> of a block: an error or the end of the run skips the rest.\<close>

definition bnd :: "('x, 'a) io \<Rightarrow> ('a \<Rightarrow> ('x, 'b) io) \<Rightarrow> ('x, 'b) io" where
  "bnd m f w =
    (case m w of (Ok a, w') \<Rightarrow> f a w' | (Err e, w') \<Rightarrow> (Err e, w') | (Halt h, w') \<Rightarrow> (Halt h, w'))"

definition ctx :: "string \<Rightarrow> ('x, 'a) io \<Rightarrow> ('x, 'a) io" where
  "ctx msg m w = (case m w of (r, w') \<Rightarrow> (rctx msg r, w'))"

text \<open>A \<open>Result\<close> that the program looks at instead of returning it.\<close>

definition attempt :: "('x, 'a) io \<Rightarrow> ('x, err + 'a) io" where
  "attempt m w =
    (case m w of (Ok a, w') \<Rightarrow> (Ok (Inr a), w') | (Err e, w') \<Rightarrow> (Ok (Inl e), w')
     | (Halt h, w') \<Rightarrow> (Halt h, w'))"

definition require :: "bool \<Rightarrow> string \<Rightarrow> ('x, unit) io" where
  "require b msg = (if b then ret () else bail msg)"

text \<open>One system call, under the fault schedule; \<open>probe\<close> is one whose failure reads as \<open>false\<close>.\<close>

definition sys :: "('x world \<Rightarrow> 'a res \<times> 'x world) \<Rightarrow> ('x, 'a) io" where
  "sys f w =
    (case w_sched w of
       [] \<Rightarrow> f w
     | Go # ss \<Rightarrow> f (w\<lparr>w_sched := ss\<rparr>)
     | Fail # ss \<Rightarrow> (Err IoErr, w\<lparr>w_sched := ss\<rparr>)
     | Cut # ss \<Rightarrow> (Halt PowerLoss, w\<lparr>w_sched := ss\<rparr>))"

definition probe :: "('x world \<Rightarrow> bool) \<Rightarrow> ('x, bool) io" where
  "probe f w =
    (case w_sched w of
       [] \<Rightarrow> (Ok (f w), w)
     | Go # ss \<Rightarrow> (Ok (f w), w\<lparr>w_sched := ss\<rparr>)
     | Fail # ss \<Rightarrow> (Ok False, w\<lparr>w_sched := ss\<rparr>)
     | Cut # ss \<Rightarrow> (Halt PowerLoss, w\<lparr>w_sched := ss\<rparr>))"

section \<open>System calls\<close>

definition set_vis :: "fs \<Rightarrow> 'x world \<Rightarrow> 'x world" where
  "set_vis f w = w\<lparr>w_vis := f\<rparr>"

text \<open>\<open>Path::exists\<close>, \<open>is_file\<close>, \<open>is_dir\<close>: they follow a link and never return an error.\<close>

definition path_exists :: "path \<Rightarrow> ('x, bool) io" where
  "path_exists p = probe (\<lambda>w. look (w_vis w) p \<noteq> None)"

definition path_is_file :: "path \<Rightarrow> ('x, bool) io" where
  "path_is_file p = probe (\<lambda>w. case look (w_vis w) p of Some n \<Rightarrow> is_file_node n | None \<Rightarrow> False)"

definition path_is_dir :: "path \<Rightarrow> ('x, bool) io" where
  "path_is_dir p = probe (\<lambda>w. case look (w_vis w) p of Some n \<Rightarrow> is_dir_node n | None \<Rightarrow> False)"

definition symlink_metadata :: "path \<Rightarrow> ('x, node) io" where
  "symlink_metadata p =
    sys (\<lambda>w. (case fs_get (w_vis w) p of Some n \<Rightarrow> Ok n | None \<Rightarrow> Err NotFound, w))"

definition metadata :: "path \<Rightarrow> ('x, node) io" where
  "metadata p = sys (\<lambda>w. (case look (w_vis w) p of Some n \<Rightarrow> Ok n | None \<Rightarrow> Err NotFound, w))"

text \<open>\<open>fs::read\<close>; \<open>read_to_string\<close> also fails when the bytes are not UTF-8.\<close>

definition read_result :: "fs \<Rightarrow> path \<Rightarrow> string res" where
  "read_result f p =
    (case look f p of Some (File d m s) \<Rightarrow> Ok d | None \<Rightarrow> Err NotFound | Some _ \<Rightarrow> Err IoErr)"

definition fs_read :: "path \<Rightarrow> ('x, string) io" where
  "fs_read p = sys (\<lambda>w. (read_result (w_vis w) p, w))"

definition read_to_string :: "path \<Rightarrow> ('x, string) io" where
  "read_to_string p =
    sys (\<lambda>w. (rbind (read_result (w_vis w) p) (\<lambda>d. if utf8_valid d then Ok d else Err IoErr), w))"

text \<open>\<open>OpenOptions::new().write(true).create_new(true).mode(..).open(..)\<close>: never through a link.\<close>

definition create_new :: "path \<Rightarrow> nat \<Rightarrow> ('x, unit) io" where
  "create_new p md =
    sys (\<lambda>w. (case parent_of p of
        None \<Rightarrow> (Err IoErr, w)
      | Some d \<Rightarrow>
          (case look (w_vis w) d of
             Some (Dir _) \<Rightarrow>
               (if fs_get (w_vis w) p \<noteq> None then (Err IoErr, w)
                else (Ok (), w\<lparr>w_vis := fs_put p (File [] md False) (w_vis w)\<rparr>))
           | _ \<Rightarrow> (Err NotFound, w))))"

text \<open>\<open>write_all\<close> on the file just created: the bytes are not durable before \<open>sync_all\<close>.\<close>

definition write_all :: "path \<Rightarrow> string \<Rightarrow> ('x, unit) io" where
  "write_all p data =
    sys (\<lambda>w. (case fs_get (w_vis w) p of
        Some (File d m s) \<Rightarrow> (Ok (), w\<lparr>w_vis := fs_put p (File (d @ data) m False) (w_vis w)\<rparr>)
      | _ \<Rightarrow> (Err IoErr, w)))"

definition sync_file :: "path \<Rightarrow> ('x, unit) io" where
  "sync_file p =
    sys (\<lambda>w. (case fs_get (w_vis w) p of
        Some (File d m s) \<Rightarrow> (Ok (), w\<lparr>w_vis := fs_put p (File d m True) (w_vis w)\<rparr>)
      | _ \<Rightarrow> (Err IoErr, w)))"

text \<open>\<open>set_permissions\<close> changes what a link leads to, not the link.\<close>

definition set_mode :: "path \<Rightarrow> nat \<Rightarrow> ('x, unit) io" where
  "set_mode p md =
    sys (\<lambda>w. (case look (w_vis w) p of
        Some (File d m s) \<Rightarrow> (Ok (), w\<lparr>w_vis := fs_put (target_of (w_vis w) p) (File d md s) (w_vis w)\<rparr>)
      | Some (Dir m) \<Rightarrow> (Ok (), w\<lparr>w_vis := fs_put (target_of (w_vis w) p) (Dir md) (w_vis w)\<rparr>)
      | Some _ \<Rightarrow> (Ok (), w)
      | None \<Rightarrow> (Err NotFound, w)))"

text \<open>\<open>fs::rename\<close> replaces what the new name holds (a link itself, not its target).\<close>

definition rename_file :: "path \<Rightarrow> path \<Rightarrow> ('x, unit) io" where
  "rename_file a b =
    sys (\<lambda>w. (case fs_get (w_vis w) a of
        None \<Rightarrow> (Err NotFound, w)
      | Some n \<Rightarrow>
          (case fs_get (w_vis w) b of
             Some (Dir _) \<Rightarrow> (Err IoErr, w)
           | _ \<Rightarrow> (Ok (), w\<lparr>w_vis := fs_put b n (fs_del a (w_vis w))\<rparr>))))"

definition open_dir :: "path \<Rightarrow> ('x, unit) io" where
  "open_dir d =
    sys (\<lambda>w. (case look (w_vis w) d of Some _ \<Rightarrow> Ok () | None \<Rightarrow> Err NotFound, w))"

definition sync_dir :: "path \<Rightarrow> ('x, unit) io" where
  "sync_dir d = sys (\<lambda>w. (Ok (), w\<lparr>w_dur := sync_entries d (w_vis w) (w_dur w)\<rparr>))"

definition remove_file :: "path \<Rightarrow> ('x, unit) io" where
  "remove_file p =
    sys (\<lambda>w. (case fs_get (w_vis w) p of
        None \<Rightarrow> (Err NotFound, w)
      | Some (Dir _) \<Rightarrow> (Err IoErr, w)
      | Some _ \<Rightarrow> (Ok (), w\<lparr>w_vis := fs_del p (w_vis w)\<rparr>)))"

text \<open>\<open>fs::write\<close>: an existing file is replaced in place, through a link; nothing is made durable.\<close>

definition fs_write :: "path \<Rightarrow> string \<Rightarrow> ('x, unit) io" where
  "fs_write p data =
    sys (\<lambda>w.
      let q = target_of (w_vis w) p in
      case fs_get (w_vis w) q of
        Some (File d m s) \<Rightarrow> (Ok (), w\<lparr>w_vis := fs_put q (File data m False) (w_vis w)\<rparr>)
      | Some _ \<Rightarrow> (Err IoErr, w)
      | None \<Rightarrow>
          (case parent_of q of
             None \<Rightarrow> (Err IoErr, w)
           | Some d \<Rightarrow>
               (case look (w_vis w) d of
                  Some (Dir _) \<Rightarrow> (Ok (), w\<lparr>w_vis := fs_put q (File data 438 False) (w_vis w)\<rparr>)
                | _ \<Rightarrow> (Err NotFound, w))))"

text \<open>\<open>fs::remove_dir_all\<close>: a link is removed and not followed.\<close>

definition remove_dir_all :: "path \<Rightarrow> ('x, unit) io" where
  "remove_dir_all p =
    sys (\<lambda>w.
      case fs_get (w_vis w) p of
        None \<Rightarrow> (Err NotFound, w)
      | Some (Dir _) \<Rightarrow> (Ok (), w\<lparr>w_vis := filter (\<lambda>(q, _). \<not> prefix p q) (w_vis w)\<rparr>)
      | Some (Symlink _) \<Rightarrow> (Ok (), w\<lparr>w_vis := fs_del p (w_vis w)\<rparr>)
      | Some _ \<Rightarrow> (Err IoErr, w))"

text \<open>\<open>fs::create_dir_all\<close>: every missing ancestor, outermost first, with mode \<open>0o777\<close>; a link
  that leads nowhere is in the way.\<close>

fun make_dirs :: "path list \<Rightarrow> fs \<Rightarrow> fs res" where
  "make_dirs [] f = Ok f"
| "make_dirs (p # ps) f =
    (case look f p of
       None \<Rightarrow> if fs_get f p = None then make_dirs ps (fs_put p (Dir 511) f) else Err IoErr
     | Some (Dir _) \<Rightarrow> make_dirs ps f
     | Some _ \<Rightarrow> Err IoErr)"

definition create_dir_all :: "path \<Rightarrow> ('x, unit) io" where
  "create_dir_all p =
    sys (\<lambda>w. (case make_dirs (filter (\<lambda>q. q \<noteq> []) (prefixes p)) (w_vis w) of
        Ok f \<Rightarrow> (Ok (), w\<lparr>w_vis := f\<rparr>) | _ \<Rightarrow> (Err IoErr, w)))"

definition children :: "fs \<Rightarrow> path \<Rightarrow> path list" where
  "children f d = remdups (filter (\<lambda>p. parent_of p = Some d) (map fst f))"

definition read_dir :: "path \<Rightarrow> ('x, path list) io" where
  "read_dir d =
    sys (\<lambda>w. (case look (w_vis w) d of
        Some (Dir _) \<Rightarrow> Ok (children (w_vis w) d) | None \<Rightarrow> Err NotFound | Some _ \<Rightarrow> Err IoErr, w))"

text \<open>
  \<open>fs::canonicalize\<close>: every symbolic link on the way is followed and \<open>..\<close> steps back, with at most
  \<open>n\<close> steps; a missing component is an error.
\<close>

fun canon :: "nat \<Rightarrow> fs \<Rightarrow> path \<Rightarrow> path \<Rightarrow> path option" where
  "canon n f acc [] = Some acc"
| "canon 0 f acc (c # cs) = None"
| "canon (Suc n) f acc (c # cs) =
    (if c = ''..'' then canon n f (if length acc \<le> 1 then acc else butlast acc) cs
     else if c = ''.'' then canon n f acc cs
     else (case fs_get f (acc @ [c]) of
         None \<Rightarrow> None
       | Some (Symlink t) \<Rightarrow>
           (if is_absolute t then canon n f [''/''] (tl t @ cs) else canon n f acc (t @ cs))
       | Some _ \<Rightarrow> canon n f (acc @ [c]) cs))"

definition canonicalize :: "path \<Rightarrow> ('x, path) io" where
  "canonicalize p =
    sys (\<lambda>w. (case canon 4096 (w_vis w) [''/'']
          (if is_absolute p then tl p else tl (w_cwd w) @ p) of
        Some q \<Rightarrow> Ok q | None \<Rightarrow> Err NotFound, w))"

text \<open>\<open>Command::status\<close> and \<open>output\<close>, and \<open>Command::spawn\<close> without waiting.\<close>

definition run_cmd :: "string \<Rightarrow> string list \<Rightarrow> string \<Rightarrow> ('x, cmd) io" where
  "run_cmd prog args inp =
    bnd (probe (\<lambda>_. True)) (\<lambda>started w.
      if started then
        (let (c, v, u, x) = w_exec w prog args inp (w_vis w, w_dur w, w_ext w)
         in (Ok c, w\<lparr>w_vis := v, w_dur := u, w_ext := x, w_log := w_log w @ [(prog, args, inp)]\<rparr>))
      else (Ok NoSpawn, w))"

definition spawn_cmd :: "string \<Rightarrow> string list \<Rightarrow> ('x, unit) io" where
  "spawn_cmd prog args = sys (\<lambda>w. (Ok (), w\<lparr>w_spawned := w_spawned w @ [(prog, args)]\<rparr>))"

text \<open>\<open>status().map(|s| s.success()).unwrap_or(false)\<close>.\<close>

definition cmd_success :: "cmd \<Rightarrow> bool" where
  "cmd_success c = (case c of Exited b out \<Rightarrow> b | NoSpawn \<Rightarrow> False)"

text \<open>\<open>status().context(..)?.success()\<close>: a command that did not start is an error.\<close>

definition cmd_status :: "string \<Rightarrow> cmd \<Rightarrow> bool res" where
  "cmd_status msg c = (case c of Exited b out \<Rightarrow> Ok b | NoSpawn \<Rightarrow> Err (Msg msg))"

text \<open>A secret read without echo (\<open>rpassword\<close>): an error when the terminal is gone.\<close>

definition prompt_password :: "('x, string) io" where
  "prompt_password =
    sys (\<lambda>w. (case w_tty w of s # ss \<Rightarrow> (Ok s, w\<lparr>w_tty := ss\<rparr>) | [] \<Rightarrow> (Err IoErr, w)))"

text \<open>\<open>stdin().read_line\<close>: the next line with its line feed, an error when it is not UTF-8.\<close>

definition read_line :: "('x, string) io" where
  "read_line =
    sys (\<lambda>w. case w_stdin w of
        None \<Rightarrow> (Err IoErr, w)
      | Some s \<Rightarrow>
          (let l = (case split_inclusive s of [] \<Rightarrow> [] | l # ls \<Rightarrow> l) in
           (if utf8_valid l then Ok l else Err IoErr, w\<lparr>w_stdin := Some (drop (length l) s)\<rparr>)))"

definition getrandom :: "nat \<Rightarrow> ('x, u8 list option) io" where
  "getrandom n w =
    (if length (w_rand w) < n then (Ok None, w)
     else (Ok (Some (take n (w_rand w))), w\<lparr>w_rand := drop n (w_rand w)\<rparr>))"

text \<open>\<open>thread::sleep\<close>: time passes.\<close>

definition sleep_secs :: "u64 \<Rightarrow> ('x, unit) io" where
  "sleep_secs n w = (Ok (), w\<lparr>w_clock := w_clock w + n\<rparr>)"

section \<open>A power cut\<close>

text \<open>
  What a path may hold after a power cut, given what the disk certainly held (\<open>w_dur\<close>) and what was
  visible (\<open>w_vis\<close>): either of the two, and a file whose bytes were not synced may hold any bytes. The
  LUKS devices and the installed binaries stay; schedule, clock, environment and inputs of the next
  boot are new.
\<close>

definition settles :: "node option \<Rightarrow> node option \<Rightarrow> bool" where
  "settles a b =
    (case a of Some (File d m s) \<Rightarrow> (\<exists>d'. b = Some (File d' m True) \<and> (s \<longrightarrow> d' = d)) | _ \<Rightarrow> b = a)"

text \<open>A file whose directory did not survive is gone with it.\<close>

definition rooted :: "(path \<Rightarrow> node option) \<Rightarrow> path \<Rightarrow> bool" where
  "rooted f p \<longleftrightarrow> (\<forall>q. strict_prefix q p \<and> q \<noteq> [] \<longrightarrow> (\<exists>m. f q = Some (Dir m)))"

definition reboot :: "'x world \<Rightarrow> 'x world \<Rightarrow> bool" where
  "reboot w w' \<longleftrightarrow>
    (\<exists>f. (\<forall>p. settles (fs_get (w_dur w) p) (f p) \<or> settles (fs_get (w_vis w) p) (f p)) \<and>
         (\<forall>p. fs_get (w_vis w') p = (if rooted f p then f p else None))) \<and>
    (\<forall>p. fs_get (w_dur w') p = fs_get (w_vis w') p) \<and>
    w_ext w' = w_ext w \<and> w_exec w' = w_exec w \<and> w_kdf w' = w_kdf w \<and> w_debug w' = w_debug w"

text \<open>A machine at rest: every byte on the disk, no fault to come, no secret typed.\<close>

definition machine :: "fs \<Rightarrow> 'x \<Rightarrow> 'x world" where
  "machine f x =
    \<lparr>w_vis = f, w_dur = f, w_ext = x, w_exec = (\<lambda>prog args inp st. (Exited False [], st)),
     w_kdf = (\<lambda>pw salt n. None), w_sched = [], w_clock = 0, w_pid = 1, w_debug = False,
     w_env = (\<lambda>k. None), w_cwd = [''/''], w_tty = [], w_stdin = None, w_rand = [], w_log = [], w_spawned = []\<rparr>"

lemma machine_simps [simp]:
  "w_vis (machine f x) = f" "w_dur (machine f x) = f" "w_ext (machine f x) = x"
  "w_sched (machine f x) = []" "w_clock (machine f x) = 0" "w_pid (machine f x) = 1"
  "\<not> w_debug (machine f x)" "w_env (machine f x) k = None" "w_cwd (machine f x) = [''/'']"
  "w_tty (machine f x) = []" "w_stdin (machine f x) = None" "w_log (machine f x) = []" "w_spawned (machine f x) = []"
  by (simp_all add: machine_def)

end
