(* ===== verification/Effects.thy ===== *)
theory Effects
  imports World
begin

text \<open>
  Reasoning about effects. \<open>wp\<close> is the weakest precondition of an operation over all the faults its
  schedule may bring; its rules are collected in \<open>wp_rules\<close>. \<open>calm\<close> collects the equations of a run
  without faults. The locale \<open>step_relation\<close> is the interface between the operations and what a
  client wants kept across them: any preorder on worlds kept by the primitive steps is kept by every
  program built from them.
\<close>

named_theorems wp_rules
named_theorems calm

section \<open>Weakest preconditions\<close>

definition wp :: "('x, 'a) io \<Rightarrow> ('a res \<Rightarrow> 'x world \<Rightarrow> bool) \<Rightarrow> 'x world \<Rightarrow> bool" where
  "wp m Q w = (case m w of (r, w') \<Rightarrow> Q r w')"

lemma wpD: "wp m Q w \<Longrightarrow> m w = (r, w') \<Longrightarrow> Q r w'"
  by (simp add: wp_def)

lemma wpI: "(\<And>r w'. m w = (r, w') \<Longrightarrow> Q r w') \<Longrightarrow> wp m Q w"
  by (cases "m w") (simp add: wp_def)

lemma wp_iff: "wp m Q w \<longleftrightarrow> (\<forall>r w'. m w = (r, w') \<longrightarrow> Q r w')"
  by (cases "m w") (simp add: wp_def)

lemma wp_mono: "wp m P w \<Longrightarrow> (\<And>r w'. P r w' \<Longrightarrow> Q r w') \<Longrightarrow> wp m Q w"
  by (auto simp: wp_def split: prod.splits)

lemma wp_ret [wp_rules]: "wp (ret a) Q w \<longleftrightarrow> Q (Ok a) w"
  by (simp add: wp_def ret_def)

lemma wp_fail [wp_rules]: "wp (fail e) Q w \<longleftrightarrow> Q (Err e) w"
  by (simp add: wp_def fail_def)

lemma wp_bail [wp_rules]: "wp (bail e) Q w \<longleftrightarrow> Q (Err (Msg e)) w"
  by (simp add: wp_def bail_def fail_def)

lemma wp_lift [wp_rules]: "wp (lift r) Q w \<longleftrightarrow> Q r w"
  by (simp add: wp_def lift_def)

lemma wp_ask [wp_rules]: "wp (ask f) Q w \<longleftrightarrow> Q (Ok (f w)) w"
  by (simp add: wp_def ask_def)

text \<open>How a postcondition continues after a step whose outcome is not \<open>Ok\<close>.\<close>

definition then_post ::
  "('a \<Rightarrow> ('x, 'b) io) \<Rightarrow> ('b res \<Rightarrow> 'x world \<Rightarrow> bool) \<Rightarrow> 'a res \<Rightarrow> 'x world \<Rightarrow> bool" where
  "then_post f Q r w = (case r of Ok a \<Rightarrow> wp (f a) Q w | Err e \<Rightarrow> Q (Err e) w | Halt h \<Rightarrow> Q (Halt h) w)"

lemma then_post_simps [wp_rules]:
  "then_post f Q (Ok a) w \<longleftrightarrow> wp (f a) Q w"
  "then_post f Q (Err e) w \<longleftrightarrow> Q (Err e) w"
  "then_post f Q (Halt h) w \<longleftrightarrow> Q (Halt h) w"
  by (simp_all add: then_post_def)

lemma wp_bnd [wp_rules]: "wp (bnd m f) Q w \<longleftrightarrow> wp m (then_post f Q) w"
  by (auto simp: wp_def bnd_def then_post_def split: prod.splits res.splits)

lemma wp_ctx [wp_rules]: "wp (ctx s m) Q w \<longleftrightarrow> wp m (\<lambda>r. Q (rctx s r)) w"
  by (auto simp: wp_def ctx_def split: prod.splits)

lemma bnd_lift [simp]:
  "bnd (lift (Ok a)) f = f a" "bnd (lift (Err e)) f = fail e"
  by (simp_all add: fun_eq_iff bnd_def lift_def fail_def)

definition attempt_post ::
  "((err + 'a) res \<Rightarrow> 'x world \<Rightarrow> bool) \<Rightarrow> 'a res \<Rightarrow> 'x world \<Rightarrow> bool" where
  "attempt_post Q r w =
    (case r of Ok a \<Rightarrow> Q (Ok (Inr a)) w | Err e \<Rightarrow> Q (Ok (Inl e)) w | Halt h \<Rightarrow> Q (Halt h) w)"

lemma attempt_post_simps [wp_rules]:
  "attempt_post Q (Ok a) w \<longleftrightarrow> Q (Ok (Inr a)) w"
  "attempt_post Q (Err e) w \<longleftrightarrow> Q (Ok (Inl e)) w"
  "attempt_post Q (Halt h) w \<longleftrightarrow> Q (Halt h) w"
  by (simp_all add: attempt_post_def)

lemma wp_attempt [wp_rules]: "wp (attempt m) Q w \<longleftrightarrow> wp m (attempt_post Q) w"
  by (auto simp: wp_def attempt_def attempt_post_def split: prod.splits res.splits)

lemma wp_require [wp_rules]:
  "wp (require b s) Q w \<longleftrightarrow> (if b then Q (Ok ()) w else Q (Err (Msg s)) w)"
  by (simp add: require_def wp_ret wp_bail)

lemma require_Ok: "require b s w = (Ok u, w') \<longleftrightarrow> b \<and> w' = w"
  by (auto simp: require_def ret_def bail_def fail_def)

lemma lift_some_Ok: "lift (some_or e x) w = (Ok a, w') \<Longrightarrow> x = Some a"
  by (cases x) (simp_all add: lift_def)

lemma bnd_assoc: "bnd (bnd m f) g = bnd m (\<lambda>a. bnd (f a) g)"
  by (auto simp: fun_eq_iff bnd_def split: prod.splits res.splits)

lemma bnd_ret: "bnd (ret a) f = f a"
  by (simp add: fun_eq_iff bnd_def ret_def)

lemma bnd_run: "m w = (Ok a, v) \<Longrightarrow> bnd m f w = f a v"
  by (simp add: bnd_def)

lemma bnd_err: "m w = (Err e, v) \<Longrightarrow> bnd m f w = (Err e, v)"
  by (simp add: bnd_def)

lemma bnd_OkE:
  assumes "bnd m f w = (Ok b, w')"
  obtains a v where "m w = (Ok a, v)" "f a v = (Ok b, w')"
  using assms by (auto simp: bnd_def split: prod.splits res.splits)

lemma wp_if: "wp (if b then m else n) Q w \<longleftrightarrow> (if b then wp m Q w else wp n Q w)"
  by simp

text \<open>
  A system call: the postcondition holds after a failure, after a power cut and after the call
  itself, each with whatever is left of the schedule.
\<close>

lemma wp_sysI:
  assumes "\<And>ss. Q (Err IoErr) (w\<lparr>w_sched := ss\<rparr>)"
    and "\<And>ss. Q (Halt PowerLoss) (w\<lparr>w_sched := ss\<rparr>)"
    and "\<And>ss. case f (w\<lparr>w_sched := ss\<rparr>) of (r, w') \<Rightarrow> Q r w'"
  shows "wp (sys f) Q w"
proof -
  have "w\<lparr>w_sched := w_sched w\<rparr> = w" by simp
  with assms(3) [of "w_sched w"] assms show ?thesis
    by (auto simp: wp_def sys_def split: list.split fault.split)
qed

lemma wp_probeI:
  assumes "\<And>ss. Q (Ok False) (w\<lparr>w_sched := ss\<rparr>)"
    and "\<And>ss. Q (Halt PowerLoss) (w\<lparr>w_sched := ss\<rparr>)"
    and "\<And>ss. Q (Ok (f w)) (w\<lparr>w_sched := ss\<rparr>)"
  shows "wp (probe f) Q w"
proof -
  have "w\<lparr>w_sched := w_sched w\<rparr> = w" by simp
  with assms(3) [of "w_sched w"] assms show ?thesis
    by (auto simp: wp_def probe_def split: list.split fault.split)
qed

text \<open>The checks of a handler, one rule each: the error branch and the rest of the body.\<close>

lemma wp_bnd_require:
  "(b \<Longrightarrow> wp (f ()) Q w) \<Longrightarrow> (\<not> b \<Longrightarrow> Q (Err (Msg s)) w) \<Longrightarrow> wp (bnd (require b s) f) Q w"
  by (simp add: wp_rules)

lemma wp_bnd_lift:
  assumes "\<And>a. r = Ok a \<Longrightarrow> wp (f a) Q w" and "\<And>e. r = Err e \<Longrightarrow> Q (Err e) w"
    and "\<And>h. r = Halt h \<Longrightarrow> Q (Halt h) w"
  shows "wp (bnd (lift r) f) Q w"
  using assms by (cases r) (simp_all add: wp_rules)

lemma wp_bnd_some:
  assumes "\<And>a. x = Some a \<Longrightarrow> wp (f a) Q w" and "x = None \<Longrightarrow> Q (Err (Msg s)) w"
  shows "wp (bnd (lift (some_or s x)) f) Q w"
  using assms by (cases x) (simp_all add: wp_rules)

lemma wp_bnd_ask: "wp (f (g w)) Q w \<Longrightarrow> wp (bnd (ask g) f) Q w"
  by (simp add: wp_rules)

section \<open>Runs without faults\<close>

lemma wp_sys_calm [calm]: "w_sched w = [] \<Longrightarrow> wp (sys f) Q w \<longleftrightarrow> (case f w of (r, w') \<Rightarrow> Q r w')"
  by (simp add: wp_def sys_def)

lemma wp_probe_calm [calm]: "w_sched w = [] \<Longrightarrow> wp (probe f) Q w \<longleftrightarrow> Q (Ok (f w)) w"
  by (simp add: wp_def probe_def)

lemma wp_run: "wp m Q w \<longleftrightarrow> (\<exists>r w'. m w = (r, w') \<and> Q r w')"
  by (cases "m w") (simp add: wp_def)

section \<open>What operations keep\<close>

definition keeps :: "('x world \<Rightarrow> 'x world \<Rightarrow> bool) \<Rightarrow> ('x, 'a) io \<Rightarrow> bool" where
  "keeps R m \<longleftrightarrow> (\<forall>w. wp m (\<lambda>_. R w) w)"

lemma keepsD: "keeps R m \<Longrightarrow> m w = (r, w') \<Longrightarrow> R w w'"
  by (auto simp: keeps_def wp_def split: prod.splits)

lemma keeps_weaken: "keeps R m \<Longrightarrow> (\<And>w w'. R w w' \<Longrightarrow> S w w') \<Longrightarrow> keeps S m"
  by (auto simp: keeps_def wp_def split: prod.splits)

locale step_relation =
  fixes R :: "'x world \<Rightarrow> 'x world \<Rightarrow> bool"
  assumes refl: "R w w"
    and trans: "R u v \<Longrightarrow> R v w \<Longrightarrow> R u w"
    and sched: "R w (w\<lparr>w_sched := ss\<rparr>)"
begin

lemma keeps_ret: "keeps R (ret a)"
  by (simp add: keeps_def wp_rules refl)

lemma keeps_fail: "keeps R (fail e)"
  by (simp add: keeps_def wp_rules refl)

lemma keeps_bail: "keeps R (bail e)"
  by (simp add: keeps_def wp_rules refl)

lemma keeps_lift: "keeps R (lift r)"
  by (simp add: keeps_def wp_rules refl)

lemma keeps_ask: "keeps R (ask f)"
  by (simp add: keeps_def wp_rules refl)

lemma keeps_require: "keeps R (require b s)"
  by (simp add: keeps_def wp_rules refl)

lemma keeps_bnd_dep:
  assumes m: "keeps R m" and f: "\<And>w a w'. m w = (Ok a, w') \<Longrightarrow> keeps R (f a)"
  shows "keeps R (bnd m f)"
  unfolding keeps_def wp_iff
proof (intro allI impI)
  fix w r w2
  assume run: "bnd m f w = (r, w2)"
  obtain x w1 where m1: "m w = (x, w1)" by (cases "m w")
  have R1: "R w w1" by (rule keepsD [OF m m1])
  show "R w w2"
  proof (cases x)
    case (Ok a)
    then have run': "f a w1 = (r, w2)" using run m1 by (simp add: bnd_def)
    have "keeps R (f a)" using f m1 Ok by blast
    from trans [OF R1 keepsD [OF this run']] show ?thesis .
  qed (use run m1 R1 in \<open>auto simp: bnd_def\<close>)
qed

text \<open>One step of a handler: what it did is known, and \<open>R\<close> holds from the start up to here.\<close>

lemma wp_bnd_step:
  assumes "R w v" "keeps R m" and "\<And>a v'. m v = (Ok a, v') \<Longrightarrow> R w v' \<Longrightarrow> wp (f a) Q v'"
    and "\<And>e v'. R w v' \<Longrightarrow> Q (Err e) v'" and "\<And>h v'. R w v' \<Longrightarrow> Q (Halt h) v'"
  shows "wp (bnd m f) Q v"
proof -
  obtain r v' where m: "m v = (r, v')" by (cases "m v")
  have "R w v'" using assms(1) keepsD [OF assms(2) m] by (rule trans)
  then show ?thesis using assms(3-5) m by (cases r) (auto simp: wp_iff bnd_def)
qed

lemma keeps_bnd: "keeps R m \<Longrightarrow> (\<And>a. keeps R (f a)) \<Longrightarrow> keeps R (bnd m f)"
  by (rule keeps_bnd_dep)

lemma keeps_ctx: "keeps R m \<Longrightarrow> keeps R (ctx s m)"
  by (simp add: keeps_def wp_rules)

lemma keeps_attempt: "keeps R m \<Longrightarrow> keeps R (attempt m)"
  by (auto simp: keeps_def wp_iff attempt_def split: prod.splits res.splits)

lemma keeps_probe: "keeps R (probe f)"
  unfolding keeps_def by (auto intro!: wp_probeI sched)

lemma keeps_sys:
  assumes "\<And>w r w'. f w = (r, w') \<Longrightarrow> R w w'"
  shows "keeps R (sys f)"
  unfolding keeps_def
  by (auto intro!: wp_sysI sched split: prod.splits intro: trans [OF sched assms])

lemma keeps_path_exists: "keeps R (path_exists p)"
  unfolding path_exists_def by (rule keeps_probe)

lemma keeps_path_is_file: "keeps R (path_is_file p)"
  unfolding path_is_file_def by (rule keeps_probe)

lemma keeps_path_is_dir: "keeps R (path_is_dir p)"
  unfolding path_is_dir_def by (rule keeps_probe)

lemma keeps_readers:
  "keeps R (symlink_metadata p)" "keeps R (metadata p)" "keeps R (fs_read p)"
  "keeps R (read_to_string p)" "keeps R (open_dir p)" "keeps R (read_dir p)" "keeps R (canonicalize p)"
  unfolding symlink_metadata_def metadata_def fs_read_def read_to_string_def open_dir_def read_dir_def
    canonicalize_def
  by (rule keeps_sys, simp add: refl)+

lemmas keeps_basic =
  keeps_ret keeps_fail keeps_bail keeps_lift keeps_ask keeps_require keeps_ctx keeps_attempt keeps_probe
  keeps_path_exists keeps_path_is_file keeps_path_is_dir keeps_readers

end

text \<open>The finest such relation: nothing but the schedule has moved. Every reading call keeps it.\<close>

definition only_sched :: "'x world \<Rightarrow> 'x world \<Rightarrow> bool" where
  "only_sched w w' \<longleftrightarrow> (\<exists>ss. w' = w\<lparr>w_sched := ss\<rparr>)"

interpretation reading: step_relation only_sched
proof
  fix u v w :: "'x world" and ss
  show "only_sched w w" unfolding only_sched_def by (rule exI [of _ "w_sched w"]) simp
  show "only_sched u v \<Longrightarrow> only_sched v w \<Longrightarrow> only_sched u w" by (auto simp: only_sched_def)
  show "only_sched w (w\<lparr>w_sched := ss\<rparr>)" by (auto simp: only_sched_def)
qed

lemma wp_reading: "keeps only_sched m \<Longrightarrow> (\<And>r ss. Q r (w\<lparr>w_sched := ss\<rparr>)) \<Longrightarrow> wp m Q w"
  by (rule wpI) (metis keepsD only_sched_def)

lemma wp_bnd_reading:
  assumes "keeps only_sched m" and "\<And>a ss. wp (f a) Q (w\<lparr>w_sched := ss\<rparr>)"
    and "\<And>e ss. Q (Err e) (w\<lparr>w_sched := ss\<rparr>)" and "\<And>h ss. Q (Halt h) (w\<lparr>w_sched := ss\<rparr>)"
  shows "wp (bnd m f) Q w"
  unfolding wp_bnd
proof (rule wp_reading [OF assms(1)])
  fix r ss show "then_post f Q r (w\<lparr>w_sched := ss\<rparr>)"
    using assms by (cases r) (simp_all add: wp_rules)
qed

section \<open>Reading without faults\<close>

text \<open>Without faults to come, an operation that only reads leaves the whole machine as it is.\<close>

definition idle :: "('x, 'a) io \<Rightarrow> bool" where
  "idle m \<longleftrightarrow> (\<forall>w. w_sched w = [] \<longrightarrow> snd (m w) = w)"

lemma idleD: "idle m \<Longrightarrow> w_sched w = [] \<Longrightarrow> snd (m w) = w"
  by (simp add: idle_def)

lemma idle_bnd: "idle m \<Longrightarrow> (\<And>a. idle (f a)) \<Longrightarrow> idle (bnd m f)"
  by (auto simp: idle_def bnd_def split: prod.splits res.splits)

lemma idle_basic:
  "idle (ret a)" "idle (fail e)" "idle (bail s)" "idle (lift r)" "idle (ask g)" "idle (require b s)" "idle (probe h)"
  "idle (path_exists p)" "idle (path_is_file p)" "idle (path_is_dir p)" "idle (read_to_string p)"
  "idle (fs_read p)" "idle (metadata p)"
  by (auto simp: idle_def ret_def fail_def bail_def lift_def ask_def require_def probe_def path_exists_def
      path_is_file_def path_is_dir_def read_to_string_def fs_read_def metadata_def sys_def)

lemma idle_ctx: "idle m \<Longrightarrow> idle (ctx s m)"
  by (auto simp: idle_def ctx_def split: prod.splits)

lemma bnd_idle:
  assumes "idle m" "w_sched w = []" "bnd m f w = (Ok b, v)"
  obtains a where "m w = (Ok a, w)" "f a w = (Ok b, v)"
  using idleD [OF assms(1,2)] assms(3) by (elim bnd_OkE) auto

end
