(* ===== verification/Syscalls.thy ===== *)
theory Syscalls
  imports Effects
begin

text \<open>
  What each system call may do, as weakest-precondition rules over all faults: an error leaves the
  machine as it was, a power cut too, and success has the one effect of the call. Every rule speaks
  about worlds up to the schedule that is left.
\<close>

section \<open>The association lists\<close>

lemma fs_get_put [simp]: "fs_get (fs_put p n f) q = (if q = p then Some n else fs_get f q)"
  by (simp add: update_conv)

lemma fs_get_del [simp]: "fs_get (fs_del p f) q = (if q = p then None else fs_get f q)"
  by (simp add: delete_conv)

lemma fs_get_filter: "fs_get (filter (\<lambda>(k, _). P k) f) q = (if P q then fs_get f q else None)"
  by (induction f) auto

lemma fs_get_sync [simp]:
  "fs_get (sync_entries d v u) q = (if parent_of q = Some d then fs_get v q else fs_get u q)"
  by (auto simp: sync_entries_def map_add_def fs_get_filter split: option.splits)

lemma look_File: "fs_get f p = Some (File d m s) \<Longrightarrow> look f p = Some (File d m s)"
  by (simp add: look_def eval_nat_numeral)

lemma look_Dir: "fs_get f p = Some (Dir m) \<Longrightarrow> look f p = Some (Dir m)"
  by (simp add: look_def eval_nat_numeral)

lemma look_put [simp]:
  "look (fs_put p (File d m s) f) p = Some (File d m s)"
  "look (fs_put p (Dir m) f) p = Some (Dir m)"
  by (simp_all add: look_File look_Dir)

lemma look_None: "fs_get f p = None \<Longrightarrow> look f p = None"
  by (simp add: look_def eval_nat_numeral)

lemma look_plain: "fs_get f p = Some n \<Longrightarrow> \<not> is_link n \<Longrightarrow> look f p = Some n"
  by (cases n) (simp_all add: look_def eval_nat_numeral is_link_def)

lemma target_plain: "(\<And>t. fs_get f p \<noteq> Some (Symlink t)) \<Longrightarrow> target_of f p = p"
  by (cases "fs_get f p"; cases "the (fs_get f p)") (simp_all add: target_of_def eval_nat_numeral)

lemma target_simps [simp]:
  "fs_get f p = Some (File d m s) \<Longrightarrow> target_of f p = p" "fs_get f p = Some (Dir md) \<Longrightarrow> target_of f p = p"
  by (simp_all add: target_plain)

lemma target_put [simp]:
  "target_of (fs_put p (File d m s) f) p = p" "target_of (fs_put p (Dir md) f) p = p"
  by (rule target_simps, simp)+

lemma parent_of_snoc: "d \<noteq> [] \<Longrightarrow> parent_of (d @ [x]) = Some d"
  by (simp add: parent_of_def)

lemma parent_of_neq: "parent_of p = Some d \<Longrightarrow> d \<noteq> p"
proof
  assume "parent_of p = Some d" "d = p"
  then have "p \<noteq> []" "butlast p = p" by (auto simp: parent_of_def split: if_splits)
  then show False by (metis append_butlast_last_id not_Cons_self2 self_append_conv)
qed

section \<open>Rules over all faults\<close>

lemma wp_bndI:
  assumes "wp m R w" and "\<And>a w'. R (Ok a) w' \<Longrightarrow> wp (f a) Q w'"
    and "\<And>e w'. R (Err e) w' \<Longrightarrow> Q (Err e) w'" and "\<And>h w'. R (Halt h) w' \<Longrightarrow> Q (Halt h) w'"
  shows "wp (bnd m f) Q w"
  unfolding wp_bnd
proof (rule wp_mono [OF assms(1)])
  fix r w' assume "R r w'"
  with assms show "then_post f Q r w'" by (cases r) (simp_all add: wp_rules)
qed

lemma wp_attempt_any: "wp m (\<lambda>_. Q) w \<Longrightarrow> wp (attempt m) (\<lambda>_. Q) w"
  unfolding wp_attempt by (erule wp_mono) (simp add: attempt_post_def split: res.splits)

lemma wp_then_ret: "wp m (\<lambda>_. Q) w \<Longrightarrow> wp (bnd m (\<lambda>_. ret n)) (\<lambda>_. Q) w"
  by (rule wp_bndI) (simp_all add: wp_rules)

lemma wp_ifI: "(b \<Longrightarrow> wp m Q w) \<Longrightarrow> (\<not> b \<Longrightarrow> wp n Q w) \<Longrightarrow> wp (if b then m else n) Q w"
  by simp

lemma wp_keeps: "keeps R m \<Longrightarrow> wp m (\<lambda>_. R w) w"
  by (simp add: keeps_def)

lemma wp_sys_res:
  assumes "\<And>e ss. Q (Err e) (w\<lparr>w_sched := ss\<rparr>)"
    and "\<And>ss. Q (Halt PowerLoss) (w\<lparr>w_sched := ss\<rparr>)"
    and "\<And>a w' ss. f (w\<lparr>w_sched := ss\<rparr>) = (Ok a, w') \<Longrightarrow> Q (Ok a) w'"
    and "\<And>e w' ss. f (w\<lparr>w_sched := ss\<rparr>) = (Err e, w') \<Longrightarrow> w' = w\<lparr>w_sched := ss\<rparr>"
    and "\<And>h w' ss. f (w\<lparr>w_sched := ss\<rparr>) \<noteq> (Halt h, w')"
  shows "wp (sys f) Q w"
proof (rule wp_sysI)
  fix ss
  obtain r w' where f: "f (w\<lparr>w_sched := ss\<rparr>) = (r, w')" by (cases "f (w\<lparr>w_sched := ss\<rparr>)")
  have "Q r w'"
  proof (cases r)
    case (Ok a) with assms(3) f show ?thesis by blast
  next
    case (Err e) with assms(1) assms(4) f show ?thesis by blast
  next
    case (Halt h) with assms(5) f show ?thesis by blast
  qed
  with f show "case f (w\<lparr>w_sched := ss\<rparr>) of (r, w') \<Rightarrow> Q r w'" by simp
qed (rule assms)+

lemma wp_create_new:
  assumes "\<And>e ss. Q (Err e) (w\<lparr>w_sched := ss\<rparr>)"
    and "\<And>ss. Q (Halt PowerLoss) (w\<lparr>w_sched := ss\<rparr>)"
    and "\<And>ss. fs_get (w_vis w) p = None \<Longrightarrow>
      Q (Ok ()) (w\<lparr>w_sched := ss, w_vis := fs_put p (File [] md False) (w_vis w)\<rparr>)"
  shows "wp (create_new p md) Q w"
  unfolding create_new_def
  by (rule wp_sys_res)
    (auto intro: assms split: option.splits node.splits if_splits)

lemma wp_write_all:
  assumes "\<And>e ss. Q (Err e) (w\<lparr>w_sched := ss\<rparr>)"
    and "\<And>ss. Q (Halt PowerLoss) (w\<lparr>w_sched := ss\<rparr>)"
    and "\<And>ss d m s. fs_get (w_vis w) p = Some (File d m s) \<Longrightarrow>
      Q (Ok ()) (w\<lparr>w_sched := ss, w_vis := fs_put p (File (d @ data) m False) (w_vis w)\<rparr>)"
  shows "wp (write_all p data) Q w"
  unfolding write_all_def
  by (rule wp_sys_res) (auto intro: assms split: option.splits node.splits)

lemma wp_sync_file:
  assumes "\<And>e ss. Q (Err e) (w\<lparr>w_sched := ss\<rparr>)"
    and "\<And>ss. Q (Halt PowerLoss) (w\<lparr>w_sched := ss\<rparr>)"
    and "\<And>ss d m s. fs_get (w_vis w) p = Some (File d m s) \<Longrightarrow>
      Q (Ok ()) (w\<lparr>w_sched := ss, w_vis := fs_put p (File d m True) (w_vis w)\<rparr>)"
  shows "wp (sync_file p) Q w"
  unfolding sync_file_def
  by (rule wp_sys_res) (auto intro: assms split: option.splits node.splits)

lemma wp_rename_file:
  assumes "\<And>e ss. Q (Err e) (w\<lparr>w_sched := ss\<rparr>)"
    and "\<And>ss. Q (Halt PowerLoss) (w\<lparr>w_sched := ss\<rparr>)"
    and "\<And>ss n. fs_get (w_vis w) a = Some n \<Longrightarrow>
      Q (Ok ()) (w\<lparr>w_sched := ss, w_vis := fs_put b n (fs_del a (w_vis w))\<rparr>)"
  shows "wp (rename_file a b) Q w"
  unfolding rename_file_def
  by (rule wp_sys_res) (auto intro: assms split: option.splits node.splits)

lemma wp_remove_file:
  assumes "\<And>e ss. Q (Err e) (w\<lparr>w_sched := ss\<rparr>)"
    and "\<And>ss. Q (Halt PowerLoss) (w\<lparr>w_sched := ss\<rparr>)"
    and "\<And>ss n. fs_get (w_vis w) p = Some n \<Longrightarrow> Q (Ok ()) (w\<lparr>w_sched := ss, w_vis := fs_del p (w_vis w)\<rparr>)"
  shows "wp (remove_file p) Q w"
  unfolding remove_file_def
  by (rule wp_sys_res) (auto intro: assms split: option.splits node.splits)

lemma wp_sync_dir:
  assumes "\<And>e ss. Q (Err e) (w\<lparr>w_sched := ss\<rparr>)"
    and "\<And>ss. Q (Halt PowerLoss) (w\<lparr>w_sched := ss\<rparr>)"
    and "\<And>ss. Q (Ok ()) (w\<lparr>w_sched := ss, w_dur := sync_entries d (w_vis w) (w_dur w)\<rparr>)"
  shows "wp (sync_dir d) Q w"
  unfolding sync_dir_def
  by (rule wp_sys_res) (auto intro: assms)

lemma wp_open_dir:
  assumes "\<And>e ss. Q (Err e) (w\<lparr>w_sched := ss\<rparr>)"
    and "\<And>ss. Q (Halt PowerLoss) (w\<lparr>w_sched := ss\<rparr>)"
    and "\<And>ss. look (w_vis w) d \<noteq> None \<Longrightarrow> Q (Ok ()) (w\<lparr>w_sched := ss\<rparr>)"
  shows "wp (open_dir d) Q w"
  unfolding open_dir_def
  by (rule wp_sys_res) (auto intro: assms split: option.splits)

lemma wp_set_mode:
  assumes plain: "\<And>t. fs_get (w_vis w) p \<noteq> Some (Symlink t)"
    and "\<And>e ss. Q (Err e) (w\<lparr>w_sched := ss\<rparr>)"
    and "\<And>ss. Q (Halt PowerLoss) (w\<lparr>w_sched := ss\<rparr>)"
    and "\<And>ss d m s. look (w_vis w) p = Some (File d m s) \<Longrightarrow>
      Q (Ok ()) (w\<lparr>w_sched := ss, w_vis := fs_put p (File d md s) (w_vis w)\<rparr>)"
    and "\<And>ss m. look (w_vis w) p = Some (Dir m) \<Longrightarrow>
      Q (Ok ()) (w\<lparr>w_sched := ss, w_vis := fs_put p (Dir md) (w_vis w)\<rparr>)"
    and "\<And>ss n. look (w_vis w) p = Some n \<Longrightarrow> \<not> is_file_node n \<Longrightarrow> \<not> is_dir_node n \<Longrightarrow>
      Q (Ok ()) (w\<lparr>w_sched := ss\<rparr>)"
  shows "wp (set_mode p md) Q w"
  unfolding set_mode_def
  by (rule wp_sys_res)
    (auto intro: assms simp: target_plain [OF plain] is_file_node_def is_dir_node_def split: option.splits node.splits)

lemma wp_symlink_metadata:
  assumes "\<And>e ss. Q (Err e) (w\<lparr>w_sched := ss\<rparr>)"
    and "\<And>ss. Q (Halt PowerLoss) (w\<lparr>w_sched := ss\<rparr>)"
    and "\<And>ss n. fs_get (w_vis w) p = Some n \<Longrightarrow> Q (Ok n) (w\<lparr>w_sched := ss\<rparr>)"
  shows "wp (symlink_metadata p) Q w"
  unfolding symlink_metadata_def
  by (rule wp_sys_res) (auto intro: assms split: option.splits)

text \<open>A reading call learns from an error only when no fault is involved, so \<open>NotFound\<close> is told apart.\<close>

lemma wp_read_to_string:
  assumes "\<And>e ss. e \<noteq> NotFound \<Longrightarrow> Q (Err e) (w\<lparr>w_sched := ss\<rparr>)"
    and "\<And>ss. look (w_vis w) p = None \<Longrightarrow> Q (Err NotFound) (w\<lparr>w_sched := ss\<rparr>)"
    and "\<And>ss. Q (Halt PowerLoss) (w\<lparr>w_sched := ss\<rparr>)"
    and "\<And>ss d m s. look (w_vis w) p = Some (File d m s) \<Longrightarrow> utf8_valid d \<Longrightarrow> Q (Ok d) (w\<lparr>w_sched := ss\<rparr>)"
  shows "wp (read_to_string p) Q w"
  unfolding read_to_string_def
  by (rule wp_sysI) (auto intro: assms simp: read_result_def split: option.splits node.splits)

lemma wp_fs_read:
  assumes "\<And>e ss. e \<noteq> NotFound \<Longrightarrow> Q (Err e) (w\<lparr>w_sched := ss\<rparr>)"
    and "\<And>ss. look (w_vis w) p = None \<Longrightarrow> Q (Err NotFound) (w\<lparr>w_sched := ss\<rparr>)"
    and "\<And>ss. Q (Halt PowerLoss) (w\<lparr>w_sched := ss\<rparr>)"
    and "\<And>ss d m s. look (w_vis w) p = Some (File d m s) \<Longrightarrow> Q (Ok d) (w\<lparr>w_sched := ss\<rparr>)"
  shows "wp (fs_read p) Q w"
  unfolding fs_read_def
  by (rule wp_sysI) (auto intro: assms simp: read_result_def split: option.splits node.splits)

lemma wp_probe:
  assumes "\<And>ss. Q (Ok False) (w\<lparr>w_sched := ss\<rparr>)"
    and "\<And>ss. Q (Halt PowerLoss) (w\<lparr>w_sched := ss\<rparr>)"
    and "\<And>ss. f w \<Longrightarrow> Q (Ok True) (w\<lparr>w_sched := ss\<rparr>)"
  shows "wp (probe f) Q w"
  by (rule wp_probeI) (use assms in \<open>auto split: if_splits\<close>, metis (full_types))

lemma make_dirs_no_change:
  "\<forall>q\<in>set qs. \<exists>m. look f q = Some (Dir m) \<Longrightarrow> make_dirs qs f = Ok f"
  by (induction qs) auto

text \<open>Creating the directories above a path that has them all changes nothing.\<close>

lemma wp_create_dir_all_present:
  assumes "\<And>e ss. Q (Err e) (w\<lparr>w_sched := ss\<rparr>)"
    and "\<And>ss. Q (Halt PowerLoss) (w\<lparr>w_sched := ss\<rparr>)"
    and "\<And>ss. Q (Ok ()) (w\<lparr>w_sched := ss\<rparr>)"
    and dirs: "\<And>q. prefix q p \<Longrightarrow> q \<noteq> [] \<Longrightarrow> \<exists>m. fs_get (w_vis w) q = Some (Dir m)"
  shows "wp (create_dir_all p) Q w"
proof -
  have "make_dirs (filter (\<lambda>q. q \<noteq> []) (prefixes p)) (w_vis w) = Ok (w_vis w)"
    by (rule make_dirs_no_change) (auto dest!: dirs look_Dir)
  then show ?thesis
    unfolding create_dir_all_def by (intro wp_sysI) (auto intro: assms)
qed

text \<open>A file reads as a value.\<close>

definition reads_as :: "'x world \<Rightarrow> path \<Rightarrow> (string \<Rightarrow> 'a res) \<Rightarrow> 'a \<Rightarrow> bool" where
  "reads_as w p parse a \<longleftrightarrow> (\<exists>d m s. look (w_vis w) p = Some (File d m s) \<and> utf8_valid d \<and> parse d = Ok a)"

lemma reads_as_sched [simp]: "reads_as (w\<lparr>w_sched := ss\<rparr>) p parse a = reads_as w p parse a"
  by (simp add: reads_as_def)

lemma wp_reads:
  "wp (bnd (ctx c (read_to_string p)) (\<lambda>text. ctx e (lift (parse text)))) (\<lambda>r w'. \<forall>a. r = Ok a \<longrightarrow> reads_as w p parse a) w"
  unfolding wp_bnd wp_ctx
  by (rule wp_read_to_string) (auto simp: wp_rules reads_as_def rctx_def split: res.splits)

end
