(* ===== verification/Durable.thy ===== *)
theory Durable
  imports Syscalls
begin

text \<open>
  The reserved locations of \<open>ds-core\<close>, the test-mode override of the state directory, and
  \<open>atomic_write\<close>, with its contract: whatever faults occur and wherever the power is cut, the file
  has its old or its new content after the reboot, and the new one once the call has returned \<open>Ok\<close>.
\<close>

section \<open>Locations\<close>

definition CONFIG_DIR :: string where "CONFIG_DIR = ''/etc/arxos/deathstroke''"
definition STATE_DIR :: string where "STATE_DIR = ''/var/lib/arxos/deathstroke''"
definition LIB_DIR :: string where "LIB_DIR = ''/usr/lib/arxos/deathstroke''"
definition ARMED_MARKER :: string where "ARMED_MARKER = ''/etc/arxos/deathstroke/ARMED''"
definition DISPOSABLE_MARKER :: string where
  "DISPOSABLE_MARKER = ''/etc/arxos/deathstroke/DISPOSABLE_MACHINE_OK_TO_DESTROY''"
definition ESP_STATE_DIR :: string where "ESP_STATE_DIR = ''/boot/efi/deathstroke''"
definition JOURNAL_NAME :: string where "JOURNAL_NAME = ''inprogress''"

definition test_mode :: "'x world \<Rightarrow> bool" where
  "test_mode w \<longleftrightarrow> w_debug w \<and> w_env w ''DS_TEST_MODE'' = Some ''1''"

definition state_dir :: "'x world \<Rightarrow> string" where
  "state_dir w =
    (if test_mode w then
       (case w_env w ''DS_STATE_DIR'' of
          Some path \<Rightarrow>
            (let p = components path in
             if is_absolute p \<and> prefix (components ''/tmp'') p \<and> ''..'' \<notin> set p then path else STATE_DIR)
        | None \<Rightarrow> STATE_DIR)
     else STATE_DIR)"

definition duress_hash_path :: "'x world \<Rightarrow> path" where
  "duress_hash_path w = components (state_dir w @ ''/duress.hash'')"

section \<open>Replacing a file\<close>

definition temp_name :: "string \<Rightarrow> nat \<Rightarrow> string" where
  "temp_name name pid = CHR ''.'' # name @ ''.tmp.'' @ show_nat pid"

text \<open>The closure of \<open>atomic_write\<close>.\<close>

definition write_and_rename :: "path \<Rightarrow> path \<Rightarrow> path \<Rightarrow> string \<Rightarrow> nat \<Rightarrow> ('x, unit) io" where
  "write_and_rename parent tmp p data md =
    bnd (ctx ''create'' (create_new tmp md)) (\<lambda>_.
    bnd (ctx ''write'' (write_all tmp data)) (\<lambda>_.
    bnd (ctx ''fsync'' (sync_file tmp)) (\<lambda>_.
    bnd (set_mode tmp md) (\<lambda>_.
    bnd (ctx ''rename'' (rename_file tmp p)) (\<lambda>_.
    bnd (ctx ''open'' (open_dir parent)) (\<lambda>_.
    ctx ''fsync'' (sync_dir parent)))))))"

text \<open>\<open>if result.is_err() { let _ = fs::remove_file(&tmp); } result\<close>\<close>

definition or_remove :: "path \<Rightarrow> ('x, unit) io \<Rightarrow> ('x, unit) io" where
  "or_remove tmp m =
    bnd (attempt m) (\<lambda>result.
    case result of
      Inr _ \<Rightarrow> ret ()
    | Inl e \<Rightarrow> bnd (attempt (remove_file tmp)) (\<lambda>_. fail e))"

definition atomic_write :: "path \<Rightarrow> string \<Rightarrow> nat \<Rightarrow> ('x, unit) io" where
  "atomic_write p data md =
    bnd (lift (some_or ''path has no parent'' (parent_of p))) (\<lambda>parent.
    bnd (path_exists parent) (\<lambda>there.
    bnd (if there then ret ()
         else bnd (ctx ''create'' (create_dir_all parent)) (\<lambda>_. ctx ''chmod'' (set_mode parent 448))) (\<lambda>_.
    bnd (symlink_metadata parent) (\<lambda>pm.
    bnd (require (\<not> is_link pm) ''refusing symlink parent'') (\<lambda>_.
    bnd (attempt (symlink_metadata p)) (\<lambda>tm.
    bnd (require (case tm of Inr n \<Rightarrow> \<not> is_link n | Inl _ \<Rightarrow> True) ''refusing symlink target'') (\<lambda>_.
    bnd (lift (some_or ''invalid file name''
      (case file_name p of Some n \<Rightarrow> if utf8_valid n then Some n else None | None \<Rightarrow> None))) (\<lambda>name.
    bnd (ask w_pid) (\<lambda>pid.
    let tmp = parent @ [temp_name name pid] in
    or_remove tmp (write_and_rename parent tmp p data md))))))))))"

section \<open>What a replacement leaves behind\<close>

definition settled :: "node option \<Rightarrow> bool" where
  "settled x = (case x of Some (File _ _ s) \<Rightarrow> s | _ \<Rightarrow> True)"

lemma settled_simps [simp]: "settled None" "settled (Some (File d m s)) = s" "settled (Some (Dir m))"
  by (simp_all add: settled_def)

lemma settles_settled: "settled a \<Longrightarrow> settles a b \<longleftrightarrow> b = a"
  by (cases a) (auto simp: settled_def settles_def split: node.splits)

text \<open>Everything but the two file systems and the schedule.\<close>

definition same_env :: "'x world \<Rightarrow> 'x world \<Rightarrow> bool" where
  "same_env w w' \<longleftrightarrow>
    w_ext w' = w_ext w \<and> w_exec w' = w_exec w \<and> w_kdf w' = w_kdf w \<and> w_clock w' = w_clock w \<and>
    w_pid w' = w_pid w \<and> w_debug w' = w_debug w \<and> w_env w' = w_env w \<and> w_cwd w' = w_cwd w \<and>
    w_tty w' = w_tty w \<and> w_stdin w' = w_stdin w \<and> w_rand w' = w_rand w \<and> w_log w' = w_log w \<and> w_spawned w' = w_spawned w"

lemma same_env_refl [simp]: "same_env w w"
  by (simp add: same_env_def)

lemma same_env_trans: "same_env u v \<Longrightarrow> same_env v w \<Longrightarrow> same_env u w"
  by (simp add: same_env_def)

lemma same_env_upd [simp]:
  "same_env w0 (w\<lparr>w_sched := ss\<rparr>) \<longleftrightarrow> same_env w0 w"
  "same_env w0 (w\<lparr>w_vis := v\<rparr>) \<longleftrightarrow> same_env w0 w"
  "same_env w0 (w\<lparr>w_dur := u\<rparr>) \<longleftrightarrow> same_env w0 w"
  by (simp_all add: same_env_def)

text \<open>No file operation touches anything else; so neither does \<open>atomic_write\<close>.\<close>

interpretation files: step_relation same_env
proof
  fix u v w :: "'x world" and ss
  show "same_env w w" by simp
  show "same_env u v \<Longrightarrow> same_env v w \<Longrightarrow> same_env u w" by (rule same_env_trans)
  show "same_env w (w\<lparr>w_sched := ss\<rparr>)" by simp
qed

lemma keeps_file_ops:
  "keeps same_env (create_new p md)" "keeps same_env (write_all p data)" "keeps same_env (sync_file p)"
  "keeps same_env (set_mode p md)" "keeps same_env (rename_file p q)" "keeps same_env (sync_dir p)"
  "keeps same_env (remove_file p)" "keeps same_env (create_dir_all p)"
  unfolding create_new_def write_all_def sync_file_def set_mode_def rename_file_def sync_dir_def remove_file_def
    create_dir_all_def
  by (rule files.keeps_sys, auto split: option.splits node.splits res.splits if_splits)+

lemma keeps_or_remove: "keeps same_env m \<Longrightarrow> keeps same_env (or_remove tmp m)"
  unfolding or_remove_def
  by (intro files.keeps_bnd files.keeps_basic)
    (auto intro!: files.keeps_bnd files.keeps_basic keeps_file_ops split: sum.splits)

lemma keeps_atomic_write: "keeps same_env (atomic_write p data md)"
  unfolding atomic_write_def write_and_rename_def Let_def
  by (intro files.keeps_bnd files.keeps_basic keeps_file_ops keeps_or_remove)
    (auto intro!: files.keeps_bnd files.keeps_basic keeps_file_ops)

text \<open>The directories above a path are there, and durably so.\<close>

definition anchored :: "'x world \<Rightarrow> path \<Rightarrow> bool" where
  "anchored w p \<longleftrightarrow>
    (\<forall>q. strict_prefix q p \<and> q \<noteq> [] \<longrightarrow>
      (\<exists>m. fs_get (w_vis w) q = Some (Dir m)) \<and> (\<exists>m. fs_get (w_dur w) q = Some (Dir m)))"

text \<open>
  Two moments of a machine between which only \<open>p\<close>, one temporary file and the mode of the directory
  \<open>d\<close> of \<open>p\<close> have changed, apart from entries of \<open>d\<close> that became durable.
\<close>

definition frame :: "path \<Rightarrow> path \<Rightarrow> path \<Rightarrow> 'x world \<Rightarrow> 'x world \<Rightarrow> bool" where
  "frame d tmp p w w' \<longleftrightarrow>
    same_env w w' \<and>
    (\<exists>m. fs_get (w_vis w') d = Some (Dir m)) \<and>
    (\<forall>q. q \<noteq> p \<longrightarrow> q \<noteq> tmp \<longrightarrow> q \<noteq> d \<longrightarrow> fs_get (w_vis w') q = fs_get (w_vis w) q) \<and>
    (\<forall>q. q \<noteq> p \<longrightarrow> q \<noteq> tmp \<longrightarrow>
      fs_get (w_dur w') q = fs_get (w_dur w) q \<or>
      parent_of q = Some d \<and> fs_get (w_dur w') q = fs_get (w_vis w) q)"

text \<open>Before the rename, after it, and after the directory is synced.\<close>

definition replace_post ::
  "path \<Rightarrow> path \<Rightarrow> path \<Rightarrow> node \<Rightarrow> 'x world \<Rightarrow> unit res \<Rightarrow> 'x world \<Rightarrow> bool" where
  "replace_post d tmp p new w r w' \<longleftrightarrow>
    frame d tmp p w w' \<and>
    (fs_get (w_vis w') p = fs_get (w_vis w) p \<and> fs_get (w_dur w') p = fs_get (w_dur w) p \<and> r \<noteq> Ok ()
     \<or> fs_get (w_vis w') p = Some new \<and> fs_get (w_dur w') p = fs_get (w_dur w) p \<and> r \<noteq> Ok ()
     \<or> fs_get (w_vis w') p = Some new \<and> fs_get (w_dur w') p = Some new)"

lemma frame_refl: "\<exists>m. fs_get (w_vis w) d = Some (Dir m) \<Longrightarrow> frame d tmp p w w"
  by (simp add: frame_def)

lemma temp_name_neq: "temp_name n pid \<noteq> n"
proof
  assume "temp_name n pid = n"
  then have "length (temp_name n pid) = length n" by simp
  then show False by (simp add: temp_name_def)
qed

lemma wp_or_remove:
  assumes "wp m (replace_post d tmp p new w0) w" "parent_of p = Some d" "parent_of tmp = Some d" "tmp \<noteq> p"
  shows "wp (or_remove tmp m) (replace_post d tmp p new w0) w"
  unfolding or_remove_def wp_bnd wp_attempt
proof (rule wp_mono [OF assms(1)])
  fix r w'
  assume post: "replace_post d tmp p new w0 r w'"
  have dtmp: "tmp \<noteq> d" using assms(3) parent_of_neq by blast
  let ?k = "\<lambda>result. case result of Inr _ \<Rightarrow> ret () | Inl e \<Rightarrow> bnd (attempt (remove_file tmp)) (\<lambda>_. fail e)"
  show "attempt_post (then_post ?k (replace_post d tmp p new w0)) r w'"
  proof (cases r)
    case (Err e)
    have "wp (remove_file tmp)
        (attempt_post (then_post (\<lambda>_. fail e) (replace_post d tmp p new w0))) w'"
      by (rule wp_remove_file)
        (use post Err dtmp assms(4) in \<open>auto simp: wp_rules replace_post_def frame_def\<close>)
    with Err show ?thesis by (simp add: wp_rules)
  qed (use post in \<open>simp_all add: wp_rules replace_post_def\<close>)
qed

lemma wp_write_and_rename:
  assumes d: "parent_of p = Some d" "parent_of tmp = Some d" "tmp \<noteq> p"
    and dir: "\<exists>m. fs_get (w_vis w) d = Some (Dir m)"
  shows "wp (write_and_rename d tmp p data md) (replace_post d tmp p (File data md True) w) w"
proof -
  have n: "tmp \<noteq> d" "d \<noteq> tmp" "p \<noteq> d" "d \<noteq> p" "p \<noteq> tmp" using d parent_of_neq by blast+
  show ?thesis
    unfolding write_and_rename_def wp_bnd wp_ctx
    apply (rule wp_create_new; (simp add: wp_rules replace_post_def frame_def n d dir; fail)?)
    apply (simp add: wp_rules)
    apply (rule wp_write_all; (simp add: wp_rules replace_post_def frame_def n d dir; fail)?)
    apply (simp add: wp_rules)
    apply (rule wp_sync_file; (simp add: wp_rules replace_post_def frame_def n d dir; fail)?)
    apply (simp add: wp_rules)
    apply (rule wp_set_mode; (simp add: wp_rules replace_post_def frame_def n d dir is_file_node_def; fail)?)
    apply (simp add: wp_rules)
    apply (rule wp_rename_file; (simp add: wp_rules replace_post_def frame_def n d dir; fail)?)
    apply (simp add: wp_rules)
    apply (rule wp_open_dir; (simp add: wp_rules replace_post_def frame_def n d dir; fail)?)
    apply (simp add: wp_rules)
    apply (rule wp_sync_dir; (simp add: wp_rules replace_post_def frame_def n d dir; fail)?)
    apply (auto simp: is_file_node_def)
    done
qed

text \<open>Up to the closure only the directory above may have changed, and only its mode.\<close>

definition early :: "path \<Rightarrow> 'x world \<Rightarrow> 'x world \<Rightarrow> bool" where
  "early d w w' \<longleftrightarrow> same_env w w' \<and> w_dur w' = w_dur w \<and>
    (w_vis w' = w_vis w \<or> (\<exists>m. w_vis w' = fs_put d (Dir m) (w_vis w)))"

lemma early_sched [simp]: "early d w (v\<lparr>w_sched := ss\<rparr>) \<longleftrightarrow> early d w v"
  by (simp add: early_def)

lemma early_refl [simp]: "early d w w"
  by (simp add: early_def)

lemma early_get: "early d w v \<Longrightarrow> q \<noteq> d \<Longrightarrow> fs_get (w_vis v) q = fs_get (w_vis w) q"
  by (auto simp: early_def)

lemma early_dir: "early d w v \<Longrightarrow> \<exists>m. fs_get (w_vis w) q = Some (Dir m) \<Longrightarrow> \<exists>m. fs_get (w_vis v) q = Some (Dir m)"
  by (auto simp: early_def)

lemma frame_early:
  assumes "frame d tmp p v w'" "early d w v"
  shows "frame d tmp p w w'"
  unfolding frame_def
proof (intro conjI allI impI)
  show "same_env w w'"
    using assms same_env_trans [of w v w'] by (simp add: frame_def early_def)
  show "\<exists>m. fs_get (w_vis w') d = Some (Dir m)" using assms by (simp add: frame_def)
next
  fix q assume q: "q \<noteq> p" "q \<noteq> tmp" "q \<noteq> d"
  then show "fs_get (w_vis w') q = fs_get (w_vis w) q"
    using assms(1) early_get [OF assms(2) q(3)] by (simp add: frame_def)
next
  fix q assume q: "q \<noteq> p" "q \<noteq> tmp"
  have "w_dur v = w_dur w" using assms(2) by (simp add: early_def)
  moreover have "parent_of q = Some d \<Longrightarrow> fs_get (w_vis v) q = fs_get (w_vis w) q"
    by (rule early_get [OF assms(2)]) (use parent_of_neq in blast)
  ultimately show "fs_get (w_dur w') q = fs_get (w_dur w) q \<or>
      parent_of q = Some d \<and> fs_get (w_dur w') q = fs_get (w_vis w) q"
    using assms(1) q unfolding frame_def by metis
qed

lemma replace_post_early:
  "replace_post d tmp p new v r w' \<Longrightarrow> early d w v \<Longrightarrow> p \<noteq> d \<Longrightarrow> replace_post d tmp p new w r w'"
  using frame_early [of d tmp p v w' w] early_get [of d w v p]
  by (simp add: replace_post_def) (simp add: early_def)

lemma early_post:
  assumes "early d w v" "r \<noteq> Ok ()" "p \<noteq> d" "\<exists>m. fs_get (w_vis w) d = Some (Dir m)"
  shows "replace_post d tmp p new w r v"
proof -
  have "frame d tmp p v v" by (rule frame_refl) (rule early_dir [OF assms(1,4)])
  then show ?thesis
    using assms by (intro replace_post_early [of d tmp p new v r v w]) (simp_all add: replace_post_def)
qed

text \<open>The name of a temporary file starts with a dot.\<close>

definition hidden :: "path \<Rightarrow> bool" where
  "hidden q \<longleftrightarrow> q \<noteq> [] \<and> prefix ''.'' (last q)"

lemma wp_atomic_write_hidden:
  assumes anc: "anchored w p" and p: "parent_of p = Some d" "d \<noteq> []"
  shows "wp (atomic_write p data md) (\<lambda>r w'. \<exists>tmp. parent_of tmp = Some d \<and> tmp \<noteq> p \<and> hidden tmp \<and>
    replace_post d tmp p (File data md True) w r w') w"
    (is "wp _ ?P w")
proof -
  have n: "p \<noteq> d" "d \<noteq> p" using p parent_of_neq by blast+
  have pd: "p \<noteq> []" "butlast p = d" using p by (auto simp: parent_of_def split: if_splits)
  then have "strict_prefix d p"
    by (metis append_butlast_last_id prefixI prefix_order.less_le n(2))
  then have below: "\<exists>m. fs_get (w_vis w) q = Some (Dir m)" if "prefix q d" "q \<noteq> []" for q
    using anc that by (metis anchored_def prefix_order.le_less_trans)
  then have dir: "\<exists>m. fs_get (w_vis w) d = Some (Dir m)" using p(2) by blast
  let ?t = "\<lambda>name. d @ [temp_name name (w_pid w)]"
  have tmp: "?t name \<noteq> p \<and> parent_of (?t name) = Some d \<and> hidden (?t name)" if "file_name p = Some name" for name
  proof -
    have "p = d @ [name]" using that pd by (auto simp: file_name_def split: if_splits)
    then show ?thesis using p(2) temp_name_neq by (simp add: parent_of_snoc hidden_def temp_name_def)
  qed
  have stay: "?P r v" if "early d w v" "r \<noteq> Ok ()" for r v
  proof (intro exI conjI)
    show "d @ [temp_name (last p) 0] \<noteq> p"
      using pd temp_name_neq [of "last p"] by (metis append_butlast_last_id last_snoc)
  qed (simp_all add: early_post that n dir p(2) parent_of_snoc hidden_def temp_name_def)
  have final: "wp (or_remove (?t name) (write_and_rename d (?t name) p data md)) ?P v"
    if v: "early d w v" and name: "file_name p = Some name" for v name
  proof (rule wp_mono [OF wp_or_remove [OF wp_write_and_rename]])
    fix r w' assume "replace_post d (?t name) p (File data md True) v r w'"
    with replace_post_early v n tmp [OF name] show "?P r w'" by blast
  qed (use p tmp [OF name] early_dir [OF v dir] in auto)
  have rest: "wp (bnd (symlink_metadata d) (\<lambda>pm.
      bnd (require (\<not> is_link pm) ''refusing symlink parent'') (\<lambda>_.
      bnd (attempt (symlink_metadata p)) (\<lambda>tm.
      bnd (require (case tm of Inr n \<Rightarrow> \<not> is_link n | Inl _ \<Rightarrow> True) ''refusing symlink target'') (\<lambda>_.
      bnd (lift (some_or ''invalid file name''
        (case file_name p of Some n \<Rightarrow> if utf8_valid n then Some n else None | None \<Rightarrow> None))) (\<lambda>name.
      bnd (ask w_pid) (\<lambda>pid.
      let tmp = d @ [temp_name name pid] in
      or_remove tmp (write_and_rename d tmp p data md)))))))) ?P v" if v: "early d w v" for v
  proof -
    have pid: "w_pid v = w_pid w" using v by (simp add: early_def same_env_def)
    show ?thesis
      by (intro wp_bnd_reading wp_bnd_require wp_bnd_some wp_bnd_ask reading.keeps_readers
          reading.keeps_attempt stay)
        (auto simp: v pid final Let_def split: option.splits if_splits)
  qed
  have mk: "wp (if there then ret ()
         else bnd (ctx ''create'' (create_dir_all d)) (\<lambda>_. ctx ''chmod'' (set_mode d 448)))
      (\<lambda>_. early d w) v" if v: "early d w v" for v there
  proof -
    have "wp (create_dir_all d) (\<lambda>_. early d w) v"
      by (rule wp_create_dir_all_present) (simp_all add: v early_dir [OF v below])
    moreover have "wp (set_mode d 448) (\<lambda>_. early d w) v'" if v': "early d w v'" for v'
    proof -
      obtain m where "fs_get (w_vis v') d = Some (Dir m)" using early_dir [OF v' dir] by blast
      then show ?thesis
        by (intro wp_set_mode) (use v' in \<open>auto simp: look_Dir early_def is_dir_node_def\<close>)
    qed
    ultimately have "wp (bnd (ctx ''create'' (create_dir_all d)) (\<lambda>_. ctx ''chmod'' (set_mode d 448)))
        (\<lambda>_. early d w) v"
      by (intro wp_bndI [where R = "\<lambda>_. early d w"]) (simp_all add: wp_ctx)
    then show ?thesis by (simp add: wp_rules v)
  qed
  show ?thesis
    unfolding atomic_write_def p(1) some_or_simps wp_bnd [of "lift _"] wp_lift then_post_simps
    by (rule wp_bnd_reading [OF reading.keeps_path_exists], rule wp_bndI [OF mk])
      (simp_all add: stay rest)
qed

lemma wp_atomic_write:
  assumes anc: "anchored w p" and p: "parent_of p = Some d" "d \<noteq> []"
  shows "wp (atomic_write p data md) (\<lambda>r w'. \<exists>tmp. parent_of tmp = Some d \<and> tmp \<noteq> p \<and>
    replace_post d tmp p (File data md True) w r w') w"
  by (rule wp_mono [OF wp_atomic_write_hidden [OF assms]]) blast

section \<open>Without faults\<close>

lemma wp_atomic_write_calm:
  assumes sched: "w_sched w = []" and p: "parent_of p = Some d" "d \<noteq> []" "file_name p = Some n" "utf8_valid n"
    and dir: "fs_get (w_vis w) d = Some (Dir m)"
    and target: "fs_get (w_vis w) p = None \<or> (\<exists>od om os. fs_get (w_vis w) p = Some (File od om os))"
    and fresh: "fs_get (w_vis w) (d @ [temp_name n (w_pid w)]) = None"
  shows "wp (atomic_write p data md) (\<lambda>r w'. r = Ok () \<and> same_env w w' \<and> w_sched w' = [] \<and>
    (\<forall>q. fs_get (w_vis w') q = (if q = p then Some (File data md True) else fs_get (w_vis w) q)) \<and>
    (\<forall>q. fs_get (w_dur w') q = (if parent_of q = Some d then fs_get (w_vis w') q else fs_get (w_dur w) q))) w"
proof -
  have "d @ [n] = p" using p by (auto simp: parent_of_def file_name_def split: if_splits)
  then have t: "d @ [temp_name n (w_pid w)] \<noteq> p" using temp_name_neq [of n] by auto
  have n: "p \<noteq> d" "d \<noteq> p" "d \<noteq> d @ [temp_name n (w_pid w)]" using p parent_of_neq by auto
  have meta: "(case fs_get (w_vis w) p of Some x \<Rightarrow> \<not> is_link x | None \<Rightarrow> True)"
    using target by (auto simp: is_link_def)
  show ?thesis
    using target
    by (auto simp: atomic_write_def or_remove_def write_and_rename_def wp_rules calm sched p dir fresh t
        path_exists_def symlink_metadata_def create_new_def write_all_def sync_file_def set_mode_def
        rename_file_def open_dir_def sync_dir_def look_Dir [OF dir] is_link_def Let_def n
        same_env_def parent_of_snoc look_Dir)
qed

section \<open>Reboots\<close>

lemma sibling_not_below:
  assumes "parent_of t = Some d" "parent_of p = Some d" "strict_prefix q p"
  shows "q \<noteq> t" "q \<noteq> p"
proof -
  have "t \<noteq> []" "p \<noteq> []" "butlast t = butlast p"
    using assms(1,2) by (auto simp: parent_of_def split: if_splits)
  then have "length t = length p"
    using length_butlast [of t] length_butlast [of p] by (cases t; cases p) auto
  moreover have "length q < length p" using assms(3) by (rule prefix_length_less)
  ultimately show "q \<noteq> t" "q \<noteq> p" by auto
qed

lemma anchored_replace:
  assumes "anchored w p" "replace_post d tmp p new w r w'" "parent_of tmp = Some d" "parent_of p = Some d"
  shows "anchored w' p"
  unfolding anchored_def
proof (intro allI impI)
  fix q assume q: "strict_prefix q p \<and> q \<noteq> []"
  have n: "q \<noteq> tmp" "q \<noteq> p" using sibling_not_below [OF assms(3,4)] q by auto
  have fr: "frame d tmp p w w'" using assms(2) by (simp add: replace_post_def)
  have old: "\<exists>m. fs_get (w_vis w) q = Some (Dir m)" "\<exists>m. fs_get (w_dur w) q = Some (Dir m)"
    using assms(1) q by (auto simp: anchored_def)
  have "\<exists>m. fs_get (w_vis w') q = Some (Dir m)"
    using fr old(1) n by (cases "q = d") (auto simp: frame_def)
  moreover have "\<exists>m. fs_get (w_dur w') q = Some (Dir m)"
    using fr old n unfolding frame_def by metis
  ultimately show "(\<exists>m. fs_get (w_vis w') q = Some (Dir m)) \<and> (\<exists>m. fs_get (w_dur w') q = Some (Dir m))"
    by blast
qed

lemma reboot_anchored:
  assumes "anchored w p" "reboot w w'"
  shows "anchored w' p"
proof -
  obtain f where f: "\<And>q. settles (fs_get (w_dur w) q) (f q) \<or> settles (fs_get (w_vis w) q) (f q)"
    and v: "\<And>q. fs_get (w_vis w') q = (if rooted f q then f q else None)"
    and u: "\<And>q. fs_get (w_dur w') q = fs_get (w_vis w') q"
    using assms(2) unfolding reboot_def by blast
  have dir: "\<exists>m. f q = Some (Dir m)" if "strict_prefix q p" "q \<noteq> []" for q
    using f [of q] assms(1) that by (fastforce simp: anchored_def settles_def)
  have "rooted f q" if "strict_prefix q p" for q
    using dir that by (meson prefix_order.less_trans rooted_def)
  then show ?thesis using dir by (simp add: anchored_def v u)
qed

lemma reboot_file:
  assumes "reboot w w'" "anchored w p" "settled (fs_get (w_vis w) p)" "settled (fs_get (w_dur w) p)"
  shows "fs_get (w_vis w') p = fs_get (w_dur w) p \<or> fs_get (w_vis w') p = fs_get (w_vis w) p"
    and "fs_get (w_dur w') p = fs_get (w_vis w') p"
proof -
  obtain f where f: "\<And>q. settles (fs_get (w_dur w) q) (f q) \<or> settles (fs_get (w_vis w) q) (f q)"
    and v: "\<And>q. fs_get (w_vis w') q = (if rooted f q then f q else None)"
    and u: "\<And>q. fs_get (w_dur w') q = fs_get (w_vis w') q"
    using assms(1) unfolding reboot_def by blast
  have "\<exists>m. f q = Some (Dir m)" if "strict_prefix q p" "q \<noteq> []" for q
    using f [of q] assms(2) that by (fastforce simp: anchored_def settles_def)
  then have "rooted f p" by (simp add: rooted_def)
  with f [of p] assms(3,4) show "fs_get (w_vis w') p = fs_get (w_dur w) p \<or> fs_get (w_vis w') p = fs_get (w_vis w) p"
    by (simp add: v settles_settled)
  show "fs_get (w_dur w') p = fs_get (w_vis w') p" by (rule u)
qed

text \<open>A machine whose disk holds what is visible can come back as it is.\<close>

lemma reboot_refl:
  assumes "\<And>q. fs_get (w_dur w) q = fs_get (w_vis w) q" "\<And>q. settled (fs_get (w_vis w) q)"
    and "\<And>q n. fs_get (w_vis w) q = Some n \<Longrightarrow> rooted (fs_get (w_vis w)) q"
  shows "reboot w w"
  unfolding reboot_def
proof (intro conjI exI allI)
  fix q
  show "fs_get (w_vis w) q = (if rooted (fs_get (w_vis w)) q then fs_get (w_vis w) q else None)"
    using assms(3) by (cases "fs_get (w_vis w) q") auto
qed (use assms in \<open>simp_all add: settles_settled\<close>)

lemma is_dir_node_simps [simp]:
  "is_dir_node (Dir m)" "\<not> is_dir_node (File d m s)" "\<not> is_dir_node (Symlink t)"
  "\<not> is_dir_node BlockDev" "\<not> is_dir_node OtherNode"
  by (simp_all add: is_dir_node_def)

lemma is_dir_node_iff: "is_dir_node n \<longleftrightarrow> (\<exists>m. n = Dir m)"
  by (cases n) auto

lemma rooted_check:
  "rooted h p \<longleftrightarrow>
    list_all (\<lambda>q. q = [] \<or> q = p \<or> (case h q of Some n \<Rightarrow> is_dir_node n | None \<Rightarrow> False)) (prefixes p)"
proof -
  have "(case x of Some n \<Rightarrow> is_dir_node n | None \<Rightarrow> False) \<longleftrightarrow> (\<exists>m. x = Some (Dir m))" for x
    by (cases x) (auto simp: is_dir_node_iff)
  then show ?thesis by (auto simp: rooted_def list_all_iff strict_prefix_def)
qed

definition sound_disk :: "fs \<Rightarrow> bool" where
  "sound_disk f \<longleftrightarrow> list_all (\<lambda>(p, n). rooted (fs_get f) p \<and> settled (Some n)) f"

lemma reboot_machine: "sound_disk f \<Longrightarrow> reboot (machine f x) (machine f x)"
proof (rule reboot_refl)
  fix q n
  assume ok: "sound_disk f"
  show "settled (fs_get (w_vis (machine f x)) q)"
    using ok by (cases "fs_get f q") (auto simp: machine_def sound_disk_def list_all_iff dest!: map_of_SomeD)
  show "rooted (fs_get (w_vis (machine f x))) q" if "fs_get (w_vis (machine f x)) q = Some n"
    using ok that by (auto simp: machine_def sound_disk_def list_all_iff dest!: map_of_SomeD)
qed (simp add: machine_def)

lemma anchored_check: "rooted (fs_get f) p \<Longrightarrow> anchored (machine f x) p"
  by (simp add: anchored_def machine_def rooted_def)

text \<open>A small disk for the examples: one directory \<open>/s\<close> with one file \<open>/s/a\<close>.\<close>

definition small_disk :: fs where
  "small_disk =
    [([''/''], Dir 493), ([''/'', ''s''], Dir 448), ([''/'', ''s'', ''a''], File ''0'' 384 True)]"

lemma small_disk_get:
  "fs_get small_disk q =
    (if q = [''/''] then Some (Dir 493) else if q = [''/'', ''s''] then Some (Dir 448)
     else if q = [''/'', ''s'', ''a''] then Some (File ''0'' 384 True) else None)"
  by (simp add: small_disk_def)

lemma below_three: "strict_prefix q [x, y, z] \<longleftrightarrow> q = [] \<or> q = [x] \<or> q = [x, y]"
  by (auto simp: strict_prefix_def prefix_Cons)

lemma below_two: "strict_prefix q [x, y] \<longleftrightarrow> q = [] \<or> q = [x]"
  by (auto simp: strict_prefix_def prefix_Cons)

lemma below_one: "strict_prefix q [x] \<longleftrightarrow> q = []"
  by (auto simp: strict_prefix_def prefix_Cons)

lemma small_anchored: "anchored (machine small_disk x) [''/'', ''s'', ''a'']"
  by (rule anchored_check) (simp add: rooted_check small_disk_def)

text \<open>The contract of a replacement, up to the next boot.\<close>

lemma atomic_write_post:
  assumes "atomic_write p data md w = (r, w')" "anchored w p" "parent_of p = Some d" "d \<noteq> []"
  obtains tmp where "parent_of tmp = Some d" "tmp \<noteq> p" "replace_post d tmp p (File data md True) w r w'"
  using wpD [OF wp_atomic_write [OF assms(2-4)] assms(1)] by blast

text \<open>
  C15. A state file is replaced atomically: whatever system call of \<open>atomic_write\<close> fails and wherever
  the power is cut, after the reboot the file holds what it held before (on the disk or in memory)
  or the complete new content, never a mixture or a torn write; and when the call has returned
  \<open>Ok\<close>, the new content is certain.
\<close>

theorem atomic_write_crash_safe:
  assumes run: "atomic_write p data md w = (r, w1)" and cut: "reboot w1 w2"
    and place: "anchored w p" "parent_of p = Some d" "d \<noteq> []"
    and old: "settled (fs_get (w_vis w) p)" "settled (fs_get (w_dur w) p)"
  shows "fs_get (w_vis w2) p \<in> {fs_get (w_dur w) p, fs_get (w_vis w) p, Some (File data md True)} \<and>
    (r = Ok () \<longrightarrow> fs_get (w_vis w2) p = Some (File data md True))"
proof -
  obtain tmp where t: "parent_of tmp = Some d" "tmp \<noteq> p"
    and post: "replace_post d tmp p (File data md True) w r w1"
    using atomic_write_post [OF run place] .
  have "settled (fs_get (w_vis w1) p)" "settled (fs_get (w_dur w1) p)"
    using post old by (auto simp: replace_post_def)
  from reboot_file [OF cut anchored_replace [OF place(1) post t(1) place(2)] this]
  show ?thesis using post by (auto simp: replace_post_def)
qed

theorem atomic_write_crash_safe_witness:
  "\<exists>w1. atomic_write [''/'', ''s'', ''a''] ''1'' 384 (machine small_disk ()) = (Ok (), w1) \<and> reboot w1 w1 \<and>
    fs_get (w_vis w1) [''/'', ''s'', ''a''] = Some (File ''1'' 384 True)"
proof -
  let ?p = "[''/'', ''s'', ''a'']"
  have "wp (atomic_write ?p ''1'' 384) (\<lambda>r w'. r = Ok () \<and> same_env (machine small_disk ()) w' \<and> w_sched w' = [] \<and>
    (\<forall>q. fs_get (w_vis w') q = (if q = ?p then Some (File ''1'' 384 True) else fs_get small_disk q)) \<and>
    (\<forall>q. fs_get (w_dur w') q = (if parent_of q = Some [''/'', ''s''] then fs_get (w_vis w') q else fs_get small_disk q)))
    (machine small_disk ())"
    by (rule wp_mono [OF wp_atomic_write_calm [where d = "[''/'', ''s'']" and n = "''a''" and m = 448]])
      (auto simp: machine_def small_disk_get parent_of_def file_name_def temp_name_def)
  then obtain w1 where run: "atomic_write ?p ''1'' 384 (machine small_disk ()) = (Ok (), w1)"
    and vis: "\<And>q. fs_get (w_vis w1) q = (if q = ?p then Some (File ''1'' 384 True) else fs_get small_disk q)"
    and dur: "\<And>q. fs_get (w_dur w1) q = (if parent_of q = Some [''/'', ''s''] then fs_get (w_vis w1) q else fs_get small_disk q)"
    unfolding wp_run by blast
  have "reboot w1 w1"
    by (rule reboot_refl)
      (auto simp: vis dur small_disk_get settled_def rooted_def below_three below_two below_one
        parent_of_def split: if_splits)
  from atomic_write_crash_safe [OF run this small_anchored] run this show ?thesis
    by (auto simp: parent_of_def machine_def small_disk_get)
qed

text \<open>
  \<open>atomic_write\<close> never writes through a symbolic link or anywhere else: whatever fails, the only
  path besides the target whose entry may change is one temporary file next to it, and no command is
  run. In particular the file that a link planted in place of the target points to keeps its content.
\<close>

theorem atomic_write_touches_only_target:
  assumes run: "atomic_write p data md w = (r, w1)"
    and place: "anchored w p" "parent_of p = Some d" "d \<noteq> []"
  shows "\<exists>tmp. tmp \<noteq> p \<and> parent_of tmp = Some d \<and>
    (\<forall>q. q \<notin> {p, tmp, d} \<longrightarrow> fs_get (w_vis w1) q = fs_get (w_vis w) q) \<and>
    w_log w1 = w_log w \<and> w_ext w1 = w_ext w"
proof -
  obtain tmp where "parent_of tmp = Some d" "tmp \<noteq> p"
    and "replace_post d tmp p (File data md True) w r w1"
    using atomic_write_post [OF run place] .
  then show ?thesis by (intro exI [of _ tmp]) (auto simp: replace_post_def frame_def same_env_def)
qed

theorem atomic_write_touches_only_target_witness:
  "\<exists>w1 tmp. atomic_write [''/'', ''s'', ''a''] ''1'' 384 (machine small_disk () \<lparr>w_sched := [Go, Go, Go, Cut]\<rparr>) =
      (Halt PowerLoss, w1) \<and>
    (\<forall>q. q \<notin> {[''/'', ''s'', ''a''], tmp, [''/'', ''s'']} \<longrightarrow> fs_get (w_vis w1) q = fs_get small_disk q)"
proof -
  let ?w = "machine small_disk () \<lparr>w_sched := [Go, Go, Go, Cut]\<rparr>"
  have "\<exists>w1. atomic_write [''/'', ''s'', ''a''] ''1'' 384 ?w = (Halt PowerLoss, w1)"
    by (simp add: atomic_write_def bnd_def lift_def path_exists_def probe_def symlink_metadata_def sys_def
        require_def ret_def attempt_def ask_def or_remove_def write_and_rename_def ctx_def create_new_def
        machine_def small_disk_def parent_of_def file_name_def is_link_def look_Dir Let_def)
  then obtain w1 where run: "atomic_write [''/'', ''s'', ''a''] ''1'' 384 ?w = (Halt PowerLoss, w1)" ..
  have "anchored ?w [''/'', ''s'', ''a'']"
    using small_anchored [of "()"] by (simp add: anchored_def)
  from atomic_write_touches_only_target [OF run this, of "[''/'', ''s'']"]
  obtain tmp where "\<forall>q. q \<notin> {[''/'', ''s'', ''a''], tmp, [''/'', ''s'']} \<longrightarrow>
      fs_get (w_vis w1) q = fs_get (w_vis ?w) q"
    by (auto simp: parent_of_def)
  moreover have "w_vis ?w = small_disk" by (simp add: machine_def)
  ultimately show ?thesis using run by metis
qed

end
