(* ===== verification/Keyslots.thy ===== *)
theory Keyslots
  imports Durable
begin

text \<open>
  What \<open>ds-erase\<close> and \<open>dsctl\<close> read and do with \<open>cryptsetup\<close>: the parser of \<open>luksDump\<close> for both LUKS
  formats, the keyslot commands, and the documented behaviour of the tools that theorems about them
  take as a hypothesis.
\<close>

section \<open>Output of a command as text\<close>

text \<open>\<open>String::from_utf8_lossy\<close>: every maximal ill-formed part becomes one U+FFFD.\<close>

definition utf8_tail :: "char \<Rightarrow> (nat \<times> nat) list option" where
  "utf8_tail a =
    (let n = (of_char a :: nat) in
     if n < 0x80 then Some []
     else if 0xC2 \<le> n \<and> n \<le> 0xDF then Some [(0x80, 0xBF)]
     else if 0xE0 \<le> n \<and> n \<le> 0xEF then
       Some [(if n = 0xE0 then 0xA0 else 0x80, if n = 0xED then 0x9F else 0xBF), (0x80, 0xBF)]
     else if 0xF0 \<le> n \<and> n \<le> 0xF4 then
       Some [(if n = 0xF0 then 0x90 else 0x80, if n = 0xF4 then 0x8F else 0xBF), (0x80, 0xBF), (0x80, 0xBF)]
     else None)"

fun match_tail :: "(nat \<times> nat) list \<Rightarrow> string \<Rightarrow> nat" where
  "match_tail ((lo, hi) # rs) (c # s) = (if utf8_cont lo hi c then Suc (match_tail rs s) else 0)"
| "match_tail rs s = 0"

definition replacement :: string where
  "replacement = [CHR 0xEF, CHR 0xBF, CHR 0xBD]"

function from_utf8_lossy :: "string \<Rightarrow> string" where
  "from_utf8_lossy [] = []"
| "from_utf8_lossy (a # s) =
    (case utf8_tail a of
       None \<Rightarrow> replacement @ from_utf8_lossy s
     | Some rs \<Rightarrow>
         (let k = match_tail rs s in
          (if k = length rs then a # take k s else replacement) @ from_utf8_lossy (drop k s)))"
  by pat_completeness auto
termination
  by (relation "measure length") auto

lemma lossy_ascii: "is_ascii s \<Longrightarrow> from_utf8_lossy s = s"
  by (induction s) (auto simp: utf8_tail_def)

section \<open>The keyslot parser\<close>

text \<open>LUKS1: \<open>Key Slot <n>: ENABLED\<close>.\<close>

definition luks1_slot :: "string \<Rightarrow> u8 option" where
  "luks1_slot trimmed =
    (case strip_prefix ''Key Slot '' trimmed of
       None \<Rightarrow> None
     | Some rest \<Rightarrow>
         (case split_once CHR '':'' rest of
            None \<Rightarrow> None
          | Some (number, state) \<Rightarrow>
              (if eq_ignore_ascii_case (trim state) ''ENABLED'' then parse_word (trim number) else None)))"

text \<open>One line of the dump; LUKS2: \<open><n>: luks2\<close>.\<close>

definition dump_slot :: "string \<Rightarrow> u8 option" where
  "dump_slot line =
    (let trimmed = trim_start line in
     case split_once CHR '':'' trimmed of
       Some (number, kind) \<Rightarrow>
         (if prefix ''luks2'' (trim_start kind) then parse_word (trim number) else luks1_slot trimmed)
     | None \<Rightarrow> luks1_slot trimmed)"

definition slots_of_dump :: "string \<Rightarrow> u8 set" where
  "slots_of_dump out = set (List.map_filter dump_slot (text_lines (from_utf8_lossy out)))"

definition active_slot_set :: "string \<Rightarrow> ('x, u8 set) io" where
  "active_slot_set device =
    bnd (run_cmd ''cryptsetup'' [''luksDump'', device] []) (\<lambda>c.
    case c of
      NoSpawn \<Rightarrow> bail ''cryptsetup luksDump''
    | Exited ok out \<Rightarrow> if \<not> ok then bail ''luksDump failed'' else ret (slots_of_dump out))"

definition active_keyslots :: "string \<Rightarrow> ('x, nat) io" where
  "active_keyslots device = bnd (active_slot_set device) (\<lambda>slots. ret (card slots))"

definition keyslot_active :: "string \<Rightarrow> u8 \<Rightarrow> ('x, bool) io" where
  "keyslot_active device slot = bnd (active_slot_set device) (\<lambda>slots. ret (slot \<in> slots))"

section \<open>The keyslot commands\<close>

definition luks_kill_slot :: "string \<Rightarrow> u8 \<Rightarrow> ('x, unit) io" where
  "luks_kill_slot device slot =
    bnd (run_cmd ''cryptsetup'' [''luksKillSlot'', ''--batch-mode'', device, show_word slot] []) (\<lambda>c.
    bnd (lift (cmd_status ''spawn cryptsetup luksKillSlot'' c)) (\<lambda>ok.
    require ok ''luksKillSlot failed''))"

definition luks_erase :: "string \<Rightarrow> ('x, unit) io" where
  "luks_erase device =
    bnd (run_cmd ''cryptsetup'' [''luksErase'', ''--batch-mode'', device] []) (\<lambda>c.
    bnd (lift (cmd_status ''spawn cryptsetup luksErase'' c)) (\<lambda>ok.
    require ok ''luksErase failed''))"

section \<open>The two dump formats\<close>

definition luks2_line :: "u8 \<Rightarrow> string" where
  "luks2_line n = ''  '' @ show_word n @ '': luks2''"

definition luks1_line :: "u8 \<Rightarrow> bool \<Rightarrow> string" where
  "luks1_line n enabled = ''Key Slot '' @ show_word n @ '': '' @ (if enabled then ''ENABLED'' else ''DISABLED'')"

text \<open>Any other line: it lists no keyslot in either format.\<close>

definition other_line :: "string \<Rightarrow> bool" where
  "other_line l \<longleftrightarrow>
    is_line l \<and> is_ascii l \<and> \<not> prefix ''Key Slot '' (trim_start l) \<and>
    (\<forall>a b. split_once CHR '':'' (trim_start l) = Some (a, b) \<longrightarrow> \<not> prefix ''luks2'' (trim_start b))"

text \<open>A dump that lists exactly the keyslots of \<open>S\<close>: LUKS2 lists the active ones, LUKS1 all of them.\<close>

definition dump_shows :: "string \<Rightarrow> u8 set \<Rightarrow> bool" where
  "dump_shows out S \<longleftrightarrow>
    (\<exists>ls. out = concat (map (\<lambda>l. l @ [CHR 0x0A]) ls) \<and>
      (list_all (\<lambda>l. other_line l \<or> (\<exists>n. l = luks2_line n)) ls \<and> S = {n. luks2_line n \<in> set ls} \<or>
       list_all (\<lambda>l. other_line l \<or> (\<exists>n e. l = luks1_line n e)) ls \<and> S = {n. luks1_line n True \<in> set ls}))"

lemma trim_start_digits: "trim_start (show_word n @ t) = show_word n @ t"
proof -
  obtain c cs where "show_word n = c # cs" by (cases "show_word n") auto
  with show_word_ends(1) [of n] show ?thesis by simp
qed

lemma dump_slot_luks2: "dump_slot (luks2_line n) = Some n"
proof -
  have t: "trim_start (luks2_line n) = show_word n @ CHR '':'' # '' luks2''"
    by (simp add: luks2_line_def ascii_space_def trim_start_digits)
  have "CHR '':'' \<notin> set (show_word n)" by (rule show_word_no) (simp add: is_digit_def)
  then show ?thesis
    unfolding dump_slot_def t by (simp add: split_once_append ascii_space_def plain_def)
qed

lemma dump_slot_luks1: "dump_slot (luks1_line n e) = (if e then Some n else None)"
proof -
  have c: "CHR '':'' \<notin> set (show_word n)" by (rule show_word_no) (simp add: is_digit_def)
  have s: "trim_start (luks1_line n e) = luks1_line n e"
    by (simp add: luks1_line_def plain_def ascii_space_def)
  have o: "split_once CHR '':'' (luks1_line n e) =
      Some (''Key Slot '' @ show_word n, '' '' @ (if e then ''ENABLED'' else ''DISABLED''))"
    using split_once_append [of "CHR '':''" "''Key Slot '' @ show_word n"] c by (simp add: luks1_line_def)
  have p: "trim_start ('' '' @ (if e then ''ENABLED'' else ''DISABLED'')) = (if e then ''ENABLED'' else ''DISABLED'')"
    by (simp add: ascii_space_def plain_def)
  have t: "trim ('' '' @ (if e then ''ENABLED'' else ''DISABLED'')) = (if e then ''ENABLED'' else ''DISABLED'')"
    unfolding trim_def p using trim_plain [of "''ENABLED''"] trim_plain [of "''DISABLED''"]
    by (simp add: trim_def plain_def ascii_space_def)
  have "luks1_slot (luks1_line n e) = (if e then Some n else None)"
    using t by (simp add: luks1_slot_def luks1_line_def strip_prefix_def split_once_append c
        eq_ignore_ascii_case_def to_lower_def)
  then show ?thesis
    unfolding dump_slot_def s Let_def o option.case prod.case p by (cases e) simp_all
qed

lemma dump_slot_other: "other_line l \<Longrightarrow> dump_slot l = None"
  by (auto simp: other_line_def dump_slot_def luks1_slot_def strip_prefix_def Let_def split: option.splits)

lemma luks_lines_plain:
  "is_line (luks2_line n)" "is_ascii (luks2_line n)" "is_line (luks1_line n e)" "is_ascii (luks1_line n e)"
proof -
  have "CHR 0x0A \<notin> set (show_word n)" by (rule show_word_no) (simp add: is_digit_def)
  then show "is_line (luks2_line n)" "is_ascii (luks2_line n)" "is_line (luks1_line n e)" "is_ascii (luks1_line n e)"
    by (simp_all add: luks2_line_def luks1_line_def is_line_def)
qed

lemma slots_of_lines:
  assumes "list_all is_line ls" "list_all is_ascii ls"
  shows "slots_of_dump (concat (map (\<lambda>l. l @ [CHR 0x0A]) ls)) = {n. \<exists>l\<in>set ls. dump_slot l = Some n}"
proof -
  have "is_ascii (concat (map (\<lambda>l. l @ [CHR 0x0A]) ls))"
    using assms(2) by (auto simp: list_all_iff)
  then show ?thesis
    by (force simp: slots_of_dump_def lossy_ascii text_lines_concat assms(1) map_filter_def image_iff)
qed

lemma slots_of_dump_shows:
  assumes "dump_shows out S"
  shows "slots_of_dump out = S"
proof -
  obtain ls where out: "out = concat (map (\<lambda>l. l @ [CHR 0x0A]) ls)"
    and fmt: "list_all (\<lambda>l. other_line l \<or> (\<exists>n. l = luks2_line n)) ls \<and> S = {n. luks2_line n \<in> set ls} \<or>
       list_all (\<lambda>l. other_line l \<or> (\<exists>n e. l = luks1_line n e)) ls \<and> S = {n. luks1_line n True \<in> set ls}"
    using assms unfolding dump_shows_def by blast
  from fmt have "list_all is_line ls \<and> list_all is_ascii ls"
    by (auto simp: list_all_iff other_line_def luks_lines_plain)
  then have parsed: "slots_of_dump out = {n. \<exists>l\<in>set ls. dump_slot l = Some n}"
    by (simp add: out slots_of_lines)
  from fmt show ?thesis
  proof
    assume f: "list_all (\<lambda>l. other_line l \<or> (\<exists>n. l = luks2_line n)) ls \<and> S = {n. luks2_line n \<in> set ls}"
    have "dump_slot l = Some n \<longleftrightarrow> l = luks2_line n" if "l \<in> set ls" for l n
      using f that dump_slot_other dump_slot_luks2 by (auto simp: list_all_iff)
    with f parsed show ?thesis by auto
  next
    assume f: "list_all (\<lambda>l. other_line l \<or> (\<exists>n e. l = luks1_line n e)) ls \<and> S = {n. luks1_line n True \<in> set ls}"
    have "dump_slot l = Some n \<longleftrightarrow> l = luks1_line n True" if "l \<in> set ls" for l n
      using f that dump_slot_other dump_slot_luks1 by (auto simp: list_all_iff split: if_splits)
    with f parsed show ?thesis by auto
  qed
qed

section \<open>What the tools do\<close>

text \<open>
  The documented behaviour of the commands, as far as theorems need it: \<open>slots x d\<close> are the active
  keyslots of the container that the device path \<open>d\<close> names. A dump changes nothing and, when it
  succeeds, lists the active slots. Killing slot \<open>k\<close> through one path takes no other slot number away
  from any container, and after a success \<open>k\<close> is gone; a failure may have destroyed it or not. An
  erase that succeeds leaves no slot. No command puts a slot back, and none but these two takes one
  away. \<open>shred\<close> touches no file but its last argument and creates none, the others touch no file at all.
\<close>

definition harmless :: "string \<Rightarrow> string list \<Rightarrow> bool" where
  "harmless prog args \<longleftrightarrow>
    prog \<in> {''shred'', ''nmcli'', ''ip'', ''loginctl'', ''systemctl'', ''poweroff''} \<or>
    prog = ''cryptsetup'' \<and> args \<noteq> [] \<and> hd args \<in> {''luksDump'', ''isLuks'', ''close'', ''open''}"

type_synonym 'x exec = "string \<Rightarrow> string list \<Rightarrow> string \<Rightarrow> 'x store \<Rightarrow> cmd \<times> 'x store"

definition dump_law :: "('x \<Rightarrow> string \<Rightarrow> u8 set) \<Rightarrow> 'x exec \<Rightarrow> bool" where
  "dump_law slots ex \<longleftrightarrow>
    (\<forall>d v u x c st. ex ''cryptsetup'' [''luksDump'', d] [] (v, u, x) = (c, st) \<longrightarrow>
      (\<forall>out. c = Exited True out \<longrightarrow> dump_shows out (slots x d)))"

definition kill_law :: "('x \<Rightarrow> string \<Rightarrow> u8 set) \<Rightarrow> 'x exec \<Rightarrow> bool" where
  "kill_law slots ex \<longleftrightarrow>
    (\<forall>d k v u x c v' u' x'.
      ex ''cryptsetup'' [''luksKillSlot'', ''--batch-mode'', d, show_word k] [] (v, u, x) = (c, v', u', x') \<longrightarrow>
      v' = v \<and> u' = u \<and> (\<forall>d'. slots x d' - {k} \<subseteq> slots x' d' \<and> slots x' d' \<subseteq> slots x d') \<and>
      (\<forall>out. c = Exited True out \<longrightarrow> k \<notin> slots x' d))"

definition erase_law :: "('x \<Rightarrow> string \<Rightarrow> u8 set) \<Rightarrow> 'x exec \<Rightarrow> bool" where
  "erase_law slots ex \<longleftrightarrow>
    (\<forall>d v u x c v' u' x'. ex ''cryptsetup'' [''luksErase'', ''--batch-mode'', d] [] (v, u, x) = (c, v', u', x') \<longrightarrow>
      v' = v \<and> u' = u \<and> (\<forall>d'. slots x' d' \<subseteq> slots x d') \<and> (\<forall>out. c = Exited True out \<longrightarrow> slots x' d = {}))"

definition harmless_law :: "('x \<Rightarrow> string \<Rightarrow> u8 set) \<Rightarrow> 'x exec \<Rightarrow> bool" where
  "harmless_law slots ex \<longleftrightarrow>
    (\<forall>prog args inp v u x c v' u' x'. ex prog args inp (v, u, x) = (c, v', u', x') \<longrightarrow> harmless prog args \<longrightarrow>
      slots x' = slots x \<and> (prog \<noteq> ''shred'' \<longrightarrow> v' = v \<and> u' = u) \<and>
      (prog = ''shred'' \<longrightarrow>
        (\<forall>q. (fs_get v' q = fs_get v q \<or> path_text q = last args \<and> fs_get v q \<noteq> None) \<and>
             (fs_get u' q = fs_get u q \<or> path_text q = last args \<and> fs_get u q \<noteq> None))))"

definition tools_ok :: "('x \<Rightarrow> string \<Rightarrow> u8 set) \<Rightarrow> 'x exec \<Rightarrow> bool" where
  "tools_ok slots ex \<longleftrightarrow> dump_law slots ex \<and> kill_law slots ex \<and> erase_law slots ex \<and> harmless_law slots ex"

section \<open>Rules for the commands\<close>

text \<open>What running a command does to the machine: nothing when it could not be started.\<close>

lemma wp_run_cmd:
  assumes "\<And>ss. Q (Halt PowerLoss) (w\<lparr>w_sched := ss\<rparr>)"
    and "\<And>ss. Q (Ok NoSpawn) (w\<lparr>w_sched := ss\<rparr>)"
    and "\<And>ss c v u x. w_exec w prog args inp (w_vis w, w_dur w, w_ext w) = (c, v, u, x) \<Longrightarrow>
      Q (Ok c) (w\<lparr>w_sched := ss, w_vis := v, w_dur := u, w_ext := x, w_log := w_log w @ [(prog, args, inp)]\<rparr>)"
  shows "wp (run_cmd prog args inp) Q w"
  unfolding run_cmd_def wp_bnd
proof (rule wp_probe)
  fix ss
  obtain c v u x where ex: "w_exec w prog args inp (w_vis w, w_dur w, w_ext w) = (c, v, u, x)"
    by (metis prod_cases4)
  show "then_post (\<lambda>started w. if started then
        let (c, v, u, x) = w_exec w prog args inp (w_vis w, w_dur w, w_ext w)
        in (Ok c, w\<lparr>w_vis := v, w_dur := u, w_ext := x, w_log := w_log w @ [(prog, args, inp)]\<rparr>)
      else (Ok NoSpawn, w)) Q (Ok True) (w\<lparr>w_sched := ss\<rparr>)"
    using assms(3) [OF ex, of ss] by (simp add: wp_rules wp_def ex)
qed (simp_all add: wp_rules wp_def assms)

lemma wp_active_slot_set:
  assumes tools: "tools_ok slots (w_exec w)"
    and "\<And>ss. Q (Halt PowerLoss) (w\<lparr>w_sched := ss\<rparr>)"
    and "\<And>ss m. Q (Err (Msg m)) (w\<lparr>w_sched := ss\<rparr>)"
    and "\<And>ss x m log. slots x = slots (w_ext w) \<Longrightarrow>
      Q (Err (Msg m)) (w\<lparr>w_sched := ss, w_ext := x, w_log := log\<rparr>)"
    and "\<And>ss x log. slots x = slots (w_ext w) \<Longrightarrow>
      Q (Ok (slots x d)) (w\<lparr>w_sched := ss, w_ext := x, w_log := log\<rparr>)"
  shows "wp (active_slot_set d) Q w"
  unfolding active_slot_set_def wp_bnd
proof (rule wp_run_cmd)
  fix ss c v u x
  assume ex: "w_exec w ''cryptsetup'' [''luksDump'', d] [] (w_vis w, w_dur w, w_ext w) = (c, v, u, x)"
  have h: "harmless ''cryptsetup'' [''luksDump'', d]" by (simp add: harmless_def)
  have "harmless_law slots (w_exec w)" using tools by (simp add: tools_ok_def)
  from this [unfolded harmless_law_def, rule_format, OF ex h]
  have same: "slots x = slots (w_ext w)" "v = w_vis w" "u = w_dur w" by simp_all
  have "dump_law slots (w_exec w)" using tools by (simp add: tools_ok_def)
  from this [unfolded dump_law_def, rule_format, OF ex] slots_of_dump_shows same
  have "\<forall>out. c = Exited True out \<longrightarrow> slots_of_dump out = slots x d" by metis
  then show "then_post (\<lambda>c. case c of NoSpawn \<Rightarrow> bail ''cryptsetup luksDump''
      | Exited ok out \<Rightarrow> if \<not> ok then bail ''luksDump failed'' else ret (slots_of_dump out)) Q (Ok c)
      (w\<lparr>w_sched := ss, w_vis := v, w_dur := u, w_ext := x,
        w_log := w_log w @ [(''cryptsetup'', [''luksDump'', d], [])]\<rparr>)"
    using assms(4,5) [OF same(1)] same by (cases c) (auto simp: wp_rules)
qed (simp_all add: wp_rules assms)

section \<open>Tools that work\<close>

text \<open>
  An instance of the documented behaviour, for the examples: the outside world is the list of active
  keyslots of each container, and every command succeeds.
\<close>

definition working_tools :: "(string \<Rightarrow> u8 list) exec" where
  "working_tools prog args inp st =
    (case st of (v, u, x) \<Rightarrow>
      if prog = ''cryptsetup'' \<and> hd args = ''luksDump'' then
        (Exited True (concat (map (\<lambda>n. luks2_line n @ [CHR 0x0A]) (x (last args)))), v, u, x)
      else if prog = ''cryptsetup'' \<and> hd args = ''luksKillSlot'' then
        (Exited True [], v, u, x(args ! 2 := filter (\<lambda>n. show_word n \<noteq> last args) (x (args ! 2))))
      else if prog = ''cryptsetup'' \<and> hd args = ''luksErase'' then
        (Exited True [], v, u, x(last args := []))
      else if prog = ''shred'' then
        (Exited True [], filter (\<lambda>(q, n). path_text q \<noteq> last args) v,
         filter (\<lambda>(q, n). path_text q \<noteq> last args) u, x)
      else (Exited True [], v, u, x))"

definition listed :: "(string \<Rightarrow> u8 list) \<Rightarrow> string \<Rightarrow> u8 set" where
  "listed x d = set (x d)"

lemma show_word_inj: "show_word (a :: 'a::len word) = show_word b \<longleftrightarrow> a = b"
  by (metis option.inject parse_show_word)

lemma dump_shows_listed: "dump_shows (concat (map (\<lambda>n. luks2_line n @ [CHR 0x0A]) ns)) (set ns)"
proof -
  have inj: "luks2_line a = luks2_line b \<longleftrightarrow> a = b" for a b
    using dump_slot_luks2 by (metis option.inject)
  show ?thesis
    unfolding dump_shows_def
    by (intro exI [of _ "map luks2_line ns"] conjI disjI1) (auto simp: comp_def list_all_iff inj)
qed

lemma working_tools_ok: "tools_ok listed working_tools"
  unfolding tools_ok_def
proof (intro conjI)
  show "dump_law listed working_tools"
    by (auto simp: dump_law_def working_tools_def listed_def dump_shows_listed)
  show "kill_law listed working_tools"
    by (auto simp: kill_law_def working_tools_def listed_def show_word_inj)
  show "erase_law listed working_tools"
    by (auto simp: erase_law_def working_tools_def listed_def)
  show "harmless_law listed working_tools"
    by (auto simp: harmless_law_def harmless_def working_tools_def listed_def fs_get_filter)
qed

text \<open>
  C35. The keyslot parser reads both LUKS formats exactly: for every dump that lists the keyslots of
  \<open>S\<close> in the LUKS2 form or in the LUKS1 form (enabled or disabled), among any other lines, the set of
  active slots it returns is \<open>S\<close>.
\<close>

theorem slots_of_dump_exact:
  assumes "dump_shows out S"
  shows "slots_of_dump out = S"
  using slots_of_dump_shows [OF assms] .

theorem slots_of_dump_exact_witness:
  "slots_of_dump (''LUKS header information\<newline>Keyslots:\<newline>  0: luks2\<newline>  7: luks2\<newline>Tokens:\<newline>  0: systemd-tpm2\<newline>'') = {0, 7}"
proof (rule slots_of_dump_exact)
  let ?ls = "[''LUKS header information'', ''Keyslots:'', luks2_line 0, luks2_line 7, ''Tokens:'', ''  0: systemd-tpm2'']"
  have lines: "luks2_line 0 = ''  0: luks2''" "luks2_line 7 = ''  7: luks2''"
    by (simp_all add: luks2_line_def show_word_def show_nat_small digit_char_def char_of_eq_iff)
  have other: "other_line ''LUKS header information''" "other_line ''Keyslots:''" "other_line ''Tokens:''"
      "other_line ''  0: systemd-tpm2''"
    by (simp_all add: other_line_def is_line_def plain_def ascii_space_def)
  have "{n :: u8. luks2_line n \<in> set ?ls} = {0, 7}"
  proof -
    have "luks2_line n \<in> set ?ls \<longleftrightarrow> n = 0 \<or> n = 7" for n
      using dump_slot_other [OF other(1)] dump_slot_other [OF other(2)] dump_slot_other [OF other(3)]
        dump_slot_other [OF other(4)] dump_slot_luks2 [of n] dump_slot_luks2 [of 0] dump_slot_luks2 [of 7]
      by (metis (no_types, lifting) list.set_intros(1) list.set_intros(2) option.distinct(1) option.inject set_ConsD
          empty_iff empty_set)
    then show ?thesis by auto
  qed
  moreover have "list_all (\<lambda>l. other_line l \<or> (\<exists>n. l = luks2_line n)) ?ls"
    unfolding list_all_iff list.set using other by blast
  moreover have "concat (map (\<lambda>l. l @ [CHR 0x0A]) ?ls) = ''LUKS header information\<newline>Keyslots:\<newline>  0: luks2\<newline>  7: luks2\<newline>Tokens:\<newline>  0: systemd-tpm2\<newline>''"
    by (simp add: lines)
  ultimately show "dump_shows (''LUKS header information\<newline>Keyslots:\<newline>  0: luks2\<newline>  7: luks2\<newline>Tokens:\<newline>  0: systemd-tpm2\<newline>'') {0, 7}"
    unfolding dump_shows_def by metis
qed

end
