(* ===== verification/Journal.thy ===== *)
theory Journal
  imports Keyslots
begin

text \<open>
  The in-progress journal of \<open>ds-erase\<close>: its data, the validators of its fields, and its durable
  writing, reading and removal. The JSON form (crate \<open>serde_json\<close>) is a parameter: \<open>to_json\<close> gives
  the serialised bytes or \<open>None\<close> for the crate's error, \<open>of_json\<close> the parsed journal or \<open>None\<close>.
\<close>

section \<open>Data\<close>

definition JOURNAL_VERSION :: u8 where "JOURNAL_VERSION = 1"

datatype phase = Prepared | BackupsHandled | KeyslotsDestroyed

datatype erase_mode = KillSlot | EraseAll

record journal =
  j_version :: u8
  j_phase :: phase
  j_device :: string
  j_mode :: erase_mode
  j_slot :: "u8 option"
  j_recovery_slot :: "u8 option"
  j_map_name :: "string option"
  j_header_scan :: "string list"

definition DEFAULT_JOURNAL :: string where
  "DEFAULT_JOURNAL = ''/boot/efi/deathstroke/inprogress''"

definition journal_dir :: "path \<Rightarrow> string" where
  "journal_dir journal = (case parent_of journal of Some p \<Rightarrow> path_text p | None \<Rightarrow> ''/boot'')"

section \<open>Validation\<close>

definition validate_mode_slots :: "erase_mode \<Rightarrow> u8 option \<Rightarrow> u8 option \<Rightarrow> unit res" where
  "validate_mode_slots mode slot recovery =
    (case (mode, slot, recovery) of
       (KillSlot, Some daily, Some rec) \<Rightarrow>
         (if daily \<le> 31 \<and> rec \<le> 31 then
            (if daily = rec then Err (Msg ''daily and recovery slots must be distinct'') else Ok ())
          else Err (Msg ''killslot requires distinct --slot and --recovery-slot values in 0..31''))
     | (KillSlot, _, _) \<Rightarrow> Err (Msg ''killslot requires distinct --slot and --recovery-slot values in 0..31'')
     | (EraseAll, None, None) \<Rightarrow> Ok ()
     | (EraseAll, _, _) \<Rightarrow> Err (Msg ''slot flags are invalid with full erase''))"

definition validate_text_field :: "string \<Rightarrow> string \<Rightarrow> unit res" where
  "validate_text_field label value =
    (if value = [] \<or> length value > 4096 \<or>
        list_ex (\<lambda>c. c = CHR 0x0A \<or> c = CHR 0x0D \<or> c = CHR 0x00) value
     then Err (Msg (''invalid '' @ label)) else Ok ())"

definition map_name_char :: "char \<Rightarrow> bool" where
  "map_name_char c \<longleftrightarrow>
    (let n = (of_char c :: nat) in 48 \<le> n \<and> n \<le> 57 \<or> 65 \<le> n \<and> n \<le> 90 \<or> 97 \<le> n \<and> n \<le> 122)
    \<or> c \<in> set ''+_.-''"

definition validate_map_name :: "string \<Rightarrow> unit res" where
  "validate_map_name name =
    (if name = [] \<or> length name > 127 \<or> \<not> list_all map_name_char name
     then Err (Msg ''invalid dm-crypt mapping name'') else Ok ())"

definition validate_journal_path :: "path \<Rightarrow> unit res" where
  "validate_journal_path path =
    (if \<not> is_absolute path then Err (Msg ''journal path must be absolute'')
     else rbind (some_or ''journal has no parent'' (parent_of path)) (\<lambda>parent.
       if file_name path \<noteq> Some JOURNAL_NAME then Err (Msg ''journal filename must be inprogress'')
       else if \<not> suffix [''deathstroke''] parent
         then Err (Msg ''journal must be inside a deathstroke ESP state directory'')
       else Ok ()))"

fun check_roots :: "path \<Rightarrow> string list \<Rightarrow> ('x, unit) io" where
  "check_roots parent [] = ret ()"
| "check_roots parent (root # roots) =
    bnd (ctx ''resolve header scan root'' (canonicalize (components root))) (\<lambda>resolved.
    bnd (require (prefix parent resolved) ''header scan root must stay inside journal ESP directory'') (\<lambda>_.
    check_roots parent roots))"

definition validate_scan_roots :: "path \<Rightarrow> string list \<Rightarrow> ('x, unit) io" where
  "validate_scan_roots journal roots =
    bnd (lift (some_or ''journal has no parent'' (parent_of journal))) (\<lambda>parent.
    bnd (ctx ''resolve journal directory'' (canonicalize parent)) (\<lambda>resolved.
    check_roots resolved roots))"

section \<open>Writing, reading, removing\<close>

definition write_journal :: "(journal \<Rightarrow> string option) \<Rightarrow> path \<Rightarrow> journal \<Rightarrow> ('x, unit) io" where
  "write_journal to_json path journal =
    bnd (lift (some_or ''journal path has no parent'' (parent_of path))) (\<lambda>parent.
    bnd (ctx ''create journal dir'' (create_dir_all parent)) (\<lambda>_.
    bnd (ask w_pid) (\<lambda>pid.
    let tmp = parent @ [''.inprogress.tmp.'' @ show_nat pid] in
    bnd (lift (some_or ''serialize journal'' (to_json journal))) (\<lambda>data.
    or_remove tmp
      (bnd (ctx ''create journal temp'' (create_new tmp 438)) (\<lambda>_.
       bnd (ctx ''write journal'' (write_all tmp data)) (\<lambda>_.
       bnd (ctx ''finish journal'' (write_all tmp [CHR 0x0A])) (\<lambda>_.
       bnd (ctx ''fsync journal'' (sync_file tmp)) (\<lambda>_.
       bnd (ctx ''rename journal'' (rename_file tmp path)) (\<lambda>_.
       bnd (open_dir parent) (\<lambda>_.
       ctx ''fsync journal directory'' (sync_dir parent))))))))))))"

fun check_text_fields :: "string list \<Rightarrow> unit res" where
  "check_text_fields [] = Ok ()"
| "check_text_fields (p # ps) = rbind (validate_text_field ''header scan path'' p) (\<lambda>_. check_text_fields ps)"

definition read_journal :: "(string \<Rightarrow> journal option) \<Rightarrow> path \<Rightarrow> ('x, journal) io" where
  "read_journal of_json path =
    bnd (ctx ''read journal'' (fs_read path)) (\<lambda>data.
    bnd (require (length data \<le> 65536) ''journal exceeds 64 KiB'') (\<lambda>_.
    bnd (lift (some_or ''parse journal'' (of_json data))) (\<lambda>journal.
    bnd (require (j_version journal = JOURNAL_VERSION) ''unsupported journal version'') (\<lambda>_.
    bnd (lift (validate_mode_slots (j_mode journal) (j_slot journal) (j_recovery_slot journal))) (\<lambda>_.
    bnd (require (length (j_header_scan journal) \<le> 32) ''too many journal scan roots'') (\<lambda>_.
    bnd (lift (check_text_fields (j_header_scan journal))) (\<lambda>_.
    bnd (validate_scan_roots path (j_header_scan journal)) (\<lambda>_.
    bnd (lift (validate_text_field ''device'' (j_device journal))) (\<lambda>_.
    bnd (lift (case j_map_name journal of Some name \<Rightarrow> validate_map_name name | None \<Rightarrow> Ok ())) (\<lambda>_.
    ret journal))))))))))"

definition remove_journal :: "path \<Rightarrow> ('x, unit) io" where
  "remove_journal path =
    bnd (attempt (remove_file path)) (\<lambda>r.
    case r of
      Inl e \<Rightarrow> if e = NotFound then ret () else bail ''remove journal''
    | Inr _ \<Rightarrow>
        (case parent_of path of
           Some parent \<Rightarrow> bnd (open_dir parent) (\<lambda>_. sync_dir parent)
         | None \<Rightarrow> ret ()))"

section \<open>Laws\<close>

text \<open>The slots of a transaction that a validator lets through.\<close>

definition slots_valid :: "erase_mode \<Rightarrow> u8 option \<Rightarrow> u8 option \<Rightarrow> bool" where
  "slots_valid mode slot recovery \<longleftrightarrow>
    (case mode of
       KillSlot \<Rightarrow> (\<exists>d r. slot = Some d \<and> recovery = Some r \<and> d \<le> 31 \<and> r \<le> 31 \<and> d \<noteq> r)
     | EraseAll \<Rightarrow> slot = None \<and> recovery = None)"

lemma validate_mode_slots_Ok: "validate_mode_slots mode slot recovery = Ok u \<longleftrightarrow> slots_valid mode slot recovery"
  by (cases mode; cases slot; cases recovery) (auto simp: validate_mode_slots_def slots_valid_def)

lemma validate_text_field_Ok:
  "validate_text_field l v = Ok u \<longleftrightarrow>
    v \<noteq> [] \<and> length v \<le> 4096 \<and> CHR 0x0A \<notin> set v \<and> CHR 0x0D \<notin> set v \<and> CHR 0x00 \<notin> set v"
  by (auto simp: validate_text_field_def list_ex_iff)

lemma validate_map_name_Ok:
  "validate_map_name m = Ok u \<longleftrightarrow> m \<noteq> [] \<and> length m \<le> 127 \<and> list_all map_name_char m"
  by (auto simp: validate_map_name_def)

lemma validate_journal_path_Ok:
  "validate_journal_path p = Ok u \<longleftrightarrow> is_absolute p \<and> (\<exists>d. p = d @ [''deathstroke'', ''inprogress''])"
proof -
  have "is_absolute p \<Longrightarrow> p \<noteq> [] \<and> hd p = ''/''" by (simp add: is_absolute_def)
  then show ?thesis
    by (cases p rule: rev_cases)
      (auto simp: validate_journal_path_def ok_inv parent_of_def file_name_def JOURNAL_NAME_def suffix_def
        is_absolute_def split: if_splits)
qed

lemma keeps_check_roots: "keeps only_sched (check_roots parent roots)"
  by (induction roots) (auto intro!: reading.keeps_bnd reading.keeps_basic)

lemma keeps_validate_scan_roots: "keeps only_sched (validate_scan_roots journal roots)"
  unfolding validate_scan_roots_def
  by (intro reading.keeps_bnd reading.keeps_basic keeps_check_roots)

lemma keeps_read_journal: "keeps only_sched (read_journal of_json path)"
  unfolding read_journal_def
  by (intro reading.keeps_bnd reading.keeps_basic keeps_validate_scan_roots)

end
