(* ===== verification/Backups.thy ===== *)
theory Backups
  imports Journal
begin

text \<open>
  Destruction of LUKS header backups (\<open>destroy_header_backups\<close> of \<open>ds-erase\<close>): the bounded walk with
  an explicit stack, and what it may remove.
\<close>

definition MAX_SCAN_ENTRIES :: nat where "MAX_SCAN_ENTRIES = 10000"

definition LUKS_MAGIC :: string where "LUKS_MAGIC = ''LUKS'' @ [CHR 0xBA, CHR 0xBE]"

definition header_node :: "node \<Rightarrow> bool" where
  "header_node n = (case n of File d m s \<Rightarrow> take 6 d = LUKS_MAGIC | _ \<Rightarrow> False)"

text \<open>Opening and \<open>read_exact\<close> of six bytes; any failure reads as \<open>false\<close>.\<close>

definition is_luks_header_file :: "path \<Rightarrow> ('x, bool) io" where
  "is_luks_header_file p =
    probe (\<lambda>w. case look (w_vis w) p of Some n \<Rightarrow> header_node n | None \<Rightarrow> False)"

definition erase_header_file :: "path \<Rightarrow> ('x, unit) io" where
  "erase_header_file p =
    bnd (run_cmd ''shred'' [''-u'', ''-z'', ''-n'', ''1'', path_text p] []) (\<lambda>status.
    if cmd_success status then ret ()
    else ctx ''remove header backup'' (remove_file p))"

text \<open>
  The \<open>while let Some(path) = stack.pop()\<close> loop: the top of the stack is the head of the list, so the
  entries of a directory, pushed in order, come off in reverse. \<open>left\<close> is what remains of the bound
  \<open>MAX_SCAN_ENTRIES\<close>, and the recursion is structural in it.
\<close>

fun scan_loop :: "nat \<Rightarrow> nat \<Rightarrow> path list \<Rightarrow> ('x, nat) io" where
  "scan_loop left destroyed [] = ret destroyed"
| "scan_loop 0 destroyed (p # stack) = bail ''header scan exceeds 10000 entries''"
| "scan_loop (Suc left) destroyed (p # stack) =
    bnd (attempt (symlink_metadata p)) (\<lambda>r.
    case r of
      Inl e \<Rightarrow> if e = NotFound then scan_loop left destroyed stack else bail ''stat scan path''
    | Inr meta \<Rightarrow>
        if is_link meta then scan_loop left destroyed stack
        else if is_dir_node meta then
          bnd (ctx ''read scan dir'' (read_dir p)) (\<lambda>entries.
          scan_loop left destroyed (rev entries @ stack))
        else if is_file_node meta then
          bnd (is_luks_header_file p) (\<lambda>header.
          if header then
            bnd (erase_header_file p) (\<lambda>_. scan_loop left (destroyed + 1) stack)
          else scan_loop left destroyed stack)
        else scan_loop left destroyed stack)"

definition destroy_header_backups :: "string list \<Rightarrow> ('x, nat) io" where
  "destroy_header_backups paths = scan_loop MAX_SCAN_ENTRIES 0 (rev (map components paths))"

section \<open>Paths as text\<close>

text \<open>An absolute path without empty components: what a directory entry can be.\<close>

definition normal :: "path \<Rightarrow> bool" where
  "normal p \<longleftrightarrow> is_absolute p \<and> list_all (\<lambda>c. c \<noteq> [] \<and> CHR ''/'' \<notin> set c) (tl p)"

definition normal_fs :: "fs \<Rightarrow> bool" where
  "normal_fs f \<longleftrightarrow> (\<forall>q. fs_get f q \<noteq> None \<longrightarrow> normal q)"

lemma split_on_join:
  "cs \<noteq> [] \<Longrightarrow> list_all (\<lambda>c. CHR ''/'' \<notin> set c) cs \<Longrightarrow> split_on CHR ''/'' (join ''/'' cs) = cs"
  by (induction cs rule: induct_list012) (simp_all add: split_on_none split_on_append)

lemma path_text_inj:
  assumes "normal p" "normal q" "path_text p = path_text q"
  shows "p = q"
proof -
  have ne: "p \<noteq> []" "q \<noteq> []" "hd p = ''/''" "hd q = ''/''"
    using assms by (auto simp: normal_def is_absolute_def)
  have j: "join ''/'' (tl p) = join ''/'' (tl q)"
    using assms by (simp add: path_text_def normal_def)
  have cs: "list_all (\<lambda>c. CHR ''/'' \<notin> set c) (tl p)" "list_all (\<lambda>c. CHR ''/'' \<notin> set c) (tl q)"
    using assms by (auto simp: normal_def list_all_iff)
  have empty: "join ''/'' cs = [] \<longleftrightarrow> cs = []" if "list_all (\<lambda>c. c \<noteq> []) cs" for cs
    using that by (induction cs rule: induct_list012) auto
  have "tl p = tl q"
  proof (cases "tl p = []")
    case True
    then show ?thesis using j empty [of "tl q"] assms(2) by (simp add: normal_def list_all_iff)
  next
    case False
    then have q: "tl q \<noteq> []" using j empty [of "tl p"] assms(1) by (auto simp: normal_def list_all_iff)
    have "tl p = split_on CHR ''/'' (join ''/'' (tl p))" by (rule split_on_join [OF False cs(1), symmetric])
    also have "\<dots> = split_on CHR ''/'' (join ''/'' (tl q))" by (simp only: j)
    also have "\<dots> = tl q" by (rule split_on_join [OF q cs(2)])
    finally show ?thesis .
  qed
  then show ?thesis using ne by (metis list.collapse)
qed

section \<open>What the walk may change\<close>

text \<open>Everything but the file systems, the schedule, the outside world and the record of commands.\<close>

definition same_user :: "'x world \<Rightarrow> 'x world \<Rightarrow> bool" where
  "same_user w w' \<longleftrightarrow>
    w_exec w' = w_exec w \<and> w_kdf w' = w_kdf w \<and> w_clock w' = w_clock w \<and>
    w_pid w' = w_pid w \<and> w_debug w' = w_debug w \<and> w_env w' = w_env w \<and> w_cwd w' = w_cwd w \<and>
    w_tty w' = w_tty w \<and> w_stdin w' = w_stdin w \<and> w_rand w' = w_rand w \<and> w_spawned w' = w_spawned w"

lemma same_user_refl [simp]: "same_user w w"
  by (simp add: same_user_def)

lemma same_user_trans: "same_user u v \<Longrightarrow> same_user v w \<Longrightarrow> same_user u w"
  by (simp add: same_user_def)

lemma same_user_upd [simp]:
  "same_user w0 (w\<lparr>w_sched := ss\<rparr>) \<longleftrightarrow> same_user w0 w"
  "same_user w0 (w\<lparr>w_vis := v\<rparr>) \<longleftrightarrow> same_user w0 w"
  "same_user w0 (w\<lparr>w_dur := u\<rparr>) \<longleftrightarrow> same_user w0 w"
  "same_user w0 (w\<lparr>w_ext := x\<rparr>) \<longleftrightarrow> same_user w0 w"
  "same_user w0 (w\<lparr>w_log := l\<rparr>) \<longleftrightarrow> same_user w0 w"
  by (simp_all add: same_user_def)

lemma same_env_user: "same_env w w' \<Longrightarrow> same_user w w'"
  by (simp add: same_env_def same_user_def)

text \<open>Below one of the roots, header files may be gone or overwritten; nothing else has changed.\<close>

definition only_headers :: "('x \<Rightarrow> string \<Rightarrow> u8 set) \<Rightarrow> path list \<Rightarrow> 'x world \<Rightarrow> 'x world \<Rightarrow> bool" where
  "only_headers slots roots w w' \<longleftrightarrow>
    same_user w w' \<and> slots (w_ext w') = slots (w_ext w) \<and> normal_fs (w_vis w') \<and>
    (\<forall>q. normal q \<longrightarrow> fs_get (w_vis w') q \<noteq> fs_get (w_vis w) q \<longrightarrow>
      (\<exists>root\<in>set roots. prefix root q) \<and>
      (\<exists>n. fs_get (w_vis w) q = Some n \<and> header_node n)) \<and>
    (\<forall>q. normal q \<longrightarrow> fs_get (w_dur w') q \<noteq> fs_get (w_dur w) q \<longrightarrow>
      (\<exists>n. fs_get (w_vis w) q = Some n \<and> header_node n))"

lemma only_headers_sched [simp]:
  "only_headers slots roots w (w'\<lparr>w_sched := ss\<rparr>) \<longleftrightarrow> only_headers slots roots w w'"
  by (simp add: only_headers_def)

lemma only_headers_refl: "normal_fs (w_vis w) \<Longrightarrow> only_headers slots roots w w"
  by (simp add: only_headers_def)

lemma header_before:
  assumes "only_headers slots roots w w1" "fs_get (w_vis w1) p = Some n" "header_node n" "normal p"
  shows "\<exists>n. fs_get (w_vis w) p = Some n \<and> header_node n"
proof (cases "fs_get (w_vis w1) p = fs_get (w_vis w) p")
  case True
  then show ?thesis using assms(2,3) by metis
next
  case False
  then show ?thesis using assms(1,4) by (simp add: only_headers_def)
qed

text \<open>One more header file below a root may change.\<close>

lemma only_headers_step:
  assumes "only_headers slots roots w w1" "same_user w1 w2" "slots (w_ext w2) = slots (w_ext w1)"
    and p: "\<exists>root\<in>set roots. prefix root p" "fs_get (w_vis w1) p = Some n" "header_node n" "normal p"
    and vis: "\<And>q. fs_get (w_vis w2) q \<noteq> fs_get (w_vis w1) q \<Longrightarrow>
      path_text q = path_text p \<and> fs_get (w_vis w1) q \<noteq> None"
    and dur: "\<And>q. fs_get (w_dur w2) q \<noteq> fs_get (w_dur w1) q \<Longrightarrow> path_text q = path_text p"
  shows "only_headers slots roots w w2"
proof -
  have at: "q = p" if "normal q" "path_text q = path_text p" for q
    using path_text_inj that p(4) by blast
  have head: "\<exists>n. fs_get (w_vis w) p = Some n \<and> header_node n"
    by (rule header_before [OF assms(1) p(2-4)])
  have "normal_fs (w_vis w2)"
    using assms(1) vis unfolding only_headers_def normal_fs_def by metis
  moreover have "(\<exists>root\<in>set roots. prefix root q) \<and> (\<exists>n. fs_get (w_vis w) q = Some n \<and> header_node n)"
    if "normal q" "fs_get (w_vis w2) q \<noteq> fs_get (w_vis w) q" for q
  proof (cases "fs_get (w_vis w2) q = fs_get (w_vis w1) q")
    case True
    then show ?thesis using assms(1) that by (simp add: only_headers_def)
  next
    case False
    then have "q = p" using vis at that(1) by blast
    then show ?thesis using p(1) head by simp
  qed
  moreover have "\<exists>n. fs_get (w_vis w) q = Some n \<and> header_node n"
    if "normal q" "fs_get (w_dur w2) q \<noteq> fs_get (w_dur w) q" for q
  proof (cases "fs_get (w_dur w2) q = fs_get (w_dur w1) q")
    case True
    then show ?thesis using assms(1) that by (simp add: only_headers_def)
  next
    case False
    then have "q = p" using dur at that(1) by blast
    then show ?thesis using head by simp
  qed
  moreover have "same_user w w2" "slots (w_ext w2) = slots (w_ext w)"
    using assms(1-3) same_user_trans [of w w1 w2] by (simp_all add: only_headers_def)
  ultimately show ?thesis by (simp add: only_headers_def)
qed

lemma wp_erase_header_file:
  assumes tools: "tools_ok slots (w_exec w1)" and oh: "only_headers slots roots w w1"
    and p: "\<exists>root\<in>set roots. prefix root p" "fs_get (w_vis w1) p = Some n" "header_node n" "normal p"
  shows "wp (erase_header_file p) (\<lambda>_. only_headers slots roots w) w1"
proof -
  let ?args = "[''-u'', ''-z'', ''-n'', ''1'', path_text p]"
  have head: "\<exists>n. fs_get (w_vis w) p = Some n \<and> header_node n"
    by (rule header_before [OF oh p(2-4)])
  have remove: "wp (remove_file p) (\<lambda>_. only_headers slots roots w) w2"
    if "only_headers slots roots w w2" for w2
    by (rule wp_remove_file) (use that p(1) head in \<open>auto simp: only_headers_def normal_fs_def\<close>)
  show ?thesis
    unfolding erase_header_file_def wp_bnd
  proof (rule wp_run_cmd)
    fix ss c v u x
    assume ex: "w_exec w1 ''shred'' ?args [] (w_vis w1, w_dur w1, w_ext w1) = (c, v, u, x)"
    have "harmless_law slots (w_exec w1)" using tools by (simp add: tools_ok_def)
    from this [unfolded harmless_law_def, rule_format, OF ex]
    have law: "slots x = slots (w_ext w1)"
      "\<And>q. fs_get v q = fs_get (w_vis w1) q \<or> path_text q = path_text p \<and> fs_get (w_vis w1) q \<noteq> None"
      "\<And>q. fs_get u q = fs_get (w_dur w1) q \<or> path_text q = path_text p \<and> fs_get (w_dur w1) q \<noteq> None"
      by (simp_all add: harmless_def)
    let ?w2 = "w1\<lparr>w_sched := ss, w_vis := v, w_dur := u, w_ext := x, w_log := w_log w1 @ [(''shred'', ?args, [])]\<rparr>"
    have oh2: "only_headers slots roots w ?w2"
      by (rule only_headers_step [OF oh _ _ p]) (use law in auto)
    with oh2 show "then_post (\<lambda>status. if cmd_success status then ret () else ctx ''remove header backup'' (remove_file p))
        (\<lambda>_. only_headers slots roots w) (Ok c) ?w2"
      using remove [OF oh2] by (simp add: wp_rules)
  qed (use oh in \<open>simp_all add: wp_rules cmd_success_def remove\<close>)
qed

lemma children_below: "q \<in> set (children f d) \<Longrightarrow> prefix d q"
  by (auto simp: children_def parent_of_def split: if_splits) (metis append_butlast_last_id prefixI)

lemma wp_read_dir:
  assumes "\<And>e ss. Q (Err e) (w\<lparr>w_sched := ss\<rparr>)" and "\<And>ss. Q (Halt PowerLoss) (w\<lparr>w_sched := ss\<rparr>)"
    and "\<And>ss. Q (Ok (children (w_vis w) d)) (w\<lparr>w_sched := ss\<rparr>)"
  shows "wp (read_dir d) Q w"
  unfolding read_dir_def by (rule wp_sys_res) (auto intro: assms split: option.splits node.splits)

lemma wp_scan_loop:
  assumes tools: "tools_ok slots (w_exec w)"
  shows "only_headers slots roots w w1 \<Longrightarrow> \<forall>p\<in>set stack. \<exists>root\<in>set roots. prefix root p \<Longrightarrow>
    wp (scan_loop left n stack) (\<lambda>_. only_headers slots roots w) w1"
proof (induction left arbitrary: n stack w1)
  case 0
  then show ?case by (cases stack) (simp_all add: wp_rules)
next
  case (Suc left)
  show ?case
  proof (cases stack)
    case Nil
    then show ?thesis using Suc.prems by (simp add: wp_rules)
  next
    case (Cons p ps)
    let ?oh = "only_headers slots roots w"
    have ps: "\<forall>q\<in>set ps. \<exists>root\<in>set roots. prefix root q"
      and below: "\<exists>root\<in>set roots. prefix root p" using Suc.prems Cons by auto
    have go: "wp (scan_loop left k ps) (\<lambda>_. ?oh) v" if "?oh v" for k v
      using Suc.IH [OF that ps] .
    have dir: "wp (bnd (ctx ''read scan dir'' (read_dir p)) (\<lambda>entries. scan_loop left n (rev entries @ ps)))
        (\<lambda>_. ?oh) v" if "?oh v" for v
      unfolding wp_bnd wp_ctx
    proof (rule wp_read_dir)
      fix ss
      have "\<forall>q\<in>set (rev (children (w_vis v) p) @ ps). \<exists>root\<in>set roots. prefix root q"
        using ps below children_below prefix_order.trans by (auto, blast)
      with Suc.IH [of "v\<lparr>w_sched := ss\<rparr>"] that
      show "then_post (\<lambda>entries. scan_loop left n (rev entries @ ps)) (\<lambda>_. ?oh)
          (rctx ''read scan dir'' (Ok (children (w_vis v) p))) (v\<lparr>w_sched := ss\<rparr>)"
        by (simp add: wp_rules)
    qed (use that in \<open>simp_all add: wp_rules\<close>)
    have reg: "wp (bnd (is_luks_header_file p) (\<lambda>header.
          if header then bnd (erase_header_file p) (\<lambda>_. scan_loop left (n + 1) ps)
          else scan_loop left n ps)) (\<lambda>_. ?oh) v"
      if v: "?oh v" "fs_get (w_vis v) p = Some x" "is_file_node x" for v x
      unfolding wp_bnd is_luks_header_file_def
    proof (rule wp_probe)
      fix ss
      assume head: "case look (w_vis v) p of Some n \<Rightarrow> header_node n | None \<Rightarrow> False"
      have look: "look (w_vis v) p = Some x"
        by (rule look_plain [OF v(2)]) (use v(3) in \<open>cases x; simp add: is_link_def is_file_node_def\<close>)
      have ok: "tools_ok slots (w_exec (v\<lparr>w_sched := ss\<rparr>))" "?oh (v\<lparr>w_sched := ss\<rparr>)"
        using tools v(1) by (simp_all add: only_headers_def same_user_def)
      have p: "fs_get (w_vis (v\<lparr>w_sched := ss\<rparr>)) p = Some x" "header_node x" "normal p"
        using v(1,2) head look by (auto simp: only_headers_def normal_fs_def)
      have "wp (bnd (erase_header_file p) (\<lambda>_. scan_loop left (n + 1) ps)) (\<lambda>_. ?oh) (v\<lparr>w_sched := ss\<rparr>)"
        by (rule wp_bndI [OF wp_erase_header_file [OF ok below p]]) (simp_all add: go)
      then show "then_post (\<lambda>header. if header then bnd (erase_header_file p) (\<lambda>_. scan_loop left (n + 1) ps)
          else scan_loop left n ps) (\<lambda>_. ?oh) (Ok True) (v\<lparr>w_sched := ss\<rparr>)"
        by (simp add: wp_rules)
    qed (use v(1) in \<open>simp_all add: wp_rules go\<close>)
    show ?thesis
      unfolding Cons scan_loop.simps wp_bnd [of "attempt _"] wp_attempt
    proof (rule wp_symlink_metadata)
      fix ss x
      assume "fs_get (w_vis w1) p = Some x"
      then show "attempt_post (then_post (\<lambda>r. case r of
          Inl e \<Rightarrow> if e = NotFound then scan_loop left n ps else bail ''stat scan path''
        | Inr meta \<Rightarrow>
            if is_link meta then scan_loop left n ps
            else if is_dir_node meta then
              bnd (ctx ''read scan dir'' (read_dir p)) (\<lambda>entries. scan_loop left n (rev entries @ ps))
            else if is_file_node meta then
              bnd (is_luks_header_file p) (\<lambda>header.
              if header then bnd (erase_header_file p) (\<lambda>_. scan_loop left (n + 1) ps)
              else scan_loop left n ps)
            else scan_loop left n ps) (\<lambda>_. ?oh)) (Ok x) (w1\<lparr>w_sched := ss\<rparr>)"
        using Suc.prems(1) dir [of "w1\<lparr>w_sched := ss\<rparr>"] reg [of "w1\<lparr>w_sched := ss\<rparr>" x] go [of "w1\<lparr>w_sched := ss\<rparr>"]
        by (simp add: wp_rules)
    qed (use Suc.prems(1) go in \<open>auto simp: wp_rules\<close>)
  qed
qed

lemma wp_destroy_header_backups:
  assumes "tools_ok slots (w_exec w)" "normal_fs (w_vis w)"
  shows "wp (destroy_header_backups paths) (\<lambda>_. only_headers slots (map components paths) w) w"
  unfolding destroy_header_backups_def
  by (rule wp_scan_loop [OF assms(1) only_headers_refl [OF assms(2)]]) auto

text \<open>
  C29. The destruction of header backups removes nothing else: whatever fails and wherever the power is
  cut, every file that is gone or altered afterwards lies below one of the scan roots and was a
  regular file beginning with the LUKS magic, and no keyslot of any container has changed. The roots
  are followed component by component, never through a symbolic link.
\<close>

theorem only_header_backups_removed:
  assumes "tools_ok slots (w_exec w)" "normal_fs (w_vis w)" "normal q"
    and "destroy_header_backups paths w = (r, w')"
  shows "slots (w_ext w') = slots (w_ext w) \<and>
    (fs_get (w_vis w') q \<noteq> fs_get (w_vis w) q \<longrightarrow>
      (\<exists>root\<in>set paths. prefix (components root) q) \<and>
      (\<exists>d m s. fs_get (w_vis w) q = Some (File d m s) \<and> take 6 d = LUKS_MAGIC))"
proof -
  have "only_headers slots (map components paths) w w'"
    using wpD [OF wp_destroy_header_backups [OF assms(1,2)] assms(4)] .
  moreover have "header_node n \<Longrightarrow> \<exists>d m s. n = File d m s \<and> take 6 d = LUKS_MAGIC" for n
    by (cases n) (simp_all add: header_node_def)
  ultimately show ?thesis
    using assms(3) unfolding only_headers_def by auto
qed

text \<open>A disk with a header backup below \<open>/b\<close> and another file next to it.\<close>

definition backup_disk :: fs where
  "backup_disk =
    [([''/''], Dir 493), ([''/'', ''b''], Dir 493),
     ([''/'', ''b'', ''h''], File (LUKS_MAGIC @ ''rest'') 384 True),
     ([''/'', ''b'', ''k''], File ''keep'' 384 True)]"

theorem only_header_backups_removed_witness:
  "\<exists>r w'. destroy_header_backups [''/b''] (machine backup_disk (\<lambda>d. [0]) \<lparr>w_exec := working_tools\<rparr>) = (r, w') \<and>
    fs_get (w_vis w') [''/'', ''b'', ''k''] = Some (File ''keep'' 384 True)"
proof -
  let ?w = "machine backup_disk (\<lambda>d. [0]) \<lparr>w_exec := working_tools\<rparr>" and ?k = "[''/'', ''b'', ''k'']"
  obtain r w' where run: "destroy_header_backups [''/b''] ?w = (r, w')" by (cases "destroy_header_backups [''/b''] ?w")
  have tools: "tools_ok listed (w_exec ?w)" by (simp add: working_tools_ok)
  have fs: "normal_fs (w_vis ?w)"
    by (simp add: normal_fs_def backup_disk_def normal_def is_absolute_def)
  have "normal ?k" by (simp add: normal_def is_absolute_def)
  from only_header_backups_removed [OF tools fs this run]
  have "fs_get (w_vis w') ?k = fs_get (w_vis ?w) ?k"
    by (auto simp: backup_disk_def LUKS_MAGIC_def)
  then show ?thesis using run by (auto simp: backup_disk_def)
qed

end
