(* ===== verification/Erase.thy ===== *)
theory Erase
  imports Backups
begin

text \<open>
  \<open>ds-erase\<close>: the command line, the guard, \<open>--fire\<close>, \<open>--resume\<close> and the journaled transaction. The
  transaction is the three \<open>if journal.phase == ..\<close> blocks of \<open>run_transaction\<close>, one definition each.
\<close>

section \<open>Command line\<close>

text \<open>The value after the first occurrence of a flag, whatever it is.\<close>

fun flag :: "string list \<Rightarrow> string \<Rightarrow> string option" where
  "flag [] name = None"
| "flag (a # as) name = (if a = name then (case as of [] \<Rightarrow> None | v # _ \<Rightarrow> Some v) else flag as name)"

fun args_multi :: "string list \<Rightarrow> string \<Rightarrow> string list" where
  "args_multi [] name = []"
| "args_multi [a] name = []"
| "args_multi (a # v # as) name = (if a = name then v # args_multi as name else args_multi (v # as) name)"

definition slot_flag :: "string list \<Rightarrow> string \<Rightarrow> u8 option res" where
  "slot_flag args name =
    (case flag args name of
       None \<Rightarrow> Ok None
     | Some s \<Rightarrow> rbind (some_or (''bad '' @ name) (parse_word s)) (\<lambda>n. Ok (Some n)))"

definition read_recorded_slot :: "string \<Rightarrow> ('x, u8) io" where
  "read_recorded_slot name =
    bnd (ask (\<lambda>w. components (state_dir w @ ''/'' @ name))) (\<lambda>p.
    bnd (ctx ''protected slot record is unavailable'' (read_to_string p)) (\<lambda>text.
    lift (some_or ''invalid protected slot record'' (parse_word (trim text)))))"

definition parse_mode :: "string list \<Rightarrow> ('x, erase_mode \<times> u8 option \<times> u8 option) io" where
  "parse_mode args =
    bnd (lift (slot_flag args ''--slot'')) (\<lambda>slot.
    bnd (lift (slot_flag args ''--recovery-slot'')) (\<lambda>recovery.
    case flag args ''--mode'' of
      None \<Rightarrow>
        if slot \<noteq> None \<or> recovery \<noteq> None then bail ''slot flags require an explicit --mode killslot''
        else
          bnd (read_recorded_slot ''daily.slot'') (\<lambda>daily.
          bnd (read_recorded_slot ''recovery.slot'') (\<lambda>rec.
          bnd (lift (validate_mode_slots KillSlot (Some daily) (Some rec))) (\<lambda>_.
          ret (KillSlot, Some daily, Some rec))))
    | Some m \<Rightarrow>
        bnd (if m = ''killslot'' then ret KillSlot
             else if m = ''erase'' then
               (if ''--destroy-recovery'' \<in> set args then ret EraseAll
                else bail ''full erase also destroys recovery; repeat with --destroy-recovery to acknowledge'')
             else bail ''unknown --mode'') (\<lambda>mode.
        bnd (case mode of
               KillSlot \<Rightarrow>
                 (case recovery of
                    Some r \<Rightarrow> ret (Some r)
                  | None \<Rightarrow> bnd (read_recorded_slot ''recovery.slot'') (\<lambda>r. ret (Some r)))
             | EraseAll \<Rightarrow> ret recovery) (\<lambda>rec.
        bnd (lift (validate_mode_slots mode slot rec)) (\<lambda>_.
        ret (mode, slot, rec))))))"

section \<open>Guards\<close>

definition guard :: "('x, unit) io" where
  "guard =
    bnd (path_exists (components DISPOSABLE_MARKER)) (\<lambda>present.
    require present ''SAFETY GUARD: This machine is not marked disposable. Refusing to fire.'')"

definition configured_target :: "('x, string option) io" where
  "configured_target =
    bnd (ask (\<lambda>w. components (state_dir w @ ''/target.device''))) (\<lambda>p.
    bnd (attempt (read_to_string p)) (\<lambda>r.
    ret (case r of Inl _ \<Rightarrow> None | Inr s \<Rightarrow> if trim s = [] then None else Some (trim s))))"

definition validate_target :: "string \<Rightarrow> ('x, unit) io" where
  "validate_target device =
    bnd (lift (validate_text_field ''device'' device)) (\<lambda>_.
    bnd (ctx ''resolve target'' (canonicalize (components device))) (\<lambda>path.
    bnd (require (prefix (components ''/dev/'') path) ''target must resolve below /dev'') (\<lambda>_.
    bnd (ctx ''stat target'' (metadata path)) (\<lambda>meta.
    bnd (require (meta = BlockDev) ''target is not a block device'') (\<lambda>_.
    bnd (run_cmd ''cryptsetup'' [''isLuks'', device] []) (\<lambda>c.
    bnd (lift (cmd_status ''cryptsetup isLuks'' c)) (\<lambda>ok.
    require ok ''target is not a valid LUKS container'')))))))"

definition test_no_poweroff :: "string list \<Rightarrow> ('x, bool) io" where
  "test_no_poweroff args = ask (\<lambda>w. ''--test-no-poweroff'' \<in> set args \<and> test_mode w)"

section \<open>Powering off\<close>

fun links_down :: "path list \<Rightarrow> ('x, unit) io" where
  "links_down [] = ret ()"
| "links_down (e # es) =
    (let name = last e in
     if name \<noteq> ''lo'' then
       bnd (run_cmd ''ip'' [''link'', ''set'', ''dev'', name, ''down''] []) (\<lambda>_. links_down es)
     else links_down es)"

definition quiesce_network_and_sessions :: "('x, unit) io" where
  "quiesce_network_and_sessions =
    bnd (run_cmd ''nmcli'' [''networking'', ''off''] []) (\<lambda>_.
    bnd (attempt (read_dir (components ''/sys/class/net''))) (\<lambda>r.
    bnd (case r of Inr entries \<Rightarrow> links_down entries | Inl _ \<Rightarrow> ret ()) (\<lambda>_.
    bnd (run_cmd ''loginctl'' [''terminate-seat'', ''seat0''] []) (\<lambda>_. ret ()))))"

definition request_poweroff :: "('x, unit) io" where
  "request_poweroff =
    bnd (run_cmd ''systemctl'' [''poweroff'', ''--force'', ''--force''] []) (\<lambda>c.
    if cmd_success c then ret ()
    else
      bnd (run_cmd ''poweroff'' [''-f''] []) (\<lambda>c.
      if cmd_success c then ret ()
      else bail ''keyslots destroyed but forced poweroff request failed; journal retained for retry''))"

section \<open>The transaction\<close>

definition verify_keyslot_outcome :: "journal \<Rightarrow> ('x, unit) io" where
  "verify_keyslot_outcome j =
    (case j_mode j of
       KillSlot \<Rightarrow>
         bnd (lift (some_or ''killslot journal missing daily slot'' (j_slot j))) (\<lambda>daily.
         bnd (lift (some_or ''killslot journal missing recovery slot'' (j_recovery_slot j))) (\<lambda>rec.
         bnd (keyslot_active (j_device j) daily) (\<lambda>active.
         bnd (require (\<not> active) ''daily slot remains active after destruction attempt'') (\<lambda>_.
         bnd (keyslot_active (j_device j) rec) (\<lambda>active.
         require active ''recovery slot is not active after daily-slot destruction'')))))
     | EraseAll \<Rightarrow>
         bnd (active_keyslots (j_device j)) (\<lambda>n.
         require (n = 0) ''full erase returned with active keyslots remaining''))"

definition backups_stage ::
  "(journal \<Rightarrow> string option) \<Rightarrow> path \<Rightarrow> journal \<Rightarrow> ('x, journal) io" where
  "backups_stage to_json path j =
    (if j_phase j = Prepared then
       bnd (destroy_header_backups (j_header_scan j)) (\<lambda>_.
       let j' = j\<lparr>j_phase := BackupsHandled\<rparr> in
       bnd (write_journal to_json path j') (\<lambda>_. ret j'))
     else ret j)"

definition destroy_keyslots :: "journal \<Rightarrow> ('x, unit) io" where
  "destroy_keyslots j =
    (case j_mode j of
       KillSlot \<Rightarrow>
         bnd (lift (some_or ''killslot journal missing slot'' (j_slot j))) (\<lambda>slot.
         bnd (lift (some_or ''killslot journal missing recovery slot'' (j_recovery_slot j))) (\<lambda>rec.
         bnd (keyslot_active (j_device j) rec) (\<lambda>active.
         bnd (require active ''verified recovery slot is not active; refusing daily-slot destruction'') (\<lambda>_.
         bnd (keyslot_active (j_device j) slot) (\<lambda>active.
         if active then luks_kill_slot (j_device j) slot else ret ())))))
     | EraseAll \<Rightarrow>
         bnd (active_keyslots (j_device j)) (\<lambda>n.
         if n > 0 then luks_erase (j_device j) else ret ()))"

definition keyslots_stage ::
  "(journal \<Rightarrow> string option) \<Rightarrow> path \<Rightarrow> journal \<Rightarrow> ('x, journal) io" where
  "keyslots_stage to_json path j =
    (if j_phase j = BackupsHandled then
       bnd (destroy_keyslots j) (\<lambda>_.
       bnd (verify_keyslot_outcome j) (\<lambda>_.
       let j' = j\<lparr>j_phase := KeyslotsDestroyed\<rparr> in
       bnd (write_journal to_json path j') (\<lambda>_. ret j')))
     else ret j)"

definition finish_stage :: "path \<Rightarrow> journal \<Rightarrow> bool \<Rightarrow> ('x, unit) io" where
  "finish_stage path j no_poweroff =
    (if j_phase j = KeyslotsDestroyed then
       bnd (verify_keyslot_outcome j) (\<lambda>_.
       if no_poweroff then remove_journal path
       else
         bnd quiesce_network_and_sessions (\<lambda>_.
         bnd (case j_map_name j of
                Some name \<Rightarrow> bnd (run_cmd ''cryptsetup'' [''close'', name] []) (\<lambda>_. ret ())
              | None \<Rightarrow> ret ()) (\<lambda>_.
         bnd request_poweroff (\<lambda>_.
         remove_journal path))))
     else ret ())"

definition run_transaction ::
  "(journal \<Rightarrow> string option) \<Rightarrow> path \<Rightarrow> journal \<Rightarrow> bool \<Rightarrow> ('x, unit) io" where
  "run_transaction to_json path j no_poweroff =
    bnd (backups_stage to_json path j) (\<lambda>j.
    bnd (keyslots_stage to_json path j) (\<lambda>j.
    finish_stage path j no_poweroff))"

section \<open>\<open>--fire\<close> and \<open>--resume\<close>\<close>

definition fire :: "(journal \<Rightarrow> string option) \<Rightarrow> string list \<Rightarrow> ('x, unit) io" where
  "fire to_json args =
    bnd guard (\<lambda>_.
    bnd (case flag args ''--device'' of Some d \<Rightarrow> ret (Some d) | None \<Rightarrow> configured_target) (\<lambda>dev.
    bnd (lift (some_or ''--fire needs --device <dev> or a configured target.device'' dev)) (\<lambda>device.
    bnd (validate_target device) (\<lambda>_.
    bnd (parse_mode args) (\<lambda>(mode, slot, rec).
    let journal_path = components (case flag args ''--journal'' of Some p \<Rightarrow> p | None \<Rightarrow> DEFAULT_JOURNAL) in
    bnd (lift (validate_journal_path journal_path)) (\<lambda>_.
    bnd (path_exists journal_path) (\<lambda>there.
    bnd (require (\<not> there) ''journal already exists; use --resume --journal'') (\<lambda>_.
    let given = args_multi args ''--header-scan'';
        scan = (if given = [] then [journal_dir journal_path] else given) in
    bnd (validate_scan_roots journal_path scan) (\<lambda>_.
    let journal = \<lparr>j_version = JOURNAL_VERSION, j_phase = Prepared, j_device = device, j_mode = mode,
          j_slot = slot, j_recovery_slot = rec, j_map_name = flag args ''--map-name'', j_header_scan = scan\<rparr> in
    bnd (lift (case j_map_name journal of Some name \<Rightarrow> validate_map_name name | None \<Rightarrow> Ok ())) (\<lambda>_.
    bnd (write_journal to_json journal_path journal) (\<lambda>_.
    bnd (test_no_poweroff args) (\<lambda>np.
    run_transaction to_json journal_path journal np))))))))))))"

definition need_slot :: "string list \<Rightarrow> string \<Rightarrow> u8 res" where
  "need_slot args name =
    rbind (some_or (''--resume requires '' @ name) (flag args name)) (\<lambda>s. some_or (''bad '' @ name) (parse_word s))"

definition resume ::
  "(journal \<Rightarrow> string option) \<Rightarrow> (string \<Rightarrow> journal option) \<Rightarrow> string list \<Rightarrow> ('x, unit) io" where
  "resume to_json of_json args =
    bnd guard (\<lambda>_.
    bnd (lift (some_or ''--resume requires --journal <ESP-state/inprogress>'' (flag args ''--journal''))) (\<lambda>path.
    bnd (lift (some_or ''--resume requires --expected-device'' (flag args ''--expected-device''))) (\<lambda>expected_device.
    bnd (lift (need_slot args ''--expected-slot'')) (\<lambda>expected_slot.
    bnd (lift (need_slot args ''--expected-recovery-slot'')) (\<lambda>expected_recovery_slot.
    bnd (lift (validate_mode_slots KillSlot (Some expected_slot) (Some expected_recovery_slot))) (\<lambda>_.
    let journal_path = components path in
    bnd (lift (validate_journal_path journal_path)) (\<lambda>_.
    bnd (read_journal of_json journal_path) (\<lambda>journal.
    bnd (require (j_mode journal = KillSlot \<and> j_slot journal = Some expected_slot \<and>
        j_recovery_slot journal = Some expected_recovery_slot)
      ''journal mode/daily/recovery slots do not match the trusted boot expectation'') (\<lambda>_.
    bnd (ctx ''resolve journal device'' (canonicalize (components (j_device journal)))) (\<lambda>jd.
    bnd (ctx ''resolve expected device'' (canonicalize (components expected_device))) (\<lambda>ed.
    bnd (require (jd = ed) ''journal device does not match the trusted boot target'') (\<lambda>_.
    bnd (case flag args ''--map-name'' of
           None \<Rightarrow> ret ()
         | Some name \<Rightarrow>
             bnd (lift (validate_map_name name)) (\<lambda>_.
             require (j_map_name journal = Some name)
               ''journal mapping name does not match the trusted boot configuration'')) (\<lambda>_.
    bnd (validate_target (j_device journal)) (\<lambda>_.
    bnd (test_no_poweroff args) (\<lambda>np.
    run_transaction to_json journal_path journal np)))))))))))))))"

text \<open>
  \<open>run\<close> and \<open>main\<close>: the exit code. \<open>--self-test\<close> is an argument: it exercises the definitions above on
  a loop device of its own, and is defined after them, in \<open>Erase_Selftest\<close>.
\<close>

definition erase_run ::
  "(journal \<Rightarrow> string option) \<Rightarrow> (string \<Rightarrow> journal option) \<Rightarrow> ('x, unit) io \<Rightarrow> string list \<Rightarrow> ('x, nat) io" where
  "erase_run to_json of_json self_test args =
    bnd (ask test_mode) (\<lambda>tm.
    if ''--test-no-poweroff'' \<in> set args \<and> \<not> tm
    then bail ''--test-no-poweroff requires a debug build with DS_TEST_MODE=1; no action taken''
    else
      (case args of
         [] \<Rightarrow> ret 2
       | a # _ \<Rightarrow>
           if a = ''--check'' then bnd (attempt guard) (\<lambda>_. ret 0)
           else if a = ''--self-test'' then bnd self_test (\<lambda>_. ret 0)
           else if a = ''--resume'' then bnd (resume to_json of_json args) (\<lambda>_. ret 0)
           else if a = ''--fire'' then bnd (fire to_json args) (\<lambda>_. ret 0)
           else ret 2))"

definition erase_main ::
  "(journal \<Rightarrow> string option) \<Rightarrow> (string \<Rightarrow> journal option) \<Rightarrow> ('x, unit) io \<Rightarrow> string list \<Rightarrow> ('x, nat) io" where
  "erase_main to_json of_json self_test args =
    bnd (attempt (erase_run to_json of_json self_test args)) (\<lambda>r.
    ret (case r of Inl _ \<Rightarrow> 1 | Inr code \<Rightarrow> code))"

end
