(* ===== verification/Erase_Safety.thy ===== *)
theory Erase_Safety
  imports Erase
begin

text \<open>
  What no run of \<open>ds-erase\<close> can do, whatever system call fails and wherever the power is cut: destroy
  the recovery slot, destroy more than the daily slot without \<open>--destroy-recovery\<close>, or do anything on
  a machine that is not marked disposable. Since every schedule of faults is covered, each statement
  holds at every moment of a run.
\<close>

section \<open>Keyslots only disappear, and only the given ones\<close>

definition spares :: "('x \<Rightarrow> string \<Rightarrow> u8 set) \<Rightarrow> u8 set \<Rightarrow> 'x world \<Rightarrow> 'x world \<Rightarrow> bool" where
  "spares slots K w w' \<longleftrightarrow>
    (tools_ok slots (w_exec w) \<longrightarrow>
      w_exec w' = w_exec w \<and>
      (\<forall>d. slots (w_ext w) d - K \<subseteq> slots (w_ext w') d \<and> slots (w_ext w') d \<subseteq> slots (w_ext w) d))"

interpretation sparing: step_relation "spares slots K" for slots :: "'x \<Rightarrow> string \<Rightarrow> u8 set" and K
proof
  fix u v w :: "'x world" and ss
  show "spares slots K w w" by (simp add: spares_def)
  show "spares slots K u w" if uv: "spares slots K u v" and vw: "spares slots K v w"
    unfolding spares_def
  proof (intro impI conjI allI)
    assume t: "tools_ok slots (w_exec u)"
    have e: "w_exec v = w_exec u" using uv t by (simp add: spares_def)
    show "w_exec w = w_exec u" using vw t e by (simp add: spares_def)
    fix d
    have "slots (w_ext u) d - K \<subseteq> slots (w_ext v) d" "slots (w_ext v) d \<subseteq> slots (w_ext u) d"
      "slots (w_ext v) d - K \<subseteq> slots (w_ext w) d" "slots (w_ext w) d \<subseteq> slots (w_ext v) d"
      using uv vw t e by (simp_all add: spares_def)
    then show "slots (w_ext u) d - K \<subseteq> slots (w_ext w) d" "slots (w_ext w) d \<subseteq> slots (w_ext u) d" by blast+
  qed
  show "spares slots K w (w\<lparr>w_sched := ss\<rparr>)" by (simp add: spares_def)
qed

lemma spares_trans: "spares slots K u v \<Longrightarrow> spares slots K v w \<Longrightarrow> spares slots K u w"
  by (rule sparing.trans)

lemma same_env_spares: "same_env w w' \<Longrightarrow> spares slots K w w'"
  by (simp add: same_env_def spares_def)

lemma spares_mono: "spares slots K w w' \<Longrightarrow> K \<subseteq> L \<Longrightarrow> spares slots L w w'"
  by (auto simp: spares_def)

lemma keeps_spares_mono: "keeps (spares slots K) m \<Longrightarrow> K \<subseteq> L \<Longrightarrow> keeps (spares slots L) m"
  by (rule keeps_weaken [OF _ spares_mono])

lemma keeps_spares_files: "keeps same_env m \<Longrightarrow> keeps (spares slots K) m"
  by (rule keeps_weaken [OF _ same_env_spares])

lemmas spares_file_ops = keeps_file_ops [THEN keeps_spares_files] keeps_or_remove [THEN keeps_spares_files]

lemma keeps_spares_run_cmd:
  assumes "\<And>v u x c v' u' x' ex. tools_ok slots ex \<Longrightarrow> ex prog args inp (v, u, x) = (c, v', u', x') \<Longrightarrow>
    (\<forall>d. slots x d - K \<subseteq> slots x' d \<and> slots x' d \<subseteq> slots x d)"
  shows "keeps (spares slots K) (run_cmd prog args inp)"
  unfolding keeps_def
proof (intro allI wp_run_cmd)
  fix w :: "'a world" and ss c v u x
  assume ex: "w_exec w prog args inp (w_vis w, w_dur w, w_ext w) = (c, v, u, x)"
  have "tools_ok slots (w_exec w) \<Longrightarrow> \<forall>d. slots (w_ext w) d - K \<subseteq> slots x d \<and> slots x d \<subseteq> slots (w_ext w) d"
    using assms ex by blast
  then show "spares slots K w (w\<lparr>w_sched := ss, w_vis := v, w_dur := u, w_ext := x, w_log := w_log w @ [(prog, args, inp)]\<rparr>)"
    by (simp add: spares_def)
qed (simp_all add: spares_def)

lemma spares_harmless: "harmless prog args \<Longrightarrow> keeps (spares slots K) (run_cmd prog args inp)"
  by (rule keeps_spares_run_cmd) (auto simp: tools_ok_def harmless_law_def dest: spec)

lemma spares_kill: "k \<in> K \<Longrightarrow> keeps (spares slots K) (luks_kill_slot d k)"
proof -
  assume k: "k \<in> K"
  have "keeps (spares slots K) (run_cmd ''cryptsetup'' [''luksKillSlot'', ''--batch-mode'', d, show_word k] [])"
  proof (rule keeps_spares_run_cmd)
    fix v u x c v' u' x' and ex :: "'a exec"
    assume "tools_ok slots ex"
      and run: "ex ''cryptsetup'' [''luksKillSlot'', ''--batch-mode'', d, show_word k] [] (v, u, x) = (c, v', u', x')"
    then have "kill_law slots ex" by (simp add: tools_ok_def)
    from this [unfolded kill_law_def, rule_format, OF run] k
    show "\<forall>d. slots x d - K \<subseteq> slots x' d \<and> slots x' d \<subseteq> slots x d" by blast
  qed
  then show ?thesis unfolding luks_kill_slot_def by (intro sparing.keeps_bnd sparing.keeps_basic)
qed

lemma spares_erase: "keeps (spares slots UNIV) (luks_erase d)"
proof -
  have "keeps (spares slots UNIV) (run_cmd ''cryptsetup'' [''luksErase'', ''--batch-mode'', d] [])"
  proof (rule keeps_spares_run_cmd)
    fix v u x c v' u' x' and ex :: "'a exec"
    assume "tools_ok slots ex"
      and run: "ex ''cryptsetup'' [''luksErase'', ''--batch-mode'', d] [] (v, u, x) = (c, v', u', x')"
    then have "erase_law slots ex" by (simp add: tools_ok_def)
    from this [unfolded erase_law_def, rule_format, OF run]
    show "\<forall>d. slots x d - UNIV \<subseteq> slots x' d \<and> slots x' d \<subseteq> slots x d" by simp
  qed
  then show ?thesis unfolding luks_erase_def by (intro sparing.keeps_bnd sparing.keeps_basic)
qed

section \<open>The parts of a transaction\<close>

lemma spares_active: "keeps (spares slots K) (active_slot_set d)"
  unfolding active_slot_set_def
  by (intro sparing.keeps_bnd) (auto intro!: spares_harmless sparing.keeps_basic simp: harmless_def split: cmd.splits)

lemma spares_keyslot_active: "keeps (spares slots K) (keyslot_active d k)" "keeps (spares slots K) (active_keyslots d)"
  unfolding keyslot_active_def active_keyslots_def
  by (intro sparing.keeps_bnd spares_active sparing.keeps_basic)+

lemma spares_verify: "keeps (spares slots K) (verify_keyslot_outcome j)"
  unfolding verify_keyslot_outcome_def
  by (auto intro!: sparing.keeps_bnd spares_keyslot_active sparing.keeps_basic split: erase_mode.splits)

lemma spares_erase_header: "keeps (spares slots K) (erase_header_file p)"
  unfolding erase_header_file_def
  by (intro sparing.keeps_bnd)
    (auto intro!: spares_harmless sparing.keeps_basic spares_file_ops simp: harmless_def)

lemma spares_scan: "keeps (spares slots K) (scan_loop left n stack)"
proof (induction left arbitrary: n stack)
  case 0
  then show ?case by (cases stack) (auto intro!: sparing.keeps_basic)
next
  case (Suc left)
  then show ?case
    by (cases stack)
      (auto intro!: sparing.keeps_bnd sparing.keeps_basic spares_erase_header simp: is_luks_header_file_def
        split: sum.splits)
qed

lemma spares_backups: "keeps (spares slots K) (destroy_header_backups paths)"
  unfolding destroy_header_backups_def by (rule spares_scan)

lemma keeps_write_journal: "keeps same_env (write_journal to_json path j)"
  unfolding write_journal_def Let_def
  by (intro files.keeps_bnd files.keeps_basic keeps_file_ops keeps_or_remove)

lemma keeps_remove_journal: "keeps same_env (remove_journal path)"
  unfolding remove_journal_def
  by (intro files.keeps_bnd files.keeps_basic keeps_file_ops)
    (auto intro!: files.keeps_bnd files.keeps_basic keeps_file_ops split: sum.splits option.splits)

lemma spares_links_down: "keeps (spares slots K) (links_down es)"
  by (induction es) (auto intro!: sparing.keeps_bnd sparing.keeps_basic spares_harmless simp: harmless_def Let_def)

lemma spares_quiesce: "keeps (spares slots K) quiesce_network_and_sessions"
  unfolding quiesce_network_and_sessions_def
  by (auto intro!: sparing.keeps_bnd sparing.keeps_basic spares_harmless spares_links_down
      simp: harmless_def split: sum.splits)

lemma spares_poweroff: "keeps (spares slots K) request_poweroff"
  unfolding request_poweroff_def
  by (auto intro!: sparing.keeps_bnd sparing.keeps_basic spares_harmless simp: harmless_def)

text \<open>The keyslots a journal lets its transaction destroy.\<close>

definition doomed :: "journal \<Rightarrow> u8 set" where
  "doomed j = (case j_mode j of EraseAll \<Rightarrow> UNIV | KillSlot \<Rightarrow> set_option (j_slot j))"

lemma doomed_phase [simp]: "doomed (j\<lparr>j_phase := ph\<rparr>) = doomed j"
  by (cases "j_mode j") (simp_all add: doomed_def)

lemma spares_destroy: "keeps (spares slots (doomed j)) (destroy_keyslots j)"
proof (cases "j_mode j")
  case KillSlot
  show ?thesis
  proof (cases "j_slot j")
    case None
    then show ?thesis unfolding destroy_keyslots_def by (simp add: KillSlot sparing.keeps_basic)
  next
    case (Some k)
    then have "k \<in> doomed j" by (simp add: doomed_def KillSlot)
    then show ?thesis
      unfolding destroy_keyslots_def
      by (auto intro!: sparing.keeps_bnd sparing.keeps_basic spares_keyslot_active spares_kill simp: KillSlot Some)
  qed
next
  case EraseAll
  then show ?thesis
    unfolding destroy_keyslots_def
    by (auto intro!: sparing.keeps_bnd sparing.keeps_basic spares_keyslot_active spares_erase simp: doomed_def)
qed

lemma stage_journals:
  "backups_stage to_json path j w = (Ok j', w') \<Longrightarrow> \<exists>ph. j' = j\<lparr>j_phase := ph\<rparr>"
  "keyslots_stage to_json path j w = (Ok j', w') \<Longrightarrow> \<exists>ph. j' = j\<lparr>j_phase := ph\<rparr>"
proof -
  have same: "\<exists>ph. j = j\<lparr>j_phase := ph\<rparr>" by (rule exI [of _ "j_phase j"]) simp
  show "backups_stage to_json path j w = (Ok j', w') \<Longrightarrow> \<exists>ph. j' = j\<lparr>j_phase := ph\<rparr>"
    "keyslots_stage to_json path j w = (Ok j', w') \<Longrightarrow> \<exists>ph. j' = j\<lparr>j_phase := ph\<rparr>"
    using same
    by (auto simp: backups_stage_def keyslots_stage_def bnd_def ret_def Let_def split: prod.splits res.splits if_splits)
qed

lemma spares_stages:
  "keeps (spares slots {}) (backups_stage to_json path j)"
  "keeps (spares slots (doomed j)) (keyslots_stage to_json path j)"
  "keeps (spares slots {}) (finish_stage path j np)"
  unfolding backups_stage_def keyslots_stage_def finish_stage_def Let_def
  by (auto intro!: sparing.keeps_bnd sparing.keeps_basic spares_backups spares_destroy spares_verify spares_quiesce
      spares_poweroff keeps_write_journal [THEN keeps_spares_files] keeps_remove_journal [THEN keeps_spares_files]
      spares_harmless simp: harmless_def split: option.splits)

lemma spares_transaction: "keeps (spares slots (doomed j)) (run_transaction to_json path j np)"
  unfolding run_transaction_def
proof (intro sparing.keeps_bnd_dep)
  show "keeps (spares slots (doomed j)) (backups_stage to_json path j)"
    by (rule keeps_spares_mono [OF spares_stages(1)]) simp
  fix w1 j1 w1' assume "backups_stage to_json path j w1 = (Ok j1, w1')"
  then obtain ph where j1: "j1 = j\<lparr>j_phase := ph\<rparr>" using stage_journals(1) by blast
  show "keeps (spares slots (doomed j)) (keyslots_stage to_json path j1)"
    using spares_stages(2) [of slots j1] by (simp add: j1)
  fix w2 j2 w2'
  show "keeps (spares slots (doomed j)) (finish_stage path j2 np)"
    by (rule keeps_spares_mono [OF spares_stages(3)]) simp
qed

section \<open>What the checks establish\<close>

text \<open>The state of the container that a transaction aims at.\<close>

definition achieved :: "('x \<Rightarrow> string \<Rightarrow> u8 set) \<Rightarrow> journal \<Rightarrow> 'x world \<Rightarrow> bool" where
  "achieved slots j w \<longleftrightarrow>
    (case j_mode j of
       KillSlot \<Rightarrow>
         (\<exists>daily rec. j_slot j = Some daily \<and> j_recovery_slot j = Some rec \<and>
           daily \<notin> slots (w_ext w) (j_device j) \<and> rec \<in> slots (w_ext w) (j_device j))
     | EraseAll \<Rightarrow> slots (w_ext w) (j_device j) = {})"

lemma achieved_phase [simp]: "achieved slots (j\<lparr>j_phase := ph\<rparr>) w = achieved slots j w"
  by (cases "j_mode j") (simp_all add: achieved_def)

lemma spares_none:
  "spares slots {} w w' \<Longrightarrow> tools_ok slots (w_exec w) \<Longrightarrow>
    w_exec w' = w_exec w \<and> (\<forall>d. slots (w_ext w') d = slots (w_ext w) d)"
  by (auto simp: spares_def)

lemma wp_active:
  assumes tools: "tools_ok slots (w_exec w)"
  shows "wp (active_slot_set d) (\<lambda>r w'. spares slots {} w w' \<and> (\<forall>S. r = Ok S \<longrightarrow> S = slots (w_ext w) d)) w"
  by (rule wp_active_slot_set [OF tools]) (simp_all add: spares_def)

lemma wp_keyslot_active:
  assumes tools: "tools_ok slots (w_exec w)"
  shows "wp (keyslot_active d k) (\<lambda>r w'. spares slots {} w w' \<and>
    (\<forall>b. r = Ok b \<longrightarrow> b = (k \<in> slots (w_ext w) d))) w"
  unfolding keyslot_active_def by (rule wp_bndI [OF wp_active [OF tools]]) (auto simp: wp_rules)

lemma wp_active_keyslots:
  assumes tools: "tools_ok slots (w_exec w)"
  shows "wp (active_keyslots d) (\<lambda>r w'. spares slots {} w w' \<and>
    (\<forall>n. r = Ok n \<longrightarrow> n = card (slots (w_ext w) d))) w"
  unfolding active_keyslots_def by (rule wp_bndI [OF wp_active [OF tools]]) (auto simp: wp_rules)

lemma wp_verify:
  assumes tools: "tools_ok slots (w_exec w)"
  shows "wp (verify_keyslot_outcome j) (\<lambda>r w'. spares slots {} w w' \<and> (r = Ok () \<longrightarrow> achieved slots j w')) w"
proof (cases "j_mode j")
  case KillSlot
  show ?thesis
  proof (cases "j_slot j")
    case None
    then show ?thesis
      by (simp add: verify_keyslot_outcome_def KillSlot wp_rules sparing.refl)
  next
    case (Some daily)
    show ?thesis
    proof (cases "j_recovery_slot j")
      case None
      then show ?thesis
        by (simp add: verify_keyslot_outcome_def KillSlot \<open>j_slot j = Some daily\<close> wp_rules sparing.refl)
    next
      case (Some rec)
      let ?d = "j_device j"
      have "wp (bnd (keyslot_active ?d daily) (\<lambda>active.
          bnd (require (\<not> active) ''daily slot remains active after destruction attempt'') (\<lambda>_.
          bnd (keyslot_active ?d rec) (\<lambda>active.
          require active ''recovery slot is not active after daily-slot destruction''))))
          (\<lambda>r w'. spares slots {} w w' \<and> (r = Ok () \<longrightarrow> achieved slots j w')) w"
      proof (rule wp_bndI [OF wp_keyslot_active [OF tools]])
        fix a w1
        assume h: "spares slots {} w w1 \<and> (\<forall>b. Ok a = Ok b \<longrightarrow> b = (daily \<in> slots (w_ext w) ?d))"
        then have sp: "spares slots {} w w1" and a: "a = (daily \<in> slots (w_ext w) ?d)" by simp_all
        have t1: "tools_ok slots (w_exec w1)" using spares_none [OF sp tools] tools by simp
        show "wp (bnd (require (\<not> a) ''daily slot remains active after destruction attempt'') (\<lambda>_.
            bnd (keyslot_active ?d rec) (\<lambda>active.
            require active ''recovery slot is not active after daily-slot destruction'')))
            (\<lambda>r w'. spares slots {} w w' \<and> (r = Ok () \<longrightarrow> achieved slots j w')) w1"
        proof (rule wp_bnd_require)
          assume "\<not> a"
          show "wp (bnd (keyslot_active ?d rec) (\<lambda>active.
              require active ''recovery slot is not active after daily-slot destruction''))
              (\<lambda>r w'. spares slots {} w w' \<and> (r = Ok () \<longrightarrow> achieved slots j w')) w1"
          proof (rule wp_bndI [OF wp_keyslot_active [OF t1]])
            fix b w2
            assume h2: "spares slots {} w1 w2 \<and> (\<forall>b'. Ok b = Ok b' \<longrightarrow> b' = (rec \<in> slots (w_ext w1) ?d))"
            then have sp2: "spares slots {} w1 w2" and b: "b = (rec \<in> slots (w_ext w1) ?d)" by simp_all
            have "spares slots {} w w2" by (rule spares_trans [OF sp sp2])
            moreover have "b \<longrightarrow> achieved slots j w2"
              using a b \<open>\<not> a\<close> Some \<open>j_slot j = Some daily\<close> KillSlot spares_none [OF sp tools] spares_none [OF sp2 t1]
              by (simp add: achieved_def)
            ultimately show "wp (require b ''recovery slot is not active after daily-slot destruction'')
                (\<lambda>r w'. spares slots {} w w' \<and> (r = Ok () \<longrightarrow> achieved slots j w')) w2"
              by (simp add: wp_rules)
          qed (auto dest: spares_trans [OF sp])
        qed (use sp in simp)
      qed simp_all
      then show ?thesis
        by (simp add: verify_keyslot_outcome_def KillSlot \<open>j_slot j = Some daily\<close> Some)
    qed
  qed
next
  case EraseAll
  show ?thesis
    unfolding verify_keyslot_outcome_def EraseAll erase_mode.case
  proof (rule wp_bndI [OF wp_active_keyslots [OF tools]])
    fix n w'
    assume h: "spares slots {} w w' \<and> (\<forall>m. Ok n = Ok m \<longrightarrow> m = card (slots (w_ext w) (j_device j)))"
    have "slots (w_ext w') (j_device j) = slots (w_ext w) (j_device j)"
      using h spares_none [of slots w w'] tools by simp
    with h show "wp (require (n = 0) ''full erase returned with active keyslots remaining'')
        (\<lambda>r w'. spares slots {} w w' \<and> (r = Ok () \<longrightarrow> achieved slots j w')) w'"
      by (simp add: wp_rules achieved_def EraseAll)
  qed simp_all
qed

text \<open>With the recovery slot inactive the daily slot is not touched.\<close>

lemma wp_destroy_refused:
  assumes tools: "tools_ok slots (w_exec w)" and j: "j_mode j = KillSlot" "j_recovery_slot j = Some rec"
    and gone: "rec \<notin> slots (w_ext w) (j_device j)"
  shows "wp (destroy_keyslots j) (\<lambda>r w'. spares slots {} w w' \<and> (\<forall>u. r \<noteq> Ok u)) w"
proof (cases "j_slot j")
  case None
  then show ?thesis by (simp add: destroy_keyslots_def j wp_rules sparing.refl)
next
  case (Some daily)
  have "wp (bnd (keyslot_active (j_device j) rec) (\<lambda>active.
      bnd (require active ''verified recovery slot is not active; refusing daily-slot destruction'') (\<lambda>_.
      bnd (keyslot_active (j_device j) daily) (\<lambda>active.
      if active then luks_kill_slot (j_device j) daily else ret ()))))
      (\<lambda>r w'. spares slots {} w w' \<and> (\<forall>u. r \<noteq> Ok u)) w"
    by (rule wp_bndI [OF wp_keyslot_active [OF tools]]) (simp_all add: wp_bnd [of "require _ _"] wp_require gone wp_rules)
  then show ?thesis by (simp add: destroy_keyslots_def j Some)
qed

lemma wp_transaction_refused:
  assumes tools: "tools_ok slots (w_exec w)" and j: "j_mode j = KillSlot" "j_recovery_slot j = Some rec"
    and gone: "rec \<notin> slots (w_ext w) (j_device j)"
  shows "wp (run_transaction to_json path j np) (\<lambda>_ w'. spares slots {} w w') w"
  unfolding run_transaction_def
proof (rule wp_bndI)
  show "wp (backups_stage to_json path j) (\<lambda>r w'. spares slots {} w w' \<and> (\<forall>j1. r = Ok j1 \<longrightarrow> (\<exists>ph. j1 = j\<lparr>j_phase := ph\<rparr>))) w"
    unfolding wp_iff using stage_journals(1) keepsD [OF spares_stages(1)] by blast
  fix j1 w1
  assume "spares slots {} w w1 \<and> (\<forall>j2. Ok j1 = Ok j2 \<longrightarrow> (\<exists>ph. j2 = j\<lparr>j_phase := ph\<rparr>))"
  then obtain ph where sp: "spares slots {} w w1" and j1: "j1 = j\<lparr>j_phase := ph\<rparr>" by auto
  have t1: "tools_ok slots (w_exec w1)" "rec \<notin> slots (w_ext w1) (j_device j1)"
      "j_mode j1 = KillSlot" "j_recovery_slot j1 = Some rec"
    using spares_none [OF sp tools] tools gone j by (simp_all add: j1)
  have "wp (keyslots_stage to_json path j1) (\<lambda>_ w'. spares slots {} w w') w1"
  proof (cases "j_phase j1 = BackupsHandled")
    case True
    show ?thesis
      unfolding keyslots_stage_def if_P [OF True]
      by (rule wp_bndI [OF wp_destroy_refused [OF t1(1) t1(3,4,2)]]) (auto dest: spares_trans [OF sp])
  qed (simp add: keyslots_stage_def wp_rules sp)
  then show "wp (bnd (keyslots_stage to_json path j1) (\<lambda>j. finish_stage path j np)) (\<lambda>_ w'. spares slots {} w w') w1"
  proof (rule wp_bndI)
    fix j2 w2 assume "spares slots {} w w2"
    note sp2 = this
    show "wp (finish_stage path j2 np) (\<lambda>_ w'. spares slots {} w w') w2"
      unfolding wp_iff by (auto dest!: keepsD [OF spares_stages(3)] spares_trans [OF sp2])
  qed
qed auto

section \<open>The outcome of a transaction that returns \<open>Ok\<close>\<close>

lemma achieved_spares: "achieved slots j w \<Longrightarrow> spares slots {} w w' \<Longrightarrow> tools_ok slots (w_exec w) \<Longrightarrow> achieved slots j w'"
  using spares_none [of slots w w'] by (cases "j_mode j") (simp_all add: achieved_def)

lemma achieved_same_env: "same_env w w' \<Longrightarrow> achieved slots j w' \<longleftrightarrow> achieved slots j w"
  by (cases "j_mode j") (simp_all add: achieved_def same_env_def)

lemma wp_remove_journal: "wp (remove_journal p) (\<lambda>r w'. r = Ok () \<longrightarrow> fs_get (w_vis w') p = None) w"
proof -
  let ?k = "\<lambda>r. case r of
      Inl e \<Rightarrow> if e = NotFound then ret () else bail ''remove journal''
    | Inr _ \<Rightarrow>
        (case parent_of p of
           Some parent \<Rightarrow> bnd (open_dir parent) (\<lambda>_. sync_dir parent)
         | None \<Rightarrow> ret ())"
  let ?Q = "\<lambda>r w'. r = Ok () \<longrightarrow> fs_get (w_vis w') p = None"
  have sync: "wp (open_dir d) (then_post (\<lambda>_. sync_dir d) ?Q) v" if "fs_get (w_vis v) p = None" for d and v :: "'a world"
    by (rule wp_open_dir) (use that in \<open>auto simp: wp_rules intro!: wp_sync_dir\<close>)
  show ?thesis
    unfolding remove_journal_def wp_bnd wp_attempt remove_file_def
    by (rule wp_sysI)
      (auto simp: wp_rules sync split: option.splits node.splits)
qed

lemma stage_phases:
  "backups_stage to_json path j w = (Ok j', w') \<Longrightarrow> j_phase j' \<noteq> Prepared"
  "keyslots_stage to_json path j w = (Ok j', w') \<Longrightarrow> j_phase j \<noteq> Prepared \<Longrightarrow> j_phase j' = KeyslotsDestroyed"
  by (cases "j_phase j"; auto simp: backups_stage_def keyslots_stage_def bnd_def ret_def Let_def
      split: prod.splits res.splits if_splits)+

lemma wp_finish:
  assumes tools: "tools_ok slots (w_exec w)" and ph: "j_phase j = KeyslotsDestroyed"
  shows "wp (finish_stage path j np) (\<lambda>r w'. r = Ok () \<longrightarrow> achieved slots j w' \<and> fs_get (w_vis w') path = None) w"
  unfolding finish_stage_def if_P [OF ph]
proof (rule wp_bndI [OF wp_verify [OF tools]])
  let ?Q = "\<lambda>r w'. r = Ok () \<longrightarrow> achieved slots j w' \<and> fs_get (w_vis w') path = None"
  fix a w1
  assume "spares slots {} w w1 \<and> (Ok a = Ok () \<longrightarrow> achieved slots j w1)"
  then have ach: "achieved slots j w1" and t1: "tools_ok slots (w_exec w1)"
    using spares_none [of slots w w1] tools by simp_all
  have remove: "wp (remove_journal path) ?Q v" if "achieved slots j v" for v
    unfolding wp_iff
    using that wpD [OF wp_remove_journal] achieved_same_env [OF keepsD [OF keeps_remove_journal]] by blast
  let ?off = "bnd quiesce_network_and_sessions (\<lambda>_.
      bnd (case j_map_name j of Some name \<Rightarrow> bnd (run_cmd ''cryptsetup'' [''close'', name] []) (\<lambda>_. ret ())
        | None \<Rightarrow> ret ()) (\<lambda>_. bnd request_poweroff (\<lambda>_. remove_journal path)))"
  have step: "wp (bnd m f) ?Q v"
    if "keeps (spares slots {}) m" "achieved slots j v" "tools_ok slots (w_exec v)"
      "\<And>b v'. achieved slots j v' \<Longrightarrow> tools_ok slots (w_exec v') \<Longrightarrow> wp (f b) ?Q v'"
    for m :: "('a, unit) io" and f v
  proof (rule wp_bndI [OF wp_keeps [OF that(1)]])
    fix b v' assume sp: "spares slots {} v v'"
    show "wp (f b) ?Q v'"
      by (rule that(4)) (use achieved_spares [OF that(2) sp that(3)] spares_none [OF sp that(3)] that(3) in simp_all)
  qed simp_all
  have "wp ?off ?Q w1"
    by (rule step [OF spares_quiesce ach t1], rule step, auto split: option.splits
        intro!: sparing.keeps_bnd sparing.keeps_basic spares_harmless step spares_poweroff remove simp: harmless_def)
  then show "wp (if np then remove_journal path else ?off) ?Q w1"
    using remove [OF ach] by simp
qed simp_all

lemma wp_transaction_outcome:
  assumes tools: "tools_ok slots (w_exec w)"
  shows "wp (run_transaction to_json path j np)
    (\<lambda>r w'. r = Ok () \<longrightarrow> achieved slots j w' \<and> fs_get (w_vis w') path = None) w"
  unfolding wp_iff run_transaction_def
proof (intro allI impI)
  fix r w'
  assume run: "bnd (backups_stage to_json path j) (\<lambda>j. bnd (keyslots_stage to_json path j) (\<lambda>j. finish_stage path j np)) w = (r, w')"
    and "r = Ok ()"
  then obtain j1 w1 j2 w2 where b: "backups_stage to_json path j w = (Ok j1, w1)"
    and k: "keyslots_stage to_json path j1 w1 = (Ok j2, w2)" and f: "finish_stage path j2 np w2 = (Ok (), w')"
    by (auto simp: bnd_def split: prod.splits res.splits)
  obtain p1 p2 where j1: "j1 = j\<lparr>j_phase := p1\<rparr>" and j2: "j2 = j1\<lparr>j_phase := p2\<rparr>"
    using stage_journals b k by blast
  have t1: "tools_ok slots (w_exec w1)"
    using spares_none [OF keepsD [OF spares_stages(1) b] tools] tools by simp
  have t2: "tools_ok slots (w_exec w2)"
    using keepsD [OF spares_stages(2) k] t1 by (auto simp: spares_def)
  from wpD [OF wp_finish [OF t2 stage_phases(2) [OF k stage_phases(1) [OF b]]] f]
  show "achieved slots j w' \<and> fs_get (w_vis w') path = None" by (simp add: j2 j1)
qed

section \<open>The guard, the arguments, and a whole run\<close>

lemma wp_guard:
  assumes "look (w_vis w) (components DISPOSABLE_MARKER) = None"
  shows "wp guard (\<lambda>r w'. (\<forall>u. r \<noteq> Ok u) \<and> only_sched w w') w"
  unfolding guard_def path_exists_def wp_bnd
  by (rule wp_probe) (use assms in \<open>auto simp: wp_rules only_sched_def\<close>)

lemma spares_guard: "keeps (spares slots {}) guard"
  unfolding guard_def by (intro sparing.keeps_bnd sparing.keeps_basic)

lemma spares_recorded: "keeps (spares slots K) (read_recorded_slot name)"
  unfolding read_recorded_slot_def by (intro sparing.keeps_bnd sparing.keeps_basic)

lemma spares_parse_mode: "keeps (spares slots K) (parse_mode args)"
  unfolding parse_mode_def
  by (auto intro!: sparing.keeps_bnd sparing.keeps_basic spares_recorded split: option.splits erase_mode.splits)

lemma spares_validate_target: "keeps (spares slots K) (validate_target device)"
  unfolding validate_target_def
  by (auto intro!: sparing.keeps_bnd sparing.keeps_basic spares_harmless simp: harmless_def)

lemma spares_reading: "keeps only_sched m \<Longrightarrow> keeps (spares slots K) m"
  by (rule keeps_weaken [of only_sched]) (auto simp: only_sched_def spares_def)

lemma spares_configured: "keeps (spares slots K) configured_target"
  unfolding configured_target_def by (intro sparing.keeps_bnd sparing.keeps_basic)

lemma parse_mode_Ok:
  assumes "parse_mode args w = (Ok (mode, slot, rec), w')"
  shows "slots_valid mode slot rec \<and>
    (mode = EraseAll \<longrightarrow> flag args ''--mode'' = Some ''erase'' \<and> ''--destroy-recovery'' \<in> set args)"
  using assms
  by (auto simp: parse_mode_def bnd_def lift_def ret_def bail_def fail_def validate_mode_slots_Ok
      split: prod.splits res.splits option.splits if_splits erase_mode.splits)

text \<open>At most one keyslot number is ever lost.\<close>

definition loses_one :: "('x \<Rightarrow> string \<Rightarrow> u8 set) \<Rightarrow> 'x world \<Rightarrow> 'x world \<Rightarrow> bool" where
  "loses_one slots w w' \<longleftrightarrow> (\<exists>k. spares slots {k} w w')"

lemma loses_one_refl [simp]: "loses_one slots w w"
  by (simp add: loses_one_def sparing.refl)

lemma wp_bnd_loses:
  assumes "keeps (spares slots {}) m"
    and "\<And>a w1. m w = (Ok a, w1) \<Longrightarrow> wp (f a) (\<lambda>_. loses_one slots w1) w1"
  shows "wp (bnd m f) (\<lambda>_. loses_one slots w) w"
proof (cases "m w")
  case (Pair r w1)
  have sp: "spares slots {} w w1" by (rule keepsD [OF assms(1) Pair])
  then have lo: "loses_one slots w w1" unfolding loses_one_def by (blast intro: spares_mono)
  show ?thesis
  proof (cases r)
    case (Ok a)
    have "wp (f a) (\<lambda>_. loses_one slots w1) w1" using assms(2) Pair Ok by blast
    then have "wp (f a) (\<lambda>_. loses_one slots w) w1"
    proof (rule wp_mono)
      fix r2 w2 assume "loses_one slots w1 w2"
      then obtain k where "spares slots {k} w1 w2" by (auto simp: loses_one_def)
      moreover have "spares slots {k} w w1" by (rule spares_mono [OF sp]) simp
      ultimately show "loses_one slots w w2" unfolding loses_one_def using spares_trans by blast
    qed
    then show ?thesis using Pair Ok by (simp add: wp_def bnd_def)
  qed (use Pair lo in \<open>simp_all add: wp_def bnd_def\<close>)
qed

lemma wp_transaction_loses:
  assumes "doomed j \<subseteq> {k}"
  shows "wp (run_transaction to_json path j np) (\<lambda>_. loses_one slots w) w"
  unfolding loses_one_def
  by (rule wp_mono [OF wp_keeps [OF keeps_spares_mono [OF spares_transaction assms]]]) blast

lemma spares_path_exists: "keeps (spares slots K) (path_exists p)"
  by (rule sparing.keeps_path_exists)

lemma wp_fire_loses:
  assumes "''--destroy-recovery'' \<notin> set args"
  shows "wp (fire to_json args) (\<lambda>_. loses_one slots w) w"
  unfolding fire_def
proof (rule wp_bnd_loses [OF spares_guard], rule wp_bnd_loses, goal_cases)
  case 1
  show ?case by (auto intro: sparing.keeps_basic spares_configured split: option.splits)
next
  case (2 _ w1 dev w2)
  show ?case
  proof (rule wp_bnd_loses, goal_cases)
    case 1 show ?case by (rule sparing.keeps_basic)
  next
    case (2 device w3)
    show ?case
    proof (rule wp_bnd_loses [OF spares_validate_target], rule wp_bnd_loses [OF spares_parse_mode], goal_cases)
      case (1 _ w4 m w5)
      obtain mode slot rec where m: "m = (mode, slot, rec)" by (cases m)
      have kill: "mode = KillSlot" "slots_valid mode slot rec"
        using parse_mode_Ok 1(2) assms m by (cases mode; blast)+
      then obtain k where k: "slot = Some k" by (auto simp: slots_valid_def)
      show ?case
        unfolding m prod.case Let_def
        by (intro wp_bnd_loses sparing.keeps_basic keeps_validate_scan_roots [THEN spares_reading]
            keeps_write_journal [THEN keeps_spares_files] wp_transaction_loses [of _ k])
          (simp_all add: test_no_poweroff_def doomed_def kill(1) k sparing.keeps_basic)
    qed
  qed
qed

lemma wp_transaction_loses_kill:
  assumes "j_mode j = KillSlot"
  shows "wp (run_transaction to_json path j np) (\<lambda>_. loses_one slots w) w"
proof (rule wp_transaction_loses)
  show "doomed j \<subseteq> {the (j_slot j)}" by (cases "j_slot j") (simp_all add: doomed_def assms)
qed

lemma wp_resume_loses: "wp (resume to_json of_json args) (\<lambda>_. loses_one slots w) w"
proof -
  have map_check: "keeps (spares slots {}) (case flag args ''--map-name'' of
      None \<Rightarrow> ret ()
    | Some name \<Rightarrow> bnd (lift (validate_map_name name)) (\<lambda>_. require (j_map_name j = Some name) m))" for j m
    by (auto intro!: sparing.keeps_bnd sparing.keeps_basic split: option.splits)
  show ?thesis
    unfolding resume_def Let_def
    by (intro wp_bnd_loses spares_guard sparing.keeps_basic keeps_read_journal [THEN spares_reading] map_check
        spares_validate_target wp_transaction_loses_kill)
      (simp_all add: test_no_poweroff_def require_Ok sparing.keeps_basic)
qed

end
