(* ===== verification/Erase_Claims.thy ===== *)
theory Erase_Claims
  imports Erase_Safety
begin

text \<open>
  The properties of \<open>ds-erase\<close>: what a transaction, a \<open>--resume\<close> and a whole run may and may not do to
  the keyslots, to the disk and to the journal, at every moment of the run.
\<close>

section \<open>Examples\<close>

text \<open>A container with slots \<open>0\<close> and \<open>1\<close>, on a disk with the ESP directory of the journal.\<close>

definition boot_disk :: fs where
  "boot_disk =
    [([''/''], Dir 493), ([''/'', ''boot''], Dir 493), ([''/'', ''boot'', ''deathstroke''], Dir 448),
     ([''/'', ''dev''], Dir 493), ([''/'', ''dev'', ''sda''], BlockDev)]"

definition sample_journal :: journal where
  "sample_journal =
    \<lparr>j_version = 1, j_phase = Prepared, j_device = ''/dev/sda'', j_mode = KillSlot, j_slot = Some 0,
     j_recovery_slot = Some 1, j_map_name = None, j_header_scan = []\<rparr>"

abbreviation sample_path :: path where
  "sample_path \<equiv> [''/'', ''boot'', ''deathstroke'', ''inprogress'']"

abbreviation two_slots :: "(string \<Rightarrow> u8 list) world" where
  "two_slots \<equiv> machine boot_disk (\<lambda>d. [0, 1]) \<lparr>w_exec := working_tools\<rparr>"

text \<open>The same, marked disposable.\<close>

definition ready_disk :: fs where
  "ready_disk = boot_disk @ [(components DISPOSABLE_MARKER, File [] 420 True)]"
abbreviation ready_slots :: "(string \<Rightarrow> u8 list) world" where
  "ready_slots \<equiv> machine ready_disk (\<lambda>d. [0, 1]) \<lparr>w_exec := working_tools\<rparr>"

definition fire_args :: "string list" where
  "fire_args = [''--fire'', ''--device'', ''/dev/sda'', ''--mode'', ''killslot'', ''--slot'', ''0'', ''--recovery-slot'', ''1'',
     ''--journal'', ''/boot/deathstroke/inprogress'']"

lemma ready_run: "fst (erase_main (\<lambda>j. Some ''{}'') (\<lambda>s. None) (ret ()) fire_args ready_slots) = Ok 0"
  by code_simp

section \<open>The recovery slot survives\<close>

text \<open>
  C1. A KillSlot transaction, started from any phase of its journal, can take no keyslot but the daily
  one from any container, whatever system call or command fails and wherever the power is cut; when
  the recovery slot is not active to begin with, it takes none at all.
\<close>

theorem transaction_spares_recovery:
  assumes "tools_ok slots (w_exec w)"
    and "j_mode j = KillSlot" "j_slot j = Some daily" "j_recovery_slot j = Some rec" "daily \<noteq> rec"
    and run: "run_transaction to_json path j np w = (r, w')"
  shows "slots (w_ext w) d - {daily} \<subseteq> slots (w_ext w') d \<and> slots (w_ext w') d \<subseteq> slots (w_ext w) d \<and>
    (rec \<in> slots (w_ext w) d \<longrightarrow> rec \<in> slots (w_ext w') d) \<and>
    (rec \<notin> slots (w_ext w) (j_device j) \<longrightarrow> slots (w_ext w') d = slots (w_ext w) d)"
proof -
  have sp: "spares slots {daily} w w'"
    using keepsD [OF spares_transaction run] assms by (simp add: doomed_def)
  have "rec \<notin> slots (w_ext w) (j_device j) \<Longrightarrow> spares slots {} w w'"
    using wpD [OF wp_transaction_refused run] assms by blast
  then show ?thesis using sp assms(1,5) unfolding spares_def by blast
qed

theorem transaction_spares_recovery_witness:
  "\<exists>r w'. run_transaction (\<lambda>j. Some ''{}'') sample_path sample_journal True two_slots = (r, w') \<and>
    1 \<in> listed (w_ext w') ''/dev/sda''"
proof -
  let ?w = two_slots
  obtain r w' where run: "run_transaction (\<lambda>j. Some ''{}'') sample_path sample_journal True ?w = (r, w')"
    by (metis surj_pair)
  have "tools_ok listed (w_exec ?w)" by (simp add: working_tools_ok)
  from transaction_spares_recovery [OF this _ _ _ _ run, of 0 1 "''/dev/sda''"] run show ?thesis
    by (auto simp: sample_journal_def listed_def)
qed

text \<open>
  C16. What \<open>Ok\<close> means: a transaction that returns \<open>Ok\<close> has verified its outcome. After KillSlot the
  daily slot of the device is gone and the recovery slot is active, after EraseAll no slot is left, and
  the journal file is gone.
\<close>

theorem transaction_outcome:
  assumes "tools_ok slots (w_exec w)" and "run_transaction to_json path j np w = (Ok (), w')"
  shows "(case j_mode j of
      KillSlot \<Rightarrow> \<exists>daily rec. j_slot j = Some daily \<and> j_recovery_slot j = Some rec \<and>
        daily \<notin> slots (w_ext w') (j_device j) \<and> rec \<in> slots (w_ext w') (j_device j)
    | EraseAll \<Rightarrow> slots (w_ext w') (j_device j) = {}) \<and>
    fs_get (w_vis w') path = None"
  using wpD [OF wp_transaction_outcome [OF assms(1)] assms(2)] by (simp add: achieved_def)

lemma sample_transaction_ok:
  "\<exists>w'. run_transaction (\<lambda>j. Some ''{}'') sample_path sample_journal True two_slots = (Ok (), w')"
proof -
  have "fst (run_transaction (\<lambda>j. Some ''{}'') sample_path sample_journal True two_slots) = Ok ()"
    by code_simp
  then show ?thesis by (metis prod.collapse)
qed

theorem transaction_outcome_witness:
  "\<exists>w'. run_transaction (\<lambda>j. Some ''{}'') sample_path sample_journal True two_slots = (Ok (), w') \<and>
    0 \<notin> listed (w_ext w') ''/dev/sda'' \<and> 1 \<in> listed (w_ext w') ''/dev/sda''"
proof -
  obtain w' where run: "run_transaction (\<lambda>j. Some ''{}'') sample_path sample_journal True two_slots = (Ok (), w')"
    using sample_transaction_ok by blast
  have "tools_ok listed (w_exec two_slots)" by (simp add: working_tools_ok)
  from transaction_outcome [OF this run] run show ?thesis
    by (auto simp: sample_journal_def)
qed

section \<open>A whole run\<close>

lemma loses_one_spares: "spares slots {} w w' \<Longrightarrow> loses_one slots w w'"
  unfolding loses_one_def by (blast intro: spares_mono)

lemma wp_main_loses:
  assumes "''--destroy-recovery'' \<notin> set args" and "take 1 args \<noteq> [''--self-test'']"
  shows "wp (erase_main to_json of_json self_test args) (\<lambda>_. loses_one slots w) w"
proof -
  have "wp (attempt guard) (\<lambda>_. loses_one slots w) w"
    by (rule wp_mono [OF wp_keeps [OF sparing.keeps_attempt [OF spares_guard]]]) (rule loses_one_spares)
  note check = wp_then_ret [OF this]
  have run: "wp (erase_run to_json of_json self_test args) (\<lambda>_. loses_one slots w) w"
  proof (cases args)
    case Nil
    show ?thesis unfolding Nil erase_run_def by (simp add: wp_rules)
  next
    case (Cons a as)
    then have a: "a \<noteq> ''--self-test''" using assms(2) by simp
    show ?thesis
      unfolding erase_run_def Cons list.case
      by (intro wp_bnd_ask wp_ifI check wp_then_ret wp_resume_loses wp_fire_loses)
        (use assms(1) a in \<open>simp_all add: wp_rules Cons\<close>)
  qed
  show ?thesis
    unfolding erase_main_def
    by (rule wp_bndI [of _ "\<lambda>_. loses_one slots w"])
      (rule wp_mono [OF run [THEN wp_attempt_any]], simp_all add: wp_rules)
qed

text \<open>
  C12. No run of \<open>ds-erase\<close> but \<open>--self-test\<close>, and without \<open>--destroy-recovery\<close> on its command line, whatever
  its other arguments, the journal it resumes and the faults it meets, takes more than one keyslot number
  away from the containers of the machine: a container with two active slots is never left with none.
  (\<open>--self-test\<close> kills and erases keyslots of a container of its own, see \<open>Erase_Selftest\<close>.)
\<close>

theorem main_loses_at_most_one:
  assumes "tools_ok slots (w_exec w)" and "''--destroy-recovery'' \<notin> set args"
    and "take 1 args \<noteq> [''--self-test'']"
    and run: "erase_main to_json of_json self_test args w = (r, w')"
  shows "\<exists>k. \<forall>d. slots (w_ext w) d - {k} \<subseteq> slots (w_ext w') d \<and> slots (w_ext w') d \<subseteq> slots (w_ext w) d"
  using wpD [OF wp_main_loses [OF assms(2,3)] run] assms(1) unfolding loses_one_def spares_def by blast

text \<open>A run of \<open>--fire\<close> against slot 0 that ends with success.\<close>

theorem main_loses_at_most_one_witness:
  "\<exists>w' k. erase_main (\<lambda>j. Some ''{}'') (\<lambda>s. None) (ret ()) fire_args ready_slots = (Ok 0, w') \<and>
    {0, 1} - {k} \<subseteq> listed (w_ext w') ''/dev/sda''"
proof -
  obtain w' where run: "erase_main (\<lambda>j. Some ''{}'') (\<lambda>s. None) (ret ()) fire_args ready_slots = (Ok 0, w')"
    using ready_run by (metis prod.collapse)
  have tools: "tools_ok listed (w_exec ready_slots)" by (simp add: working_tools_ok)
  have args: "''--destroy-recovery'' \<notin> set fire_args" "take 1 fire_args \<noteq> [''--self-test'']"
    by (simp_all add: fire_args_def)
  have "listed (w_ext ready_slots) ''/dev/sda'' = {0, 1}" by (simp add: listed_def)
  with main_loses_at_most_one [OF tools args run] run show ?thesis by metis
qed

section \<open>The guard and the arguments\<close>

text \<open>
  C28. On a machine without the disposable marker nothing happens: neither \<open>--fire\<close> nor \<open>--resume\<close>
  returns \<open>Ok\<close>, no command runs, no keyslot, file or durable entry changes.
\<close>

theorem guard_blocks:
  assumes "look (w_vis w) (components DISPOSABLE_MARKER) = None"
    and "fire to_json args w = (r, w') \<or> resume to_json of_json args w = (r, w')"
  shows "r \<noteq> Ok () \<and> w_vis w' = w_vis w \<and> w_dur w' = w_dur w \<and> w_ext w' = w_ext w \<and> w_log w' = w_log w"
proof -
  have "wp (bnd guard f) (\<lambda>r w'. r \<noteq> Ok () \<and> only_sched w w') w" for f :: "unit \<Rightarrow> ('a, unit) io"
    by (rule wp_bndI [OF wp_guard [OF assms(1)]]) auto
  then have "r \<noteq> Ok () \<and> only_sched w w'"
    using assms(2) wpD unfolding fire_def resume_def by blast
  then show ?thesis by (auto simp: only_sched_def)
qed

theorem guard_blocks_witness:
  "\<exists>r w'. fire (\<lambda>j. Some ''{}'') [''--fire'', ''--device'', ''/dev/sda''] two_slots = (r, w') \<and>
    r \<noteq> Ok () \<and> w_log w' = []"
proof -
  obtain r w' where run: "fire (\<lambda>j. Some ''{}'') [''--fire'', ''--device'', ''/dev/sda''] two_slots = (r, w')"
    by (metis surj_pair)
  have "look (w_vis two_slots) (components DISPOSABLE_MARKER) = None"
    by code_simp
  from guard_blocks [OF this] run show ?thesis by fastforce
qed

text \<open>
  What \<open>parse_mode\<close> lets through: KillSlot with two distinct slots in \<open>0..31\<close>, or EraseAll with no
  slot at all, and EraseAll only when \<open>--mode erase\<close> and \<open>--destroy-recovery\<close> are both given. Reading
  the arguments changes nothing on the machine.
\<close>

theorem parse_mode_sound:
  assumes "parse_mode args w = (Ok (mode, slot, rec), w')"
  shows "(case mode of
      KillSlot \<Rightarrow> \<exists>d r. slot = Some d \<and> rec = Some r \<and> d \<le> 31 \<and> r \<le> 31 \<and> d \<noteq> r
    | EraseAll \<Rightarrow> slot = None \<and> rec = None \<and>
        flag args ''--mode'' = Some ''erase'' \<and> ''--destroy-recovery'' \<in> set args) \<and>
    (\<exists>ss. w' = w\<lparr>w_sched := ss\<rparr>)"
proof -
  have "keeps only_sched (parse_mode args)"
    unfolding parse_mode_def read_recorded_slot_def
    by (auto intro!: reading.keeps_bnd reading.keeps_basic split: option.splits erase_mode.splits)
  from keepsD [OF this assms] parse_mode_Ok [OF assms] show ?thesis
    by (auto simp: only_sched_def slots_valid_def split: erase_mode.splits)
qed

theorem parse_mode_sound_witness:
  "parse_mode [''--mode'', ''killslot'', ''--slot'', ''0'', ''--recovery-slot'', ''31''] two_slots =
     (Ok (KillSlot, Some 0, Some 31), two_slots) \<and> (31 :: u8) \<le> 31 \<and> (0 :: u8) \<noteq> 31"
proof -
  have "parse_word ''0'' = Some (0 :: u8)" "parse_word ''31'' = Some (31 :: u8)" by code_simp+
  then have run: "parse_mode [''--mode'', ''killslot'', ''--slot'', ''0'', ''--recovery-slot'', ''31''] two_slots =
     (Ok (KillSlot, Some 0, Some 31), two_slots)"
    by (simp add: parse_mode_def slot_flag_def bnd_def lift_def ret_def validate_mode_slots_def)
  from parse_mode_sound [OF run] run show ?thesis by auto
qed

lemma spares_resume: "keeps (spares slots {k. need_slot args ''--expected-slot'' = Ok k \<and>
    need_slot args ''--expected-recovery-slot'' \<noteq> Ok k}) (resume to_json of_json args)"
  (is "keeps (spares slots ?K) _")
proof -
  have map_check: "keeps (spares slots ?K) (case flag args ''--map-name'' of
      None \<Rightarrow> ret ()
    | Some name \<Rightarrow> bnd (lift (validate_map_name name)) (\<lambda>_. require (j_map_name j = Some name) m))" for j m
    by (auto intro!: sparing.keeps_bnd sparing.keeps_basic split: option.splits)
  have trans: "keeps (spares slots ?K) (run_transaction to_json path j np)" if "doomed j \<subseteq> ?K" for path j np
    by (rule keeps_spares_mono [OF spares_transaction that])
  show ?thesis
    unfolding resume_def Let_def
    by (intro sparing.keeps_bnd_dep keeps_spares_mono [OF spares_guard] sparing.keeps_basic
        keeps_read_journal [THEN spares_reading] map_check spares_validate_target trans)
      (auto simp: test_no_poweroff_def require_Ok sparing.keeps_basic lift_def doomed_def
        validate_mode_slots_Ok slots_valid_def)
qed

text \<open>A machine whose destruction of slot 0 was interrupted, and the arguments of the boot that resumes it.\<close>

definition half_disk :: fs where
  "half_disk = ready_disk @ [(sample_path, File ''{}'' 384 True)]"
abbreviation half_slots :: "(string \<Rightarrow> u8 list) world" where
  "half_slots \<equiv> machine half_disk (\<lambda>d. [0, 1]) \<lparr>w_exec := working_tools\<rparr>"

definition expected_args :: "string list" where
  "expected_args = [''--resume'', ''--journal'', ''/boot/deathstroke/inprogress'', ''--expected-device'', ''/dev/sda'', ''--expected-slot'', ''0'', ''--expected-recovery-slot'', ''1'']"

lemma reads_calm:
  assumes "keeps only_sched m" "w_sched w = []" "fst (m w) = Ok a" "w_sched (snd (m w)) = []"
  shows "m w = (Ok a, w)"
proof -
  obtain r v where run: "m w = (r, v)" by fastforce
  obtain ss where "v = w\<lparr>w_sched := ss\<rparr>" using keepsD [OF assms(1) run] unfolding only_sched_def by blast
  then show ?thesis using assms(2-4) run by simp
qed

lemma sample_fields: "j_mode sample_journal = KillSlot" "j_slot sample_journal = Some 0" "j_recovery_slot sample_journal = Some 1"
  "j_device sample_journal = ''/dev/sda''" "j_map_name sample_journal = None" "j_version sample_journal = 1" "j_header_scan sample_journal = []"
  by (simp_all add: sample_journal_def)

lemma half_steps:
  "guard half_slots = (Ok (), half_slots)"
  "read_journal (\<lambda>s. Some sample_journal) sample_path half_slots = (Ok sample_journal, half_slots)"
  "canonicalize (components ''/dev/sda'') half_slots = (Ok (components ''/dev/sda''), half_slots)"
proof -
  show "guard half_slots = (Ok (), half_slots)"
    unfolding guard_def
    by (rule reads_calm, intro reading.keeps_bnd reading.keeps_basic, simp) code_simp+
  show "read_journal (\<lambda>s. Some sample_journal) sample_path half_slots = (Ok sample_journal, half_slots)"
  proof -
    have "fs_read sample_path half_slots = (Ok ''{}'', half_slots)"
      by (rule reads_calm, intro reading.keeps_basic, simp) code_simp+
    moreover have "validate_scan_roots sample_path [] half_slots = (Ok (), half_slots)"
      unfolding validate_scan_roots_def check_roots.simps
      by (rule reads_calm, intro reading.keeps_bnd reading.keeps_basic, simp) code_simp+
    moreover have "validate_mode_slots KillSlot (Some 0) (Some 1) = Ok ()" "validate_text_field ''device'' ''/dev/sda'' = Ok ()"
      "check_text_fields [] = Ok ()"
      by code_simp+
    ultimately show ?thesis
      by (simp add: read_journal_def bnd_def ctx_def require_def ret_def lift_def some_or_def sample_fields JOURNAL_VERSION_def)
  qed
  show "canonicalize (components ''/dev/sda'') half_slots = (Ok (components ''/dev/sda''), half_slots)"
    by (rule reads_calm, intro reading.keeps_basic, simp) code_simp+
qed

lemma expected_args_values: "need_slot expected_args ''--expected-slot'' = Ok 0" "need_slot expected_args ''--expected-recovery-slot'' = Ok 1"
  "flag expected_args ''--journal'' = Some ''/boot/deathstroke/inprogress''" "flag expected_args ''--expected-device'' = Some ''/dev/sda''"
  "flag expected_args ''--map-name'' = None" by code_simp+
lemma sample_path_ok: "validate_journal_path (components ''/boot/deathstroke/inprogress'') = Ok ()" "components ''/boot/deathstroke/inprogress'' = sample_path" by code_simp+

lemma half_target: "validate_target ''/dev/sda'' half_slots =
  (Ok (), half_slots\<lparr>w_log := [(''cryptsetup'', [''isLuks'', ''/dev/sda''], [])]\<rparr>)"
proof -
  have "metadata (components ''/dev/sda'') half_slots = (Ok BlockDev, half_slots)"
    by (rule reads_calm, intro reading.keeps_basic, simp) code_simp+
  moreover have "validate_text_field ''device'' ''/dev/sda'' = Ok ()" "prefix (components ''/dev/'') (components ''/dev/sda'')"
    by code_simp+
  ultimately show ?thesis
    unfolding validate_target_def bnd_def
    by (simp add: half_steps(3) lift_def require_def ret_def ctx_def run_cmd_def probe_def bnd_def cmd_status_def working_tools_def)
qed

lemma half_resumes:
  "\<exists>w'. resume (\<lambda>j. Some ''{}'') (\<lambda>s. Some sample_journal) expected_args half_slots = (Ok (), w')"
proof -
  let ?v = "half_slots\<lparr>w_log := [(''cryptsetup'', [''isLuks'', ''/dev/sda''], [])]\<rparr>"
  have "fst (run_transaction (\<lambda>j. Some ''{}'') sample_path sample_journal False ?v) = Ok ()" by code_simp
  then obtain w' where "run_transaction (\<lambda>j. Some ''{}'') sample_path sample_journal False ?v = (Ok (), w')"
    by (metis prod.collapse)
  moreover have "validate_mode_slots KillSlot (Some 0) (Some 1) = Ok ()" by code_simp
  ultimately show ?thesis
    using half_target expected_args_values sample_path_ok
    by (auto simp: resume_def bnd_def lift_def some_or_def Let_def half_steps require_def ret_def test_no_poweroff_def ask_def test_mode_def
       sample_fields ctx_def)
qed

text \<open>
  C21. A resumed transaction obeys the trusted boot configuration and not the journal: the only keyslot
  that any \<open>--resume\<close>, of any journal, can take away is the one named by \<open>--expected-slot\<close>, and the
  one named by \<open>--expected-recovery-slot\<close> is never among them.
\<close>

theorem resume_only_expected:
  assumes "tools_ok slots (w_exec w)" and "resume to_json of_json args w = (r, w')"
  shows "(k \<in> slots (w_ext w) d - slots (w_ext w') d \<longrightarrow> need_slot args ''--expected-slot'' = Ok k) \<and>
    (need_slot args ''--expected-recovery-slot'' = Ok k \<longrightarrow> k \<in> slots (w_ext w) d \<longrightarrow> k \<in> slots (w_ext w') d)"
  using keepsD [OF spares_resume assms(2)] assms(1) unfolding spares_def by blast

text \<open>The interrupted destruction is taken to its end: the slot that was expected is gone, the other is not.\<close>

theorem resume_only_expected_witness:
  "\<exists>w'. resume (\<lambda>j. Some ''{}'') (\<lambda>s. Some sample_journal) expected_args half_slots = (Ok (), w') \<and>
    1 \<in> listed (w_ext w') ''/dev/sda''"
proof -
  obtain w' where run: "resume (\<lambda>j. Some ''{}'') (\<lambda>s. Some sample_journal) expected_args half_slots = (Ok (), w')"
    using half_resumes by blast
  have tools: "tools_ok listed (w_exec half_slots)" by (simp add: working_tools_ok)
  have "1 \<in> listed (w_ext half_slots) ''/dev/sda''" by (simp add: listed_def)
  then show ?thesis
    using resume_only_expected [OF tools run, of 1 "''/dev/sda''"] run expected_args_values(2) by blast
qed

end
