(* ===== verification/Erase_Crash.thy ===== *)
theory Erase_Crash
  imports Erase_Claims
begin

text \<open>
  The journal of \<open>ds-erase\<close> across power cuts: what a boot finds after a transaction was interrupted
  anywhere is a complete journal of that transaction that claims no more than what has been done, so
  that resuming it is right; and resuming it without further faults completes it.
\<close>

section \<open>Writing the journal\<close>

definition journal_bytes :: "(journal \<Rightarrow> string option) \<Rightarrow> journal \<Rightarrow> string" where
  "journal_bytes to_json j = the (to_json j) @ [CHR 0x0A]"

lemma wp_journal_closure:
  assumes d: "parent_of p = Some d" "parent_of tmp = Some d" "tmp \<noteq> p"
    and dir: "\<exists>m. fs_get (w_vis w) d = Some (Dir m)" and json: "to_json j = Some data"
  shows "wp (bnd (ctx ''create journal temp'' (create_new tmp 438)) (\<lambda>_.
       bnd (ctx ''write journal'' (write_all tmp data)) (\<lambda>_.
       bnd (ctx ''finish journal'' (write_all tmp [CHR 0x0A])) (\<lambda>_.
       bnd (ctx ''fsync journal'' (sync_file tmp)) (\<lambda>_.
       bnd (ctx ''rename journal'' (rename_file tmp p)) (\<lambda>_.
       bnd (open_dir d) (\<lambda>_.
       ctx ''fsync journal directory'' (sync_dir d))))))))
    (replace_post d tmp p (File (journal_bytes to_json j) 438 True) w) w"
proof -
  have n: "tmp \<noteq> d" "d \<noteq> tmp" "p \<noteq> d" "d \<noteq> p" "p \<noteq> tmp" "tmp \<noteq> p" using d parent_of_neq by blast+
  show ?thesis
    unfolding wp_bnd wp_ctx
    apply (rule wp_create_new; (simp add: wp_rules replace_post_def frame_def n d dir; fail)?)
    apply (simp add: wp_rules)
    apply (rule wp_write_all; (simp add: wp_rules replace_post_def frame_def n d dir; fail)?)
    apply (simp add: wp_rules)
    apply (rule wp_write_all; (simp add: wp_rules replace_post_def frame_def n d dir; fail)?)
    apply (simp add: wp_rules)
    apply (rule wp_sync_file; (simp add: wp_rules replace_post_def frame_def n d dir; fail)?)
    apply (simp add: wp_rules)
    apply (rule wp_rename_file; (simp add: wp_rules replace_post_def frame_def n d dir; fail)?)
    apply (simp add: wp_rules)
    apply (rule wp_open_dir; (simp add: wp_rules replace_post_def frame_def n d dir json journal_bytes_def; fail)?)
    apply (simp add: wp_rules)
    apply (rule wp_sync_dir; (simp add: wp_rules replace_post_def frame_def n d dir json journal_bytes_def; fail)?)
    done
qed

lemma wp_write_journal:
  assumes anc: "anchored w path" and path: "path = d @ [''inprogress'']" "d \<noteq> []"
  shows "wp (write_journal to_json path j) (\<lambda>r w'. \<exists>tmp. parent_of tmp = Some d \<and> tmp \<noteq> path \<and>
    (only_sched w w' \<and> r \<noteq> Ok () \<or>
     to_json j \<noteq> None \<and> replace_post d tmp path (File (journal_bytes to_json j) 438 True) w r w')) w"
    (is "wp _ ?P w")
proof -
  have p: "parent_of path = Some d" using path by (simp add: parent_of_snoc)
  have below: "\<exists>m. fs_get (w_vis w) q = Some (Dir m)" if "prefix q d" "q \<noteq> []" for q
  proof -
    have "strict_prefix q path" using that path by (auto simp: strict_prefix_def)
    then show ?thesis using anc that by (simp add: anchored_def)
  qed
  have dir: "\<exists>m. fs_get (w_vis w) d = Some (Dir m)" using below path by blast
  define tmp where "tmp = d @ [''.inprogress.tmp.'' @ show_nat (w_pid w)]"
  have tmp: "parent_of tmp = Some d" "tmp \<noteq> path"
    using path by (simp_all add: parent_of_snoc tmp_def)
  have stay: "?P r (w\<lparr>w_sched := ss\<rparr>)" if "r \<noteq> Ok ()" for r ss
    using that tmp by (intro exI [of _ tmp]) (auto simp: only_sched_def)
  have mk: "wp (ctx ''create journal dir'' (create_dir_all d)) (\<lambda>_. only_sched w) w"
    unfolding wp_ctx
    by (rule wp_create_dir_all_present) (simp_all only: only_sched_def, blast+, rule below)
  show ?thesis
    unfolding write_journal_def p some_or_simps bnd_lift
  proof (rule wp_bndI [OF mk])
    fix a w' assume "only_sched w w'"
    then obtain ss where w': "w' = w\<lparr>w_sched := ss\<rparr>" by (auto simp: only_sched_def)
    have tmp': "d @ [''.inprogress.tmp.'' @ show_nat (w_pid w')] = tmp" by (simp add: w' tmp_def)
    show "wp (bnd (ask w_pid) (\<lambda>pid.
      let tmp = d @ [''.inprogress.tmp.'' @ show_nat pid]
      in bnd (lift (some_or ''serialize journal'' (to_json j))) (\<lambda>data.
         or_remove tmp
          (bnd (ctx ''create journal temp'' (create_new tmp 438)) (\<lambda>_.
           bnd (ctx ''write journal'' (write_all tmp data)) (\<lambda>_.
           bnd (ctx ''finish journal'' (write_all tmp [CHR 0x0A])) (\<lambda>_.
           bnd (ctx ''fsync journal'' (sync_file tmp)) (\<lambda>_.
           bnd (ctx ''rename journal'' (rename_file tmp path)) (\<lambda>_.
           bnd (open_dir d) (\<lambda>_.
           ctx ''fsync journal directory'' (sync_dir d)))))))))) ) ?P w'"
      unfolding Let_def
    proof (rule wp_bnd_ask, unfold tmp', rule wp_bnd_some, rule wp_mono)
      fix data assume json: "to_json j = Some data"
      show "wp (or_remove tmp
          (bnd (ctx ''create journal temp'' (create_new tmp 438)) (\<lambda>_.
           bnd (ctx ''write journal'' (write_all tmp data)) (\<lambda>_.
           bnd (ctx ''finish journal'' (write_all tmp [CHR 0x0A])) (\<lambda>_.
           bnd (ctx ''fsync journal'' (sync_file tmp)) (\<lambda>_.
           bnd (ctx ''rename journal'' (rename_file tmp path)) (\<lambda>_.
           bnd (open_dir d) (\<lambda>_.
           ctx ''fsync journal directory'' (sync_dir d)))))))))
          (replace_post d tmp path (File (journal_bytes to_json j) 438 True) w') w'"
        by (rule wp_or_remove [OF wp_journal_closure [where j = j and to_json = to_json]]) (use json tmp p dir w' in simp_all)
      fix r w2 assume "replace_post d tmp path (File (journal_bytes to_json j) 438 True) w' r w2"
      then have "replace_post d tmp path (File (journal_bytes to_json j) 438 True) w r w2"
        by (simp add: w' replace_post_def frame_def same_env_def)
      then show "?P r w2" using json tmp by blast
    qed (unfold w', rule stay, simp)
  qed (use tmp in \<open>auto simp: only_sched_def\<close>)
qed

section \<open>Steps that leave the disk alone\<close>

definition same_files :: "('x \<Rightarrow> string \<Rightarrow> u8 set) \<Rightarrow> 'x world \<Rightarrow> 'x world \<Rightarrow> bool" where
  "same_files slots w w' \<longleftrightarrow>
    (tools_ok slots (w_exec w) \<longrightarrow> w_exec w' = w_exec w \<and> w_vis w' = w_vis w \<and> w_dur w' = w_dur w)"

interpretation filing: step_relation "same_files slots" for slots :: "'x \<Rightarrow> string \<Rightarrow> u8 set"
  by unfold_locales (auto simp: same_files_def)

lemma same_files_run_cmd:
  assumes "\<And>v u x c v' u' x' ex. tools_ok slots ex \<Longrightarrow> ex prog args inp (v, u, x) = (c, v', u', x') \<Longrightarrow>
    v' = v \<and> u' = u"
  shows "keeps (same_files slots) (run_cmd prog args inp)"
  unfolding keeps_def
proof (intro allI wp_run_cmd)
  fix w :: "'a world" and ss c v u x
  assume ex: "w_exec w prog args inp (w_vis w, w_dur w, w_ext w) = (c, v, u, x)"
  have "tools_ok slots (w_exec w) \<Longrightarrow> v = w_vis w \<and> u = w_dur w"
    using assms ex by blast
  then show "same_files slots w (w\<lparr>w_sched := ss, w_vis := v, w_dur := u, w_ext := x, w_log := w_log w @ [(prog, args, inp)]\<rparr>)"
    by (simp add: same_files_def)
qed (simp_all add: same_files_def)

lemma same_files_harmless:
  assumes "harmless prog args" "prog \<noteq> ''shred''"
  shows "keeps (same_files slots) (run_cmd prog args inp)"
proof (rule same_files_run_cmd)
  fix v u x c v' u' x' and ex :: "'a exec"
  assume "tools_ok slots ex" and run: "ex prog args inp (v, u, x) = (c, v', u', x')"
  then have "harmless_law slots ex" by (simp add: tools_ok_def)
  from this [unfolded harmless_law_def, rule_format, OF run assms(1)] assms(2) show "v' = v \<and> u' = u" by simp
qed

lemma same_files_destroyers:
  "keeps (same_files slots) (run_cmd ''cryptsetup'' [''luksKillSlot'', ''--batch-mode'', d, show_word (k :: u8)] [])"
  "keeps (same_files slots) (run_cmd ''cryptsetup'' [''luksErase'', ''--batch-mode'', d] [])"
  by (rule same_files_run_cmd, auto simp: tools_ok_def kill_law_def erase_law_def dest: spec)+

lemma same_files_active: "keeps (same_files slots) (active_slot_set d)"
  unfolding active_slot_set_def
  by (intro filing.keeps_bnd) (auto intro!: same_files_harmless filing.keeps_basic simp: harmless_def split: cmd.splits)

lemma same_files_checks:
  "keeps (same_files slots) (keyslot_active d k)" "keeps (same_files slots) (active_keyslots d)"
  unfolding keyslot_active_def active_keyslots_def
  by (intro filing.keeps_bnd same_files_active filing.keeps_basic)+

lemma same_files_verify: "keeps (same_files slots) (verify_keyslot_outcome j)"
  unfolding verify_keyslot_outcome_def
  by (auto intro!: filing.keeps_bnd same_files_checks filing.keeps_basic split: erase_mode.splits)

lemma same_files_destroy: "keeps (same_files slots) (destroy_keyslots j)"
  unfolding destroy_keyslots_def luks_kill_slot_def luks_erase_def
  by (auto intro!: filing.keeps_bnd same_files_checks same_files_destroyers filing.keeps_basic split: erase_mode.splits)

lemma same_files_links: "keeps (same_files slots) (links_down es)"
  by (induction es) (auto intro!: filing.keeps_bnd filing.keeps_basic same_files_harmless simp: harmless_def Let_def)

lemma same_files_quiesce: "keeps (same_files slots) quiesce_network_and_sessions"
  unfolding quiesce_network_and_sessions_def
  by (auto intro!: filing.keeps_bnd filing.keeps_basic same_files_harmless same_files_links
      simp: harmless_def split: sum.splits)

lemma same_files_poweroff: "keeps (same_files slots) request_poweroff"
  unfolding request_poweroff_def
  by (auto intro!: filing.keeps_bnd filing.keeps_basic same_files_harmless simp: harmless_def)

section \<open>The journal never claims too much\<close>

text \<open>
  What the journal file of a transaction may hold at a moment \<open>w\<close>: a complete, synced journal of this
  transaction in some phase, and \<open>KeyslotsDestroyed\<close> only when the keyslots are as they should be; no
  file only when they are.
\<close>

definition recorded ::
  "('x \<Rightarrow> string \<Rightarrow> u8 set) \<Rightarrow> (journal \<Rightarrow> string option) \<Rightarrow> journal \<Rightarrow> 'x world \<Rightarrow> node option \<Rightarrow> bool" where
  "recorded slots to_json j w x \<longleftrightarrow>
    (case x of
       None \<Rightarrow> achieved slots j w
     | Some n \<Rightarrow>
         \<exists>ph m. to_json (j\<lparr>j_phase := ph\<rparr>) \<noteq> None \<and> n = File (journal_bytes to_json (j\<lparr>j_phase := ph\<rparr>)) m True \<and>
           (ph = KeyslotsDestroyed \<longrightarrow> achieved slots j w))"

definition truthful ::
  "('x \<Rightarrow> string \<Rightarrow> u8 set) \<Rightarrow> (journal \<Rightarrow> string option) \<Rightarrow> path \<Rightarrow> journal \<Rightarrow> 'x world \<Rightarrow> bool" where
  "truthful slots to_json path j w \<longleftrightarrow>
    tools_ok slots (w_exec w) \<and> anchored w path \<and>
    recorded slots to_json j w (fs_get (w_vis w) path) \<and> recorded slots to_json j w (fs_get (w_dur w) path)"

lemma recorded_phase [simp]: "recorded slots to_json (j\<lparr>j_phase := ph\<rparr>) w x = recorded slots to_json j w x"
  by (cases x) (simp_all add: recorded_def)

lemma truthful_phase [simp]: "truthful slots to_json path (j\<lparr>j_phase := ph\<rparr>) = truthful slots to_json path j"
  by (rule ext) (simp add: truthful_def)

lemma recorded_mono:
  "recorded slots to_json j w x \<Longrightarrow> (achieved slots j w \<Longrightarrow> achieved slots j w') \<Longrightarrow> recorded slots to_json j w' x"
  by (cases x) (auto simp: recorded_def)

lemma recorded_ext: "slots (w_ext w') = slots (w_ext w) \<Longrightarrow> recorded slots to_json j w' x = recorded slots to_json j w x"
  by (cases x; cases "j_mode j") (simp_all add: recorded_def achieved_def)

text \<open>What has been achieved stays so: only doomed slots go, and the recovery slot is not among them.\<close>

lemma achieved_mono:
  assumes "achieved slots j w" "spares slots (doomed j) w w'" "tools_ok slots (w_exec w)"
    and "slots_valid (j_mode j) (j_slot j) (j_recovery_slot j)"
  shows "achieved slots j w'"
proof -
  have "slots (w_ext w) (j_device j) - doomed j \<subseteq> slots (w_ext w') (j_device j) \<and>
      slots (w_ext w') (j_device j) \<subseteq> slots (w_ext w) (j_device j)"
    using assms(2,3) by (simp add: spares_def)
  then show ?thesis
    using assms(1,4) by (cases "j_mode j") (auto simp: achieved_def doomed_def slots_valid_def)
qed

lemma truthful_same_files:
  assumes t: "truthful slots to_json path j w" and sp: "spares slots (doomed j) w w'" and sf: "same_files slots w w'"
    and v: "slots_valid (j_mode j) (j_slot j) (j_recovery_slot j)"
  shows "truthful slots to_json path j w'"
proof -
  have tools: "tools_ok slots (w_exec w)" using t by (simp add: truthful_def)
  have "achieved slots j w \<Longrightarrow> achieved slots j w'" by (rule achieved_mono [OF _ sp tools v])
  with t sf tools recorded_mono show ?thesis
    by (simp add: truthful_def same_files_def anchored_def) blast
qed

lemma wp_truthful:
  assumes "truthful slots to_json path j w" "slots_valid (j_mode j) (j_slot j) (j_recovery_slot j)"
    and "keeps (spares slots (doomed j)) m" "keeps (same_files slots) m"
  shows "wp m (\<lambda>_. truthful slots to_json path j) w"
  using assms keepsD [OF assms(3)] keepsD [OF assms(4)] truthful_same_files unfolding wp_iff by blast

lemma wp_write_truthful:
  assumes t: "truthful slots to_json path j w" and path: "path = d @ [''inprogress'']" "d \<noteq> []"
    and ph: "ph = KeyslotsDestroyed \<Longrightarrow> achieved slots j w"
  shows "wp (write_journal to_json path (j\<lparr>j_phase := ph\<rparr>)) (\<lambda>_. truthful slots to_json path j) w"
proof (rule wp_mono [OF wp_write_journal [OF _ path]])
  show "anchored w path" using t by (simp add: truthful_def)
  fix r w'
  assume "\<exists>tmp. parent_of tmp = Some d \<and> tmp \<noteq> path \<and>
      (only_sched w w' \<and> r \<noteq> Ok () \<or>
       to_json (j\<lparr>j_phase := ph\<rparr>) \<noteq> None \<and>
       replace_post d tmp path (File (journal_bytes to_json (j\<lparr>j_phase := ph\<rparr>)) 438 True) w r w')"
  then obtain tmp where tmp: "parent_of tmp = Some d" "tmp \<noteq> path"
    and cases: "only_sched w w' \<or> to_json (j\<lparr>j_phase := ph\<rparr>) \<noteq> None \<and>
       replace_post d tmp path (File (journal_bytes to_json (j\<lparr>j_phase := ph\<rparr>)) 438 True) w r w'" by blast
  show "truthful slots to_json path j w'"
  proof (cases "only_sched w w'")
    case True
    then show ?thesis
      using t truthful_same_files [OF t] by (auto simp: only_sched_def truthful_def anchored_def recorded_def
          achieved_def split: option.splits erase_mode.splits)
  next
    case False
    let ?new = "File (journal_bytes to_json (j\<lparr>j_phase := ph\<rparr>)) 438 True"
    have json: "to_json (j\<lparr>j_phase := ph\<rparr>) \<noteq> None" and post: "replace_post d tmp path ?new w r w'"
      using cases False by auto
    have p: "parent_of path = Some d" using path by (simp add: parent_of_snoc)
    have env: "same_env w w'" using post by (simp add: replace_post_def frame_def)
    have keep: "recorded slots to_json j w x \<Longrightarrow> recorded slots to_json j w' x" for x
      using recorded_mono [of slots to_json j w x w'] achieved_same_env [OF env, of slots j] by blast
    have "recorded slots to_json j w' (Some ?new)"
      using json ph achieved_same_env [OF env] by (auto simp: recorded_def)
    with keep t post anchored_replace [OF _ post tmp(1) p] env show ?thesis
      by (auto simp: truthful_def replace_post_def same_env_def)
  qed
qed

text \<open>A serialised journal is a JSON object, so it does not look like a LUKS header to the scan.\<close>

definition json_objects :: "(journal \<Rightarrow> string option) \<Rightarrow> bool" where
  "json_objects to_json \<longleftrightarrow> (\<forall>j t. to_json j = Some t \<longrightarrow> prefix ''{'' t)"

lemma recorded_no_header:
  assumes "json_objects to_json" "recorded slots to_json j w (fs_get f path)"
  shows "fs_get f path = Some n \<Longrightarrow> \<not> header_node n"
  using assms
  by (force simp: recorded_def json_objects_def journal_bytes_def header_node_def LUKS_MAGIC_def prefix_def)

lemma normal_prefix: "normal p \<Longrightarrow> prefix q p \<Longrightarrow> q \<noteq> [] \<Longrightarrow> normal q"
  by (cases q) (auto simp: normal_def is_absolute_def prefix_def)

lemma truthful_only_headers:
  assumes t: "truthful slots to_json path j w" and oh: "only_headers slots roots w w'"
    and path: "normal path" and json: "json_objects to_json"
  shows "truthful slots to_json path j w'"
proof -
  have stays: "fs_get (w_vis w') q = fs_get (w_vis w) q \<and> fs_get (w_dur w') q = fs_get (w_dur w) q"
    if "normal q" "\<And>n. fs_get (w_vis w) q = Some n \<Longrightarrow> \<not> header_node n" for q
    using oh that unfolding only_headers_def by blast
  have "fs_get (w_vis w) path = Some n \<Longrightarrow> \<not> header_node n" for n
    by (rule recorded_no_header [OF json, of slots j w]) (use t in \<open>simp_all add: truthful_def\<close>)
  then have p: "fs_get (w_vis w') path = fs_get (w_vis w) path" "fs_get (w_dur w') path = fs_get (w_dur w) path"
    using stays [OF path] by simp_all
  have anc: "anchored w path" using t by (simp add: truthful_def)
  have "anchored w' path"
    unfolding anchored_def
  proof (intro allI impI)
    fix q assume q: "strict_prefix q path \<and> q \<noteq> []"
    then have "normal q" using normal_prefix [OF path] by (auto simp: strict_prefix_def)
    moreover obtain m u where d: "fs_get (w_vis w) q = Some (Dir m)" "fs_get (w_dur w) q = Some (Dir u)"
      using anc q unfolding anchored_def by blast
    ultimately have "fs_get (w_vis w') q = Some (Dir m) \<and> fs_get (w_dur w') q = Some (Dir u)"
      using stays [of q] by (simp add: header_node_def)
    then show "(\<exists>m. fs_get (w_vis w') q = Some (Dir m)) \<and> (\<exists>m. fs_get (w_dur w') q = Some (Dir m))" by blast
  qed
  moreover have "recorded slots to_json j w x \<Longrightarrow> recorded slots to_json j w' x" for x
    using oh recorded_ext [of slots w' w to_json j x] by (simp add: only_headers_def)
  ultimately show ?thesis using t p oh by (simp add: truthful_def only_headers_def same_user_def)
qed

text \<open>The journal of a transaction: its path, its slots and its serialisation.\<close>

definition proper :: "(journal \<Rightarrow> string option) \<Rightarrow> path \<Rightarrow> journal \<Rightarrow> bool" where
  "proper to_json path j \<longleftrightarrow>
    (\<exists>d. d \<noteq> [] \<and> path = d @ [''inprogress'']) \<and> normal path \<and> json_objects to_json \<and>
    slots_valid (j_mode j) (j_slot j) (j_recovery_slot j)"

lemma proper_phase [simp]: "proper to_json path (j\<lparr>j_phase := ph\<rparr>) = proper to_json path j"
  by (simp add: proper_def)

lemma wp_backups_truthful:
  assumes t: "truthful slots to_json path j w" and p: "proper to_json path j"
    and fs: "j_phase j = Prepared \<Longrightarrow> normal_fs (w_vis w)"
  shows "wp (backups_stage to_json path j) (\<lambda>_. truthful slots to_json path j) w"
proof (cases "j_phase j = Prepared")
  case True
  obtain d where d: "d \<noteq> []" "path = d @ [''inprogress'']" using p by (auto simp: proper_def)
  have tools: "tools_ok slots (w_exec w)" using t by (simp add: truthful_def)
  show ?thesis
    unfolding backups_stage_def if_P [OF True] Let_def
  proof (rule wp_bndI [OF wp_destroy_header_backups [OF tools fs [OF True]]])
    fix a w' assume "only_headers slots (map components (j_header_scan j)) w w'"
    then have t': "truthful slots to_json path j w'"
      using truthful_only_headers [OF t] p by (simp add: proper_def)
    show "wp (bnd (write_journal to_json path (j\<lparr>j_phase := BackupsHandled\<rparr>))
        (\<lambda>_. ret (j\<lparr>j_phase := BackupsHandled\<rparr>))) (\<lambda>_. truthful slots to_json path j) w'"
      by (rule wp_then_ret [OF wp_write_truthful [OF t' d(2,1)]]) simp
  qed (use truthful_only_headers [OF t] p in \<open>simp_all add: proper_def\<close>)
qed (use t in \<open>simp add: backups_stage_def wp_rules\<close>)

lemma wp_keyslots_truthful:
  assumes t: "truthful slots to_json path j w" and p: "proper to_json path j"
  shows "wp (keyslots_stage to_json path j) (\<lambda>_. truthful slots to_json path j) w"
proof (cases "j_phase j = BackupsHandled")
  case True
  obtain d where d: "d \<noteq> []" "path = d @ [''inprogress'']" using p by (auto simp: proper_def)
  have v: "slots_valid (j_mode j) (j_slot j) (j_recovery_slot j)" using p by (simp add: proper_def)
  show ?thesis
    unfolding keyslots_stage_def if_P [OF True] Let_def
  proof (rule wp_bndI [OF wp_truthful [OF t v spares_destroy same_files_destroy]])
    fix a w1 assume t1: "truthful slots to_json path j w1"
    then have tools: "tools_ok slots (w_exec w1)" by (simp add: truthful_def)
    show "wp (bnd (verify_keyslot_outcome j) (\<lambda>_. bnd (write_journal to_json path (j\<lparr>j_phase := KeyslotsDestroyed\<rparr>))
        (\<lambda>_. ret (j\<lparr>j_phase := KeyslotsDestroyed\<rparr>)))) (\<lambda>_. truthful slots to_json path j) w1"
    proof (rule wp_bndI)
      show "wp (verify_keyslot_outcome j)
          (\<lambda>r w'. truthful slots to_json path j w' \<and> (r = Ok () \<longrightarrow> achieved slots j w')) w1"
        using wp_truthful [OF t1 v spares_verify same_files_verify] wp_verify [OF tools]
        unfolding wp_iff by blast
      fix b w2
      assume "truthful slots to_json path j w2 \<and> (Ok b = Ok () \<longrightarrow> achieved slots j w2)"
      then show "wp (bnd (write_journal to_json path (j\<lparr>j_phase := KeyslotsDestroyed\<rparr>))
          (\<lambda>_. ret (j\<lparr>j_phase := KeyslotsDestroyed\<rparr>))) (\<lambda>_. truthful slots to_json path j) w2"
        by (intro wp_then_ret wp_write_truthful [OF _ d(2,1)]) simp_all
    qed simp_all
  qed simp_all
qed (use t in \<open>simp add: keyslots_stage_def wp_rules\<close>)

lemma truthful_sched [simp]: "truthful slots to_json path j (w\<lparr>w_sched := ss\<rparr>) = truthful slots to_json path j w"
  by (simp add: truthful_def anchored_def recorded_ext [of slots "w\<lparr>w_sched := ss\<rparr>" w])

lemma truthful_sync:
  assumes "truthful slots to_json path j w"
  shows "truthful slots to_json path j (w\<lparr>w_dur := sync_entries d (w_vis w) (w_dur w)\<rparr>)"
  using assms
  by (simp add: truthful_def anchored_def recorded_ext [of slots "w\<lparr>w_dur := sync_entries d (w_vis w) (w_dur w)\<rparr>" w])

lemma truthful_del:
  assumes "truthful slots to_json path j w" "achieved slots j w"
  shows "truthful slots to_json path j (w\<lparr>w_vis := fs_del path (w_vis w)\<rparr>)"
proof -
  have "recorded slots to_json j w None" using assms(2) by (simp add: recorded_def)
  then show ?thesis
    using assms(1)
    by (auto simp: truthful_def anchored_def recorded_ext [of slots "w\<lparr>w_vis := fs_del path (w_vis w)\<rparr>" w])
qed

lemma wp_remove_truthful:
  assumes t: "truthful slots to_json path j w" and a: "achieved slots j w"
  shows "wp (remove_journal path) (\<lambda>_. truthful slots to_json path j) w"
proof -
  let ?T = "truthful slots to_json path j"
  have sync: "wp (bnd (open_dir d) (\<lambda>_. sync_dir d)) (\<lambda>_. ?T) v" if "?T v" for d v
  proof -
    have s: "wp (sync_dir d) (\<lambda>_. ?T) v" if "?T v" for v
    proof (rule wp_sync_dir)
      fix ss show "?T (v\<lparr>w_sched := ss, w_dur := sync_entries d (w_vis v) (w_dur v)\<rparr>)"
        using truthful_sync [of slots to_json path j "v\<lparr>w_sched := ss\<rparr>" d] that by simp
    qed (simp_all add: that)
    show ?thesis
      by (rule wp_bndI [where R = "\<lambda>_. ?T"]) (auto intro!: wp_open_dir s simp: that)
  qed
  have gone: "?T (w\<lparr>w_sched := ss, w_vis := fs_del path (w_vis w)\<rparr>)" for ss
    using truthful_del [of slots to_json path j "w\<lparr>w_sched := ss\<rparr>"] t a
    by (simp add: achieved_same_env [of w "w\<lparr>w_sched := ss\<rparr>"])
  show ?thesis
    unfolding remove_journal_def
    by (rule wp_bndI [where R = "\<lambda>_. ?T"], rule wp_attempt_any, rule wp_remove_file)
      (auto simp: t gone wp_ret wp_bail intro!: sync split: sum.splits option.splits)
qed

text \<open>So every moment of a transaction is truthful.\<close>

lemma wp_finish_truthful:
  assumes t: "truthful slots to_json path j w" and p: "proper to_json path j"
  shows "wp (finish_stage path j np) (\<lambda>_. truthful slots to_json path j) w"
proof (cases "j_phase j = KeyslotsDestroyed")
  case True
  let ?T = "truthful slots to_json path j"
  let ?P = "\<lambda>w. ?T w \<and> achieved slots j w"
  have v: "slots_valid (j_mode j) (j_slot j) (j_recovery_slot j)" using p by (simp add: proper_def)
  have tools: "tools_ok slots (w_exec w)" using t by (simp add: truthful_def)
  have step: "wp m (\<lambda>_. ?P) v" if "?P v" "keeps (spares slots {}) m" "keeps (same_files slots) m"
    for m :: "('a, unit) io" and v
  proof -
    have "tools_ok slots (w_exec v)" using that by (simp add: truthful_def)
    then show ?thesis
      using that keepsD [OF that(2)] keepsD [OF that(3)] achieved_spares spares_mono
        truthful_same_files [OF _ _ _ v] unfolding wp_iff by blast
  qed
  have close: "keeps (spares slots {}) (case j_map_name j of
        Some name \<Rightarrow> bnd (run_cmd ''cryptsetup'' [''close'', name] []) (\<lambda>_. ret ()) | None \<Rightarrow> ret ())"
    "keeps (same_files slots) (case j_map_name j of
        Some name \<Rightarrow> bnd (run_cmd ''cryptsetup'' [''close'', name] []) (\<lambda>_. ret ()) | None \<Rightarrow> ret ())"
    by (auto intro!: sparing.keeps_bnd sparing.keeps_basic spares_harmless filing.keeps_bnd filing.keeps_basic
        same_files_harmless simp: harmless_def split: option.splits)
  have remove: "wp (remove_journal path) (\<lambda>_. ?T) v" if "?P v" for v
    using that wp_remove_truthful by blast
  show ?thesis
    unfolding finish_stage_def if_P [OF True]
  proof (rule wp_bndI)
    show "wp (verify_keyslot_outcome j) (\<lambda>r w'. ?T w' \<and> (r = Ok () \<longrightarrow> achieved slots j w')) w"
      using wp_truthful [OF t v spares_verify same_files_verify] wp_verify [OF tools]
      unfolding wp_iff by blast
    fix a w1 assume "?T w1 \<and> (Ok a = Ok () \<longrightarrow> achieved slots j w1)"
    then have w1: "?P w1" by simp
    show "wp (if np then remove_journal path
       else
         bnd quiesce_network_and_sessions (\<lambda>_.
         bnd (case j_map_name j of
                Some name \<Rightarrow> bnd (run_cmd ''cryptsetup'' [''close'', name] []) (\<lambda>_. ret ())
              | None \<Rightarrow> ret ()) (\<lambda>_.
         bnd request_poweroff (\<lambda>_.
         remove_journal path)))) (\<lambda>_. ?T) w1"
      by (intro wp_ifI remove w1 wp_bndI [OF step [OF _ spares_quiesce same_files_quiesce]]
          wp_bndI [OF step [OF _ close]] wp_bndI [OF step [OF _ spares_poweroff same_files_poweroff]])
        (simp_all add: w1)
  qed simp_all
qed (use t in \<open>simp add: finish_stage_def wp_rules\<close>)

lemma wp_transaction_truthful:
  assumes t: "truthful slots to_json path j w" and p: "proper to_json path j"
    and fs: "j_phase j = Prepared \<Longrightarrow> normal_fs (w_vis w)"
  shows "wp (run_transaction to_json path j np) (\<lambda>_. truthful slots to_json path j) w"
  unfolding run_transaction_def
proof (rule wp_bndI)
  let ?T = "truthful slots to_json path j"
  show "wp (backups_stage to_json path j) (\<lambda>r w'. ?T w' \<and> (\<forall>j1. r = Ok j1 \<longrightarrow> (\<exists>ph. j1 = j\<lparr>j_phase := ph\<rparr>))) w"
    unfolding wp_iff using stage_journals(1) wpD [OF wp_backups_truthful [OF t p fs]] by blast
  fix j1 w1 assume "?T w1 \<and> (\<forall>j2. Ok j1 = Ok j2 \<longrightarrow> (\<exists>ph. j2 = j\<lparr>j_phase := ph\<rparr>))"
  then obtain ph where t1: "?T w1" and j1: "j1 = j\<lparr>j_phase := ph\<rparr>" by auto
  show "wp (bnd (keyslots_stage to_json path j1) (\<lambda>j. finish_stage path j np)) (\<lambda>_. ?T) w1"
  proof (rule wp_bndI)
    have "wp (keyslots_stage to_json path j1) (\<lambda>_. truthful slots to_json path j1) w1"
      by (rule wp_keyslots_truthful) (simp_all add: j1 t1 p)
    then show "wp (keyslots_stage to_json path j1)
        (\<lambda>r w'. ?T w' \<and> (\<forall>j2. r = Ok j2 \<longrightarrow> (\<exists>ph. j2 = j\<lparr>j_phase := ph\<rparr>))) w1"
      unfolding wp_iff using stage_journals(2) by (fastforce simp: j1)
    fix j2 w2 assume "?T w2 \<and> (\<forall>j3. Ok j2 = Ok j3 \<longrightarrow> (\<exists>ph. j3 = j\<lparr>j_phase := ph\<rparr>))"
    then obtain ph2 where t2: "?T w2" and j2: "j2 = j\<lparr>j_phase := ph2\<rparr>" by auto
    have "wp (finish_stage path j2 np) (\<lambda>_. truthful slots to_json path j2) w2"
      by (rule wp_finish_truthful) (simp_all add: j2 t2 p)
    then show "wp (finish_stage path j2 np) (\<lambda>_. ?T) w2" by (simp add: j2)
  qed simp_all
qed simp_all

text \<open>
  C9. The journal is right at every boot: wherever a transaction is cut by a power loss, and whatever
  fails before, the journal file found after the reboot is either gone, and then the keyslots are as
  the transaction wanted them, or it is a complete journal of this transaction in one of its phases,
  and it says \<open>keyslots_destroyed\<close> only when the keyslots are as wanted. So a resume never skips a
  destruction that has not happened, and never reads a torn journal.
\<close>

theorem journal_never_ahead:
  assumes start: "truthful slots to_json path j w" "proper to_json path j" "normal_fs (w_vis w)"
    and run: "run_transaction to_json path j np w = (r, w1)" and cut: "reboot w1 w2"
  shows "case fs_get (w_vis w2) path of
      None \<Rightarrow> achieved slots j w2
    | Some n \<Rightarrow> \<exists>ph m. n = File (journal_bytes to_json (j\<lparr>j_phase := ph\<rparr>)) m True \<and>
        (ph = KeyslotsDestroyed \<longrightarrow> achieved slots j w2)"
proof -
  have t: "truthful slots to_json path j w1"
    using wpD [OF wp_transaction_truthful [OF start(1,2)] run] start(3) by blast
  have set: "settled x" if "recorded slots to_json j w1 x" for x
    using that by (cases x) (auto simp: recorded_def)
  have "recorded slots to_json j w1 (fs_get (w_vis w2) path)"
    using reboot_file(1) [OF cut, of path] t set by (auto simp: truthful_def)
  moreover have "w_ext w2 = w_ext w1" using cut by (simp add: reboot_def)
  ultimately have "recorded slots to_json j w2 (fs_get (w_vis w2) path)"
    using recorded_ext [of slots w2 w1] by simp
  then show ?thesis by (auto simp: recorded_def split: option.splits)
qed

text \<open>The example: the power fails as the first new journal is to be written.\<close>

definition sample_json :: "journal \<Rightarrow> string option" where
  "sample_json j = Some (case j_phase j of Prepared \<Rightarrow> ''{1}'' | BackupsHandled \<Rightarrow> ''{2}'' | KeyslotsDestroyed \<Rightarrow> ''{3}'')"

definition journal_disk :: fs where
  "journal_disk = (sample_path, File (journal_bytes sample_json sample_journal) 384 True) # boot_disk"

abbreviation begun :: "(string \<Rightarrow> u8 list) world" where
  "begun \<equiv> machine journal_disk (\<lambda>d. [0, 1]) \<lparr>w_exec := working_tools\<rparr>"

lemma journal_disk_sound: "sound_disk journal_disk" "normal_fs journal_disk" "normal sample_path"
  by (auto simp: sound_disk_def rooted_check journal_disk_def boot_disk_def normal_fs_def normal_def is_absolute_def
      settled_def split: if_splits)

lemma sample_proper: "proper sample_json sample_path sample_journal"
  using journal_disk_sound(3)
  by (auto simp: proper_def json_objects_def sample_json_def sample_journal_def slots_valid_def split: phase.splits)

lemma begun_truthful: "truthful listed sample_json sample_path sample_journal (begun\<lparr>w_sched := ss\<rparr>)"
proof -
  have "recorded listed sample_json sample_journal (begun\<lparr>w_sched := ss\<rparr>) (fs_get journal_disk sample_path)"
    by (auto simp: recorded_def journal_disk_def sample_json_def sample_journal_def intro!: exI [of _ Prepared])
  moreover have "anchored begun sample_path"
    using anchored_check [of journal_disk sample_path] by (simp add: rooted_check journal_disk_def boot_disk_def anchored_def)
  ultimately show ?thesis by (simp add: truthful_def working_tools_ok anchored_def)
qed

theorem journal_never_ahead_witness:
  "\<exists>w1. run_transaction sample_json sample_path sample_journal False (begun\<lparr>w_sched := [Cut]\<rparr>) = (Halt PowerLoss, w1) \<and>
    reboot w1 w1 \<and> (case fs_get (w_vis w1) sample_path of
      None \<Rightarrow> False
    | Some n \<Rightarrow> \<exists>ph m. n = File (journal_bytes sample_json (sample_journal\<lparr>j_phase := ph\<rparr>)) m True)"
proof -
  let ?w = "begun\<lparr>w_sched := [Cut]\<rparr>"
  have run: "run_transaction sample_json sample_path sample_journal False ?w = (Halt PowerLoss, begun)"
    by (simp add: run_transaction_def backups_stage_def sample_journal_def destroy_header_backups_def MAX_SCAN_ENTRIES_def
        bnd_def ret_def Let_def write_journal_def lift_def parent_of_def ctx_def create_dir_all_def sys_def machine_def)
  have r: "reboot begun begun"
    using reboot_machine [OF journal_disk_sound(1), of "\<lambda>d. [0, 1 :: u8]"] by (simp add: reboot_def)
  have "normal_fs (w_vis ?w)" using journal_disk_sound(2) by simp
  from journal_never_ahead [OF begun_truthful sample_proper this run r] run r show ?thesis
    by (auto simp: journal_disk_def split: option.splits)
qed

lemma wp_remove_dur: "wp (remove_journal path) (\<lambda>r w'. r = Ok () \<or> w_dur w' = w_dur w) w"
proof -
  have sync: "wp (bnd (open_dir d) (\<lambda>_. sync_dir d)) (\<lambda>r w'. r = Ok () \<or> w_dur w' = w_dur w) v"
    if "w_dur v = w_dur w" for d v
    by (rule wp_bndI [where R = "\<lambda>_ w'. w_dur w' = w_dur w"]) (auto intro!: wp_open_dir wp_sync_dir simp: that)
  show ?thesis
    unfolding remove_journal_def
    by (rule wp_bndI [where R = "\<lambda>_ w'. w_dur w' = w_dur w"], simp only: wp_attempt, rule wp_remove_file)
      (auto simp: wp_ret wp_bail attempt_post_def intro!: sync split: sum.splits option.splits)
qed

lemma wp_finish_dur:
  assumes tools: "tools_ok slots (w_exec w)"
  shows "wp (finish_stage path j np) (\<lambda>r w'. r = Ok () \<or> w_dur w' = w_dur w) w"
proof (cases "j_phase j = KeyslotsDestroyed")
  case True
  let ?P = "\<lambda>v. tools_ok slots (w_exec v) \<and> w_dur v = w_dur w"
  have step: "wp m (\<lambda>_. ?P) v" if "?P v" "keeps (same_files slots) m" for m :: "('a, unit) io" and v
    by (rule wp_mono [OF wp_keeps [OF that(2)]]) (use that(1) in \<open>simp add: same_files_def\<close>)
  have close: "keeps (same_files slots) (case j_map_name j of
        Some name \<Rightarrow> bnd (run_cmd ''cryptsetup'' [''close'', name] []) (\<lambda>_. ret ()) | None \<Rightarrow> ret ())"
    by (auto intro!: filing.keeps_bnd filing.keeps_basic same_files_harmless simp: harmless_def split: option.splits)
  have remove: "wp (remove_journal path) (\<lambda>r w'. r = Ok () \<or> w_dur w' = w_dur w) v" if "?P v" for v
    using wp_remove_dur [of path v] that by simp
  show ?thesis
    unfolding finish_stage_def if_P [OF True]
    by (intro wp_ifI remove wp_bndI [OF step [OF _ same_files_verify]]
        wp_bndI [OF step [OF _ same_files_quiesce]] wp_bndI [OF step [OF _ close]]
        wp_bndI [OF step [OF _ same_files_poweroff]])
      (simp_all add: tools)
qed (simp add: finish_stage_def wp_rules)

text \<open>
  C34. The journal outlives every interruption: unless the last stage returns \<open>Ok\<close>, the journal on the
  disk is what it was, also when the forced power-off it has just requested takes effect at once, since
  the journal is removed only after that request.
\<close>

theorem journal_outlives_interruptions:
  assumes "tools_ok slots (w_exec w)" and "finish_stage path j np w = (r, w')" and "r \<noteq> Ok ()"
  shows "w_dur w' = w_dur w"
  using wpD [OF wp_finish_dur [OF assms(1)] assms(2)] assms(3) by blast

theorem journal_outlives_interruptions_witness:
  "\<exists>w'. finish_stage sample_path (sample_journal\<lparr>j_phase := KeyslotsDestroyed\<rparr>) False
      (begun\<lparr>w_ext := (\<lambda>d. [1]), w_sched := [Go, Go, Go, Go, Go, Go, Cut]\<rparr>) = (Halt PowerLoss, w') \<and>
    last (w_log w') = (''systemctl'', [''poweroff'', ''--force'', ''--force''], []) \<and>
    fs_get (w_dur w') sample_path = Some (File (journal_bytes sample_json sample_journal) 384 True)"
proof -
  let ?w = "begun\<lparr>w_ext := (\<lambda>d. [1]), w_sched := [Go, Go, Go, Go, Go, Go, Cut]\<rparr>"
  let ?j = "sample_journal\<lparr>j_phase := KeyslotsDestroyed\<rparr>"
  have "case finish_stage sample_path ?j False ?w of (r, w') \<Rightarrow>
      r = Halt PowerLoss \<and> last (w_log w') = (''systemctl'', [''poweroff'', ''--force'', ''--force''], [])"
    by code_simp
  then obtain w' where run: "finish_stage sample_path ?j False ?w = (Halt PowerLoss, w')"
    and log: "last (w_log w') = (''systemctl'', [''poweroff'', ''--force'', ''--force''], [])"
    by (auto split: prod.splits)
  have tools: "tools_ok listed (w_exec ?w)" by (simp add: working_tools_ok)
  have "w_dur w' = w_dur ?w" by (rule journal_outlives_interruptions [OF tools run]) simp
  then show ?thesis using run log by (simp add: journal_disk_def)
qed

end
