(* ===== verification/Backups_Complete.thy ===== *)
theory Backups_Complete
  imports Backups
begin

text \<open>
  The walk over the header backups is complete: it ends within its bound on every tree that is small
  enough, and then no header below the roots is left. The measure of a stack is the number of entries
  at and below its paths.
\<close>

section \<open>Trees\<close>

text \<open>Whatever there is stands in directories.\<close>

definition tree_fs :: "fs \<Rightarrow> bool" where
  "tree_fs f \<longleftrightarrow>
    (\<forall>q. fs_get f q \<noteq> None \<longrightarrow> (\<forall>d. strict_prefix d q \<longrightarrow> d \<noteq> [] \<longrightarrow> (\<exists>m. fs_get f d = Some (Dir m))))"

definition subtree :: "fs \<Rightarrow> path \<Rightarrow> path set" where
  "subtree f p = {q. fs_get f q \<noteq> None \<and> prefix p q}"

definition weight :: "fs \<Rightarrow> path \<Rightarrow> nat" where
  "weight f p = max 1 (card (subtree f p))"

text \<open>No path of the list is at or below another.\<close>

definition apart :: "path list \<Rightarrow> bool" where
  "apart ps \<longleftrightarrow> distinct ps \<and> (\<forall>p\<in>set ps. \<forall>q\<in>set ps. prefix p q \<longrightarrow> p = q)"

definition headers :: "fs \<Rightarrow> path list \<Rightarrow> path set" where
  "headers f ps = {q. (\<exists>p\<in>set ps. prefix p q) \<and> (\<exists>n. fs_get f q = Some n \<and> header_node n)}"

lemma finite_subtree [simp]: "finite (subtree f p)"
proof (rule finite_subset)
  show "subtree f p \<subseteq> dom (fs_get f)" by (auto simp: subtree_def dom_def)
  show "finite (dom (fs_get f))" by (rule finite_dom_map_of)
qed

lemma finite_headers [simp]: "finite (headers f ps)"
proof (rule finite_subset)
  show "headers f ps \<subseteq> dom (fs_get f)" by (auto simp: headers_def dom_def)
  show "finite (dom (fs_get f))" by (rule finite_dom_map_of)
qed

lemma apart_Cons: "apart (p # ps) \<longleftrightarrow> apart ps \<and> (\<forall>q\<in>set ps. \<not> prefix p q \<and> \<not> prefix q p)"
  by (auto simp: apart_def)

lemma headers_Cons: "headers f (p # ps) = headers f [p] \<union> headers f ps"
  by (auto simp: headers_def)

lemma headers_rev [simp]: "headers f (rev ps) = headers f ps"
  by (simp add: headers_def)

text \<open>At and below something that is no directory there is only that.\<close>

lemma leaf:
  assumes "tree_fs f" "p \<noteq> []" "\<And>m. fs_get f p \<noteq> Some (Dir m)" "fs_get f q \<noteq> None" "prefix p q"
  shows "q = p"
  using assms unfolding tree_fs_def by (metis prefix_order.le_neq_trans)

lemma headers_leaf:
  assumes "tree_fs f" "p \<noteq> []" "\<And>m. fs_get f p \<noteq> Some (Dir m)"
  shows "headers f [p] = (case fs_get f p of Some n \<Rightarrow> if header_node n then {p} else {} | None \<Rightarrow> {})"
proof -
  have only: "q = p" if "prefix p q" "fs_get f q = Some n" for q n using leaf [OF assms] that by blast
  show ?thesis by (cases "fs_get f p") (auto simp: headers_def dest: only)
qed

text \<open>A header file is taken out of the tree.\<close>

lemma without_leaf:
  assumes f: "tree_fs f" "p \<noteq> []" "\<And>m. fs_get f p \<noteq> Some (Dir m)"
    and g: "\<And>q. fs_get g q = (if q = p then None else fs_get f q)" and ps: "apart (p # ps)"
  shows "tree_fs g" "q \<in> set ps \<Longrightarrow> weight g q = weight f q" "headers g ps = headers f ps" "p \<notin> headers f ps"
proof -
  show "tree_fs g" using f unfolding tree_fs_def by (auto simp: g split: if_splits)
  have no: "\<not> prefix q p" if "q \<in> set ps" for q using ps that by (auto simp: apart_Cons)
  then show "p \<notin> headers f ps" by (auto simp: headers_def)
  show "headers g ps = headers f ps" using no by (auto simp: headers_def g split: if_splits)
  show "weight g q = weight f q" if "q \<in> set ps"
  proof -
    have "subtree g q = subtree f q" using no [OF that] by (auto simp: subtree_def g split: if_splits)
    then show ?thesis by (simp add: weight_def)
  qed
qed

section \<open>Opening a directory\<close>

lemma children_set: "set (children f p) = {c. fs_get f c \<noteq> None \<and> parent_of c = Some p}"
proof -
  have "c \<in> fst ` set f \<longleftrightarrow> fs_get f c \<noteq> None" for c by (simp add: map_of_eq_None_iff)
  then show ?thesis by (auto simp: children_def)
qed

text \<open>Every path strictly below is at or below exactly one child.\<close>

lemma child_above:
  assumes f: "tree_fs f" and p: "p \<noteq> []" and q: "fs_get f q \<noteq> None" "strict_prefix p q"
  shows "\<exists>c\<in>set (children f p). prefix c q"
proof -
  obtain x r where r: "q = p @ x # r" using strict_prefixE' [OF q(2)] by blast
  let ?c = "p @ [x]"
  have "fs_get f ?c \<noteq> None"
  proof (cases "r = []")
    case True
    then show ?thesis using q(1) r by simp
  next
    case False
    then have "strict_prefix ?c q" using r by (auto simp: strict_prefix_def prefix_def)
    then show ?thesis using f q(1) unfolding tree_fs_def by fastforce
  qed
  moreover have "parent_of ?c = Some p" using p by (simp add: parent_of_def)
  ultimately show ?thesis using r by (intro bexI [of _ ?c]) (auto simp: children_set prefix_def)
qed

lemma child_of: "c \<in> set (children f p) \<Longrightarrow> c \<noteq> [] \<and> butlast c = p \<and> strict_prefix p c"
  by (auto simp: children_set parent_of_def strict_prefix_def split: if_splits)
    (metis append_butlast_last_id prefixI, metis append_butlast_last_id append_self_conv not_Cons_self2)

lemma children_apart:
  assumes "c \<in> set (children f p)" "d \<in> set (children f p)" "prefix c q" "prefix d q"
  shows "c = d"
proof -
  have "length c = length d" using child_of [OF assms(1)] child_of [OF assms(2)] length_butlast [of c] length_butlast [of d]
    by (cases c; cases d) auto
  then show ?thesis using assms(3,4) by (metis prefix_def append_eq_append_conv)
qed

lemma subtree_dir:
  assumes f: "tree_fs f" and p: "p \<noteq> []" "fs_get f p \<noteq> None"
  shows "subtree f p = insert p (\<Union>c\<in>set (children f p). subtree f c)"
proof (rule set_eqI)
  fix q
  have "q = p \<or> strict_prefix p q" if "prefix p q" using that by (auto simp: strict_prefix_def)
  then show "q \<in> subtree f p \<longleftrightarrow> q \<in> insert p (\<Union>c\<in>set (children f p). subtree f c)"
    using child_above [OF f p(1), of q] p(2) child_of
    by (auto simp: subtree_def dest: prefix_order.trans)
      (metis prefix_order.less_le_trans prefix_order.less_imp_le)
qed

lemma weight_dir:
  assumes f: "tree_fs f" and p: "p \<noteq> []" "fs_get f p \<noteq> None"
  shows "weight f p = Suc (sum_list (map (weight f) (children f p)))"
proof -
  let ?cs = "children f p"
  have "p \<notin> (\<Union>c\<in>set ?cs. subtree f c)" using child_of by (fastforce simp: subtree_def)
  then have "card (subtree f p) = Suc (card (\<Union>c\<in>set ?cs. subtree f c))" by (simp add: subtree_dir [OF assms])
  also have "card (\<Union>c\<in>set ?cs. subtree f c) = (\<Sum>c\<in>set ?cs. card (subtree f c))"
    by (rule card_UN_disjoint, simp, simp) (auto simp: subtree_def dest: children_apart)
  also have "\<dots> = (\<Sum>c\<in>set ?cs. weight f c)"
  proof (rule sum.cong [OF refl])
    fix c assume "c \<in> set ?cs"
    then have "c \<in> subtree f c" by (simp add: subtree_def children_set)
    then have "0 < card (subtree f c)" by (auto simp: card_gt_0_iff)
    then show "card (subtree f c) = weight f c" by (simp add: weight_def max_def)
  qed
  also have "\<dots> = sum_list (map (weight f) ?cs)"
    by (rule sum.distinct_set_conv_list) (simp add: children_def)
  finally show ?thesis by (simp add: weight_def)
qed

lemma headers_dir:
  assumes f: "tree_fs f" and p: "p \<noteq> []" "fs_get f p = Some (Dir m)"
  shows "headers f [p] = headers f (children f p)"
proof -
  have "(\<exists>c\<in>set (children f p). prefix c q) \<longleftrightarrow> prefix p q" if "fs_get f q = Some n" "header_node n" for q n
  proof
    have "q \<noteq> p" using that p(2) by (auto simp: header_node_def)
    then show "prefix p q \<Longrightarrow> \<exists>c\<in>set (children f p). prefix c q"
      using child_above [OF f p(1), of q] that(1) by (simp add: strict_prefix_def)
    show "\<exists>c\<in>set (children f p). prefix c q \<Longrightarrow> prefix p q"
      using children_below prefix_order.trans by blast
  qed
  then show ?thesis by (auto simp: headers_def)
qed

lemma apart_dir:
  assumes "apart (p # ps)"
  shows "apart (rev (children f p) @ ps)"
proof -
  have below: "prefix p c" if "c \<in> set (children f p)" for c using children_below [OF that] .
  have "\<not> prefix c q \<and> \<not> prefix q c" if "c \<in> set (children f p)" "q \<in> set ps" for c q
    using below [OF that(1)] that(2) assms unfolding apart_Cons
    by (metis prefix_order.trans prefix_same_cases)
  note sep = this
  have d: "distinct (children f p)" "apart ps" using assms by (simp_all add: children_def apart_Cons)
  have same: "a = b" if "a \<in> set (children f p) \<union> set ps" "b \<in> set (children f p) \<union> set ps" "prefix a b" for a b
    using that sep d(2) children_apart [of a f p b b] unfolding apart_def by blast
  have "set (children f p) \<inter> set ps = {}" using sep by blast
  then show ?thesis using d same by (auto simp: apart_def)
qed

section \<open>The walk\<close>

text \<open>
  What \<open>shred -u\<close> is relied on for: it removes the file it is given and reports it, or reports a failure
  and leaves a file there; it does nothing to other files.
\<close>

definition shreds :: "'x exec \<Rightarrow> bool" where
  "shreds ex \<longleftrightarrow>
    (\<forall>p v u x c v' u' x'. ex ''shred'' [''-u'', ''-z'', ''-n'', ''1'', path_text p] [] (v, u, x) = (c, v', u', x') \<longrightarrow>
      normal_fs v \<longrightarrow> normal p \<longrightarrow> (\<exists>d m s. fs_get v p = Some (File d m s)) \<longrightarrow>
      (\<forall>q. q \<noteq> p \<longrightarrow> fs_get v' q = fs_get v q) \<and>
      (if cmd_success c then fs_get v' p = None else \<exists>d m s. fs_get v' p = Some (File d m s)))"

definition walk_ready :: "'x world \<Rightarrow> bool" where
  "walk_ready w \<longleftrightarrow> w_sched w = [] \<and> shreds (w_exec w) \<and> normal_fs (w_vis w) \<and> tree_fs (w_vis w)"

text \<open>A header that is found is gone afterwards, and nothing else is.\<close>

lemma erase_header_calm:
  assumes w: "walk_ready w" and p: "fs_get (w_vis w) p = Some (File d m s)" "p \<noteq> []"
  shows "\<exists>w'. erase_header_file p w = (Ok (), w') \<and> walk_ready w' \<and>
    (\<forall>q. fs_get (w_vis w') q = (if q = p then None else fs_get (w_vis w) q))"
proof -
  let ?args = "[''-u'', ''-z'', ''-n'', ''1'', path_text p]"
  obtain c v u x where ex: "w_exec w ''shred'' ?args [] (w_vis w, w_dur w, w_ext w) = (c, v, u, x)"
    by (metis prod.exhaust)
  have n: "normal_fs (w_vis w)" "normal p" using w p(1) by (auto simp: walk_ready_def normal_fs_def)
  have law: "\<And>q. q \<noteq> p \<Longrightarrow> fs_get v q = fs_get (w_vis w) q"
    "if cmd_success c then fs_get v p = None else \<exists>d m s. fs_get v p = Some (File d m s)"
    using w ex n p(1) unfolding walk_ready_def shreds_def by blast+
  let ?w = "w\<lparr>w_vis := v, w_dur := u, w_ext := x, w_log := w_log w @ [(''shred'', ?args, [])]\<rparr>"
  have run: "run_cmd ''shred'' ?args [] w = (Ok c, ?w)"
    using w ex by (simp add: run_cmd_def probe_def bnd_def walk_ready_def)
  have sched: "w_sched w = []" using w by (simp add: walk_ready_def)
  have "\<exists>w'. erase_header_file p w = (Ok (), w') \<and> w_sched w' = [] \<and> w_exec w' = w_exec w \<and>
    (\<forall>q. fs_get (w_vis w') q = (if q = p then None else fs_get (w_vis w) q))"
  proof (cases "cmd_success c")
    case True
    then show ?thesis using law sched by (simp add: erase_header_file_def bnd_def run ret_def)
  next
    case False
    then obtain d m s where "fs_get v p = Some (File d m s)" using law(2) by auto
    then show ?thesis
      using False law(1) sched by (simp add: erase_header_file_def bnd_def run ctx_def remove_file_def sys_def)
  qed
  then obtain w' where w': "erase_header_file p w = (Ok (), w')" "w_sched w' = []" "w_exec w' = w_exec w"
    and g: "\<And>q. fs_get (w_vis w') q = (if q = p then None else fs_get (w_vis w) q)"
    by blast
  have "tree_fs (w_vis w')"
    using without_leaf(1) [of "w_vis w" p "w_vis w'" "[]"] w p g by (simp add: walk_ready_def apart_def)
  moreover have "normal_fs (w_vis w')" using n(1) g by (auto simp: normal_fs_def split: if_splits)
  ultimately show ?thesis using w' g w by (auto simp: walk_ready_def)
qed

text \<open>The world after the walk: the headers at and below the paths of the stack are gone.\<close>

definition cleaned :: "path list \<Rightarrow> 'x world \<Rightarrow> nat res \<times> 'x world \<Rightarrow> nat \<Rightarrow> bool" where
  "cleaned ps w rw n \<longleftrightarrow>
    fst rw = Ok (n + card (headers (w_vis w) ps)) \<and>
    (\<forall>q. fs_get (w_vis (snd rw)) q = (if q \<in> headers (w_vis w) ps then None else fs_get (w_vis w) q))"

lemma scan_loop_complete:
  "walk_ready w \<Longrightarrow> apart ps \<Longrightarrow> [] \<notin> set ps \<Longrightarrow> sum_list (map (weight (w_vis w)) ps) \<le> left \<Longrightarrow>
    cleaned ps w (scan_loop left n ps w) n"
proof (induction left arbitrary: n ps w)
  case 0
  then have "ps = []" by (cases ps) (auto simp: weight_def)
  then show ?case by (simp add: cleaned_def ret_def headers_def)
next
  case (Suc left)
  show ?case
  proof (cases ps)
    case Nil
    then show ?thesis by (simp add: cleaned_def ret_def headers_def)
  next
    case (Cons p rest)
    let ?f = "w_vis w"
    have sched: "w_sched w = []" and tree: "tree_fs ?f" using Suc.prems(1) by (simp_all add: walk_ready_def)
    have p: "p \<noteq> []" and rest: "apart rest" "[] \<notin> set rest" using Suc.prems(2,3) Cons by (auto simp: apart_Cons)
    have sum: "weight ?f p + sum_list (map (weight ?f) rest) \<le> Suc left" using Suc.prems(4) Cons by simp
    have one: "1 \<le> weight ?f p" by (simp add: weight_def)
    have skip: "cleaned rest w (scan_loop left n rest w) n"
      by (rule Suc.IH [OF Suc.prems(1) rest]) (use sum one in simp)
    have meta: "symlink_metadata p w = (case fs_get ?f p of Some x \<Rightarrow> Ok x | None \<Rightarrow> Err NotFound, w)"
      using sched by (simp add: symlink_metadata_def sys_def)
    show ?thesis
    proof (cases "\<exists>m. fs_get ?f p = Some (Dir m)")
      case True
      then obtain m where m: "fs_get ?f p = Some (Dir m)" ..
      let ?cs = "children ?f p"
      have "read_dir p w = (Ok ?cs, w)" using m sched by (simp add: read_dir_def sys_def look_Dir)
      then have step: "scan_loop (Suc left) n (p # rest) w = scan_loop left n (rev ?cs @ rest) w"
        by (simp add: bnd_def attempt_def meta m is_link_def is_dir_node_def ctx_def)
      have "cleaned (rev ?cs @ rest) w (scan_loop left n (rev ?cs @ rest) w) n"
      proof (rule Suc.IH [OF Suc.prems(1)])
        show "apart (rev ?cs @ rest)" using apart_dir Suc.prems(2) Cons by blast
        show "[] \<notin> set (rev ?cs @ rest)" using rest child_of by auto
        show "sum_list (map (weight ?f) (rev ?cs @ rest)) \<le> left"
          using sum weight_dir [OF tree p] m by (simp add: rev_map [symmetric] sum_list_rev)
      qed
      moreover have "headers ?f (rev ?cs @ rest) = headers ?f (p # rest)"
        using headers_dir [OF tree p m] by (auto simp: headers_def)
      ultimately show ?thesis by (simp add: cleaned_def Cons step del: scan_loop.simps)
    next
      case False
      then have leaf: "\<And>m. fs_get ?f p \<noteq> Some (Dir m)" by blast
      note here = headers_leaf [OF tree p leaf] headers_Cons [of ?f p rest]
      show ?thesis
      proof (cases "\<exists>x. fs_get ?f p = Some x \<and> header_node x")
        case True
        then obtain x where x: "fs_get ?f p = Some x" "header_node x" by blast
        then obtain d md s where "x = File d md s" by (cases x) (simp_all add: header_node_def)
        then have hf: "fs_get ?f p = Some (File d md s)" "header_node (File d md s)" using x by simp_all
        obtain v where v: "erase_header_file p w = (Ok (), v)" "walk_ready v"
          and g: "\<And>q. fs_get (w_vis v) q = (if q = p then None else fs_get ?f q)"
          using erase_header_calm [OF Suc.prems(1) hf(1) p] by blast
        note less = without_leaf [OF tree p leaf g Suc.prems(2) [unfolded Cons]]
        have "is_luks_header_file p w = (Ok True, w)"
          using sched hf by (simp add: is_luks_header_file_def probe_def look_File)
        then have step: "scan_loop (Suc left) n (p # rest) w = scan_loop left (n + 1) rest v"
          by (simp add: bnd_def attempt_def meta hf(1) is_link_def is_dir_node_def is_file_node_def v(1))
        have "map (weight (w_vis v)) rest = map (weight ?f) rest" using less(2) by simp
        then have "sum_list (map (weight (w_vis v)) rest) \<le> left" using sum one by (simp only:)
        then have "cleaned rest v (scan_loop left (n + 1) rest v) (n + 1)"
          by (rule Suc.IH [OF v(2) rest])
        moreover have "headers ?f (p # rest) = insert p (headers ?f rest)" using here hf by simp
        ultimately show ?thesis
          using less(3,4) g by (auto simp: cleaned_def Cons step simp del: scan_loop.simps)
      next
        case none: False
        have "scan_loop (Suc left) n (p # rest) w = scan_loop left n rest w"
          using none leaf sched
          by (cases "fs_get ?f p"; cases "the (fs_get ?f p)")
            (auto simp: bnd_def attempt_def meta is_link_def is_dir_node_def is_file_node_def is_luks_header_file_def
              probe_def look_File)
        moreover have "headers ?f (p # rest) = headers ?f rest" using here none by (auto split: option.splits)
        ultimately show ?thesis using skip by (simp add: cleaned_def Cons del: scan_loop.simps)
      qed
    qed
  qed
qed

section \<open>Property\<close>

text \<open>
  C22. The destruction of header backups is complete. Without faults, and when there are at most
  \<open>MAX_SCAN_ENTRIES\<close> entries at and below the scan roots, of which none lies below another, the walk
  ends with the number of LUKS headers that were there; all of these files are gone, however deep they
  were, and every other file is as it was.
\<close>

theorem all_header_backups_destroyed:
  assumes w: "walk_ready w" and roots: "apart (map components paths)" "[] \<notin> set (map components paths)"
    and small: "sum_list (map (weight (w_vis w)) (map components paths)) \<le> MAX_SCAN_ENTRIES"
    and run: "destroy_header_backups paths w = (r, w')"
  shows "r = Ok (card (headers (w_vis w) (map components paths))) \<and>
    (\<forall>q. fs_get (w_vis w') q =
      (if q \<in> headers (w_vis w) (map components paths) then None else fs_get (w_vis w) q))"
proof -
  let ?ps = "map components paths"
  have "cleaned (rev ?ps) w (scan_loop MAX_SCAN_ENTRIES 0 (rev ?ps) w) 0"
  proof (rule scan_loop_complete [OF w])
    show "apart (rev ?ps)" using roots(1) by (simp add: apart_def)
    show "sum_list (map (weight (w_vis w)) (rev ?ps)) \<le> MAX_SCAN_ENTRIES"
      using small by (simp only: rev_map [symmetric] sum_list_rev)
  qed (use roots(2) in simp)
  then show ?thesis using run by (simp add: cleaned_def destroy_header_backups_def)
qed

theorem all_header_backups_destroyed_witness:
  "\<exists>w'. destroy_header_backups [''/b''] (machine backup_disk (\<lambda>d. [0]) \<lparr>w_exec := working_tools\<rparr>) = (Ok 1, w') \<and>
    fs_get (w_vis w') [''/'', ''b'', ''h''] = None"
proof -
  let ?w = "machine backup_disk (\<lambda>d. [0]) \<lparr>w_exec := working_tools\<rparr>" and ?b = "[''/'', ''b'']"
  obtain r w' where run: "destroy_header_backups [''/b''] ?w = (r, w')" by fastforce
  have normal: "normal_fs backup_disk" by (simp add: normal_fs_def backup_disk_def normal_def is_absolute_def)
  have "shreds working_tools"
    by (auto simp: shreds_def working_tools_def fs_get_filter cmd_success_def normal_fs_def)
      (metis option.exhaust path_text_inj)
  moreover have "tree_fs backup_disk"
    by (auto simp: tree_fs_def backup_disk_def strict_prefix_def prefix_Cons split: if_splits)
  ultimately have w: "walk_ready ?w" using normal by (simp add: walk_ready_def)
  have b: "map components [''/b''] = [?b]" by code_simp
  have "subtree backup_disk ?b \<subseteq> fst ` set backup_disk"
    by (auto simp: subtree_def map_of_eq_None_iff)
  then have "card (subtree backup_disk ?b) \<le> card (fst ` set backup_disk)" by (intro card_mono) simp_all
  also have "\<dots> \<le> 4" using card_image_le [of "set backup_disk" fst] card_length [of backup_disk]
    by (simp add: backup_disk_def)
  finally have small: "weight backup_disk ?b \<le> MAX_SCAN_ENTRIES" by (simp add: weight_def MAX_SCAN_ENTRIES_def)
  have "headers backup_disk [?b] = {[''/'', ''b'', ''h'']}"
    by (auto simp: headers_def backup_disk_def header_node_def LUKS_MAGIC_def split: if_splits)
  with all_header_backups_destroyed [OF w _ _ _ run] small run show ?thesis
    unfolding b by (simp add: apart_def)
qed

end
