(* ===== verification/Duress.thy ===== *)
theory Duress
  imports Codec
begin

text \<open>
  The duress verifier of \<open>ds-core/src/lib.rs\<close>: derivation, verification, and the text form it is
  stored in. PBKDF2-HMAC-SHA256 (crate \<open>pbkdf2\<close>) and the system's random generator (crate
  \<open>getrandom\<close>) are parameters: \<open>kdf\<close> gives the derived key or \<open>None\<close> for the crate's error, and
  \<open>rnd\<close> the random bytes or \<open>None\<close>. \<open>subtle::ct_eq\<close> is equality of the two byte arrays.
\<close>

type_synonym kdf = "string \<Rightarrow> u8 list \<Rightarrow> u32 \<Rightarrow> u8 list option"

definition DEFAULT_ITERATIONS :: u32 where "DEFAULT_ITERATIONS = 600000"
definition MIN_ITERATIONS :: u32 where "MIN_ITERATIONS = 100000"
definition MAX_ITERATIONS :: u32 where "MAX_ITERATIONS = 5000000"
definition SALT_LEN :: nat where "SALT_LEN = 16"
definition HASH_LEN :: nat where "HASH_LEN = 32"

record duress_hash =
  dh_iterations :: u32
  dh_salt :: "u8 list"
  dh_hash :: "u8 list"

text \<open>What the types \<open>[u8; SALT_LEN]\<close> and \<open>[u8; HASH_LEN]\<close> say.\<close>

definition sized :: "duress_hash \<Rightarrow> bool" where
  "sized h \<longleftrightarrow> length (dh_salt h) = SALT_LEN \<and> length (dh_hash h) = HASH_LEN"

definition validate_iterations :: "u32 \<Rightarrow> unit res" where
  "validate_iterations n =
    (if \<not> (MIN_ITERATIONS \<le> n \<and> n \<le> MAX_ITERATIONS)
     then Err (Msg ''PBKDF2 iterations outside safe range'') else Ok ())"

definition pbkdf2_sha256 :: "kdf \<Rightarrow> string \<Rightarrow> u8 list \<Rightarrow> u32 \<Rightarrow> u8 list res" where
  "pbkdf2_sha256 kdf pw salt n = some_or ''pbkdf2'' (kdf pw salt n)"

definition derive :: "kdf \<Rightarrow> u8 list option \<Rightarrow> string \<Rightarrow> u32 \<Rightarrow> duress_hash res" where
  "derive kdf rnd code n =
    rbind (validate_iterations n) (\<lambda>_.
    rbind (some_or ''csprng'' rnd) (\<lambda>salt.
    rbind (pbkdf2_sha256 kdf code salt n) (\<lambda>hash.
    Ok \<lparr>dh_iterations = n, dh_salt = salt, dh_hash = hash\<rparr>)))"

text \<open>\<open>derive_and_zero\<close> also gives the buffer as it leaves it: \<open>Vec::zeroize\<close> clears the vector.\<close>

definition derive_and_zero ::
  "kdf \<Rightarrow> u8 list option \<Rightarrow> string \<Rightarrow> u32 \<Rightarrow> duress_hash res \<times> string" where
  "derive_and_zero kdf rnd code n = (derive kdf rnd code n, [])"

definition verify :: "kdf \<Rightarrow> duress_hash \<Rightarrow> string \<Rightarrow> bool res" where
  "verify kdf h candidate =
    rbind (pbkdf2_sha256 kdf candidate (dh_salt h) (dh_iterations h)) (\<lambda>got.
    Ok (got = dh_hash h))"

definition hex_byte :: "u8 \<Rightarrow> string" where
  "hex_byte x = [digit_char (unat x div 16), digit_char (unat x mod 16)]"

definition hex :: "u8 list \<Rightarrow> string" where
  "hex b = concat (map hex_byte b)"

definition unhex :: "string \<Rightarrow> u8 list res" where
  "unhex s =
    (if \<not> is_ascii s then Err (Msg ''non-ASCII hex input'')
     else if length s mod 2 \<noteq> 0 then Err (Msg ''odd hex length'')
     else collect_res (\<lambda>p. some_or ''bad hex'' (parse_word_radix 16 p)) (chunks2 s))"

definition serialize :: "duress_hash \<Rightarrow> string" where
  "serialize h =
    ''pbkdf2_sha256$'' @ show_word (dh_iterations h) @ ''$'' @ hex (dh_salt h) @ ''$'' @ hex (dh_hash h)"

definition parse_verifier :: "string \<Rightarrow> duress_hash res" where
  "parse_verifier s =
    (let f = split_on CHR ''$'' (trim s) in
     if length f \<noteq> 4 \<or> f ! 0 \<noteq> ''pbkdf2_sha256'' then Err (Msg ''not a pbkdf2_sha256 verifier'')
     else
       rbind (some_or ''bad iteration count'' (parse_word (f ! 1))) (\<lambda>iterations.
       rbind (validate_iterations iterations) (\<lambda>_.
       rbind (unhex (f ! 2)) (\<lambda>salt_v.
       rbind (unhex (f ! 3)) (\<lambda>hash_v.
       if length salt_v \<noteq> SALT_LEN then Err (Msg ''bad salt length'')
       else if length hash_v \<noteq> HASH_LEN then Err (Msg ''bad hash length'')
       else Ok \<lparr>dh_iterations = iterations, dh_salt = salt_v, dh_hash = hash_v\<rparr>)))))"

section \<open>Hexadecimal text\<close>

lemma hex_byte_parse: "parse_word_radix 16 (hex_byte x) = Some x"
proof -
  let ?h = "unat x div 16" and ?l = "unat x mod 16"
  have u: "unat x < 256" by (rule unat_u8_less)
  then have h: "?h < 16" and l: "?l < 16" by auto
  have np: "digit_char ?h \<noteq> CHR ''+''"
    using h by (auto simp: digit_char_def split: if_splits dest: arg_cong [where f = "of_char :: char \<Rightarrow> nat"])
  have "parse_radix 16 (hex_byte x) = Some (?h * 16 + ?l)"
    using np h l by (simp add: parse_radix_def hex_byte_def hex_digit_char_val)
  then show ?thesis
    using u by (simp add: parse_word_radix_def)
qed

lemma chunks2_hex: "chunks2 (hex b) = map hex_byte b"
  by (induction b) (simp_all add: hex_def hex_byte_def)

lemma hex_Nil [simp]: "hex [] = []"
  by (simp add: hex_def)

lemma length_hex [simp]: "length (hex b) = 2 * length b"
  by (induction b) (simp_all add: hex_def hex_byte_def)

lemma digit_char_plain:
  assumes "d < 16"
  shows "plain (digit_char d)" "digit_char d \<noteq> CHR ''$''"
  using assms by (auto simp: plain_def digit_char_def ascii_space_def
      dest: arg_cong [where f = "of_char :: char \<Rightarrow> nat"])

lemma hex_plain: "list_all plain (hex b)" "CHR ''$'' \<notin> set (hex b)"
proof -
  have "unat x div 16 < 16" for x :: u8
    using unat_u8_less [of x] by (simp add: less_mult_imp_div_less)
  then show "list_all plain (hex b)" "CHR ''$'' \<notin> set (hex b)"
    by (induction b) (auto simp: hex_def hex_byte_def digit_char_plain digit_char_plain(2) [symmetric] eq_commute)
qed

lemma unhex_hex [simp]: "unhex (hex b) = Ok b"
proof -
  have "collect_res (\<lambda>p. some_or ''bad hex'' (parse_word_radix 16 p)) (map hex_byte b) = Ok b"
    by (induction b) (simp_all add: hex_byte_parse)
  then show ?thesis
    by (simp add: unhex_def chunks2_hex plain_ascii hex_plain)
qed

lemma unhex_length: "unhex s = Ok b \<Longrightarrow> length s = 2 * length b"
  by (auto simp: unhex_def length_chunks2 dest!: collect_res_Ok_length split: if_splits)

section \<open>Stored form\<close>

lemma validate_iterations_Ok [simp]:
  "validate_iterations n = Ok u \<longleftrightarrow> MIN_ITERATIONS \<le> n \<and> n \<le> MAX_ITERATIONS"
  by (auto simp: validate_iterations_def)

lemma serialize_fields:
  "split_on CHR ''$'' (serialize h) =
    [''pbkdf2_sha256'', show_word (dh_iterations h), hex (dh_salt h), hex (dh_hash h)]"
proof -
  have d: "CHR ''$'' \<notin> set (show_word (dh_iterations h))"
    by (rule show_word_no) (simp add: is_digit_def)
  have "serialize h = ''pbkdf2_sha256'' @ CHR ''$'' # show_word (dh_iterations h) @
      CHR ''$'' # hex (dh_salt h) @ CHR ''$'' # hex (dh_hash h)"
    by (simp add: serialize_def)
  then show ?thesis
    by (simp add: split_on_append [of _ "show_word (dh_iterations h)"] split_on_append [of _ "hex (dh_salt h)"]
        split_on_none d hex_plain)
qed

lemma serialize_ascii: "is_ascii (serialize h)"
  by (simp add: serialize_def plain_ascii hex_plain)

lemma serialize_ends:
  assumes "sized h"
  shows "plain (hd (serialize h))" "plain (last (serialize h))"
proof -
  have "hex (dh_hash h) \<noteq> []"
    using assms length_hex [of "dh_hash h"] by (auto simp: sized_def HASH_LEN_def simp del: length_hex)
  moreover from this have "plain (last (hex (dh_hash h)))"
    using hex_plain(1) [of "dh_hash h"] by (auto simp: list_all_iff)
  ultimately show "plain (last (serialize h))" by (simp add: serialize_def)
  show "plain (hd (serialize h))" by (simp add: serialize_def plain_def ascii_space_def)
qed

lemma parse_verifier_Ok:
  "parse_verifier s = Ok h \<Longrightarrow>
    sized h \<and> MIN_ITERATIONS \<le> dh_iterations h \<and> dh_iterations h \<le> MAX_ITERATIONS"
  by (auto simp: parse_verifier_def Let_def ok_inv sized_def split: if_splits)

interpretation verifier_file: line_codec serialize parse_verifier
  "\<lambda>h. sized h \<and> MIN_ITERATIONS \<le> dh_iterations h \<and> dh_iterations h \<le> MAX_ITERATIONS"
proof
  fix h
  assume h: "sized h \<and> MIN_ITERATIONS \<le> dh_iterations h \<and> dh_iterations h \<le> MAX_ITERATIONS"
  have parsed: "parse_verifier t = Ok h" if "trim t = serialize h" for t
    using h that serialize_fields [of h]
    by (simp add: parse_verifier_def validate_iterations_def sized_def)
  have ends: "serialize h = [] \<or> plain (hd (serialize h)) \<and> plain (last (serialize h))"
    using h serialize_ends by blast
  show "parse_verifier (serialize h) = Ok h" using ends by (intro parsed trim_plain)
  show "parse_verifier (serialize h @ [CHR 0x0A]) = Ok h" using ends by (intro parsed trim_newline)
  show "is_ascii (serialize h)" by (rule serialize_ascii)
qed

text \<open>
  Round trip of the stored verifier: parsing the text that \<open>serialize\<close> writes, with or
  without a line feed after it, gives back the same iteration count, salt and hash, for every
  verifier whose cost is in the accepted range.
\<close>

theorem verifier_roundtrip:
  assumes "sized h" and "MIN_ITERATIONS \<le> dh_iterations h" and "dh_iterations h \<le> MAX_ITERATIONS"
  shows "parse_verifier (serialize h) = Ok h \<and> parse_verifier (serialize h @ [CHR 0x0A]) = Ok h"
  using assms verifier_file.dec_line [of h] by blast

text \<open>The verifier of sixteen salt bytes and thirty-two hash bytes at the lowest cost.\<close>

definition sample_hash :: duress_hash where
  "sample_hash = \<lparr>dh_iterations = 100000, dh_salt = replicate 16 10, dh_hash = replicate 32 255\<rparr>"

lemma sample_hash_ok:
  "sized sample_hash" "MIN_ITERATIONS \<le> dh_iterations sample_hash"
  "dh_iterations sample_hash \<le> MAX_ITERATIONS"
  by (simp_all add: sample_hash_def sized_def SALT_LEN_def HASH_LEN_def MIN_ITERATIONS_def MAX_ITERATIONS_def)

theorem verifier_roundtrip_witness:
  "parse_verifier (serialize sample_hash) = Ok sample_hash \<and>
   parse_verifier (serialize sample_hash @ [CHR 0x0A]) = Ok sample_hash"
  using verifier_roundtrip [of sample_hash] sample_hash_ok by blast

text \<open>
  C32. The enrolled code and only the codes with the same derived key match: after \<open>derive\<close> has made
  a verifier and it has been stored and parsed back, \<open>verify\<close> answers true for a candidate exactly
  when PBKDF2 with the stored salt and cost gives the enrolled code's key, so the enrolled code
  matches; and the plaintext buffer is empty afterwards.
\<close>

theorem enrolled_code_verifies:
  assumes kdf: "\<And>c s n k. kdf c s n = Some k \<Longrightarrow> length k = HASH_LEN" and salt: "length salt = SALT_LEN"
    and made: "derive_and_zero kdf (Some salt) code n = (Ok h, buf)"
  shows "\<exists>h'. parse_verifier (serialize h) = Ok h' \<and> verify kdf h' code = Ok True \<and> buf = [] \<and>
    (\<forall>c. verify kdf h' c = Ok True \<longleftrightarrow> kdf c salt n = kdf code salt n)"
proof -
  from made obtain k where n: "MIN_ITERATIONS \<le> n" "n \<le> MAX_ITERATIONS"
    and k: "kdf code salt n = Some k"
    and h: "h = \<lparr>dh_iterations = n, dh_salt = salt, dh_hash = k\<rparr>" and b: "buf = []"
    by (auto simp: derive_and_zero_def derive_def pbkdf2_sha256_def ok_inv)
  have "sized h" using kdf [OF k] salt by (simp add: sized_def h)
  with n have "parse_verifier (serialize h) = Ok h"
    by (intro verifier_file.dec_enc) (simp add: h)
  moreover have "verify kdf h c = Ok True \<longleftrightarrow> kdf c salt n = kdf code salt n" for c
    by (auto simp: verify_def pbkdf2_sha256_def h k ok_inv)
  ultimately show ?thesis using b by blast
qed

definition toy_kdf :: kdf where
  "toy_kdf pw salt n = Some (replicate 32 (of_nat (length pw)))"

theorem enrolled_code_verifies_witness:
  "\<exists>h'. parse_verifier (serialize \<lparr>dh_iterations = 600000, dh_salt = replicate 16 1, dh_hash = replicate 32 3\<rparr>)
      = Ok h' \<and> verify toy_kdf h' ''abc'' = Ok True \<and> \<not> verify toy_kdf h' ''abcd'' = Ok True"
proof -
  have made: "derive_and_zero toy_kdf (Some (replicate 16 1)) ''abc'' 600000 =
      (Ok \<lparr>dh_iterations = 600000, dh_salt = replicate 16 1, dh_hash = replicate 32 3\<rparr>, [])"
    by (simp add: derive_and_zero_def derive_def pbkdf2_sha256_def toy_kdf_def validate_iterations_def
        MIN_ITERATIONS_def MAX_ITERATIONS_def)
  have "\<exists>h'. parse_verifier (serialize \<lparr>dh_iterations = 600000, dh_salt = replicate 16 1, dh_hash = replicate 32 3\<rparr>)
      = Ok h' \<and> verify toy_kdf h' ''abc'' = Ok True \<and> [] = ([] :: string) \<and>
      (\<forall>c. verify toy_kdf h' c = Ok True \<longleftrightarrow>
        toy_kdf c (replicate 16 1) 600000 = toy_kdf ''abc'' (replicate 16 1) 600000)"
    by (rule enrolled_code_verifies [OF _ _ made]) (simp_all add: toy_kdf_def HASH_LEN_def SALT_LEN_def)
  moreover have "toy_kdf ''abcd'' (replicate 16 1) 600000 \<noteq> toy_kdf ''abc'' (replicate 16 1) 600000"
    by (simp add: toy_kdf_def numeral_eq_Suc)
  ultimately show ?thesis by blast
qed

text \<open>
  The verifier text is not canonical: \<open>unhex\<close> reads each byte with \<open>u8::from_str_radix\<close>, which
  accepts a plus sign, so a sign may stand in place of the leading digit, and a digit may be written
  in either case. The function accepts texts that \<open>hex\<close> never writes.
\<close>

theorem unhex_accepts_sign:
  "unhex ''+f'' = Ok [15] \<and> unhex ''0F'' = Ok [15] \<and> hex [15] = ''0f''"
  by (simp add: unhex_def parse_word_radix_def parse_radix_def digit_val_def hex_def hex_byte_def
      digit_char_def char_of_eq_iff)

end
