(* ===== verification/Counters.thy ===== *)
theory Counters
  imports Durable Duress
begin

text \<open>
  The two persistent failure counters: \<open>attempts\<close> in the state directory (\<open>ds-core\<close>, used by
  \<open>pam_ds\<close>) and \<open>counter\<close> on the ESP (\<open>ds-unlock\<close>). The locale \<open>persistent_counter\<close> states what the
  escalation to the wipe relies on, and both counters are interpretations of it.
\<close>

section \<open>The attempt counter of \<open>ds-core\<close>\<close>

record attempts =
  at_count :: u32
  at_last :: u64

definition no_attempts :: attempts where
  "no_attempts = \<lparr>at_count = 0, at_last = 0\<rparr>"

definition attempts_path :: "'x world \<Rightarrow> path" where
  "attempts_path w = components (state_dir w @ ''/attempts'')"

definition parse_attempts :: "string \<Rightarrow> attempts res" where
  "parse_attempts s =
    (let it = split_whitespace s in
     rbind (some_or ''attempt counter missing count'' (if it = [] then None else Some (hd it))) (\<lambda>c.
     rbind (some_or ''bad attempt count'' (parse_word c)) (\<lambda>count.
     rbind (some_or ''attempt counter missing timestamp'' (if tl it = [] then None else Some (hd (tl it)))) (\<lambda>t.
     rbind (some_or ''bad attempt timestamp'' (parse_word t)) (\<lambda>last_fail.
     if tl (tl it) \<noteq> [] then Err (Msg ''attempt counter has trailing fields'')
     else Ok \<lparr>at_count = count, at_last = last_fail\<rparr>)))))"

definition attempts_text :: "attempts \<Rightarrow> string" where
  "attempts_text a = show_word (at_count a) @ '' '' @ show_word (at_last a) @ ''\<newline>''"

definition read_attempts :: "('x, attempts) io" where
  "read_attempts =
    bnd (ask attempts_path) (\<lambda>p.
    bnd (attempt (read_to_string p)) (\<lambda>r.
    case r of
      Inr s \<Rightarrow> lift (parse_attempts s)
    | Inl e \<Rightarrow> if e = NotFound then ret no_attempts else bail ''read attempt counter''))"

definition write_attempts :: "attempts \<Rightarrow> ('x, unit) io" where
  "write_attempts a = bnd (ask attempts_path) (\<lambda>p. atomic_write p (attempts_text a) 384)"

definition now_secs :: "('x, u64) io" where
  "now_secs = ask w_clock"

definition record_failure :: "('x, u32) io" where
  "record_failure =
    bnd read_attempts (\<lambda>a.
    bnd now_secs (\<lambda>now.
    let b = a\<lparr>at_count := sat_inc (at_count a), at_last := now\<rparr> in
    bnd (write_attempts b) (\<lambda>_. ret (at_count b))))"

definition reset_attempts :: "('x, unit) io" where
  "reset_attempts =
    bnd (ask attempts_path) (\<lambda>p.
    bnd (attempt (remove_file p)) (\<lambda>r.
    case r of
      Inr _ \<Rightarrow> ret ()
    | Inl e \<Rightarrow> if e = NotFound then ret () else bail ''remove attempt counter''))"

definition lockout_remaining :: "u32 \<Rightarrow> u64 \<Rightarrow> ('x, u64 option) io" where
  "lockout_remaining lockout cooldown =
    bnd read_attempts (\<lambda>a.
    if at_count a < lockout then ret None
    else bnd now_secs (\<lambda>now.
      let elapsed = sat_sub now (at_last a) in
      ret (if elapsed < cooldown then Some (cooldown - elapsed) else None)))"

definition should_wipe :: "u32 \<Rightarrow> u32 \<Rightarrow> bool" where
  "should_wipe count limit \<longleftrightarrow> count \<ge> limit"

definition crossed_lockout :: "u32 \<Rightarrow> u32 \<Rightarrow> bool" where
  "crossed_lockout count limit \<longleftrightarrow> count \<ge> limit"

section \<open>The counter of \<open>ds-unlock\<close> on the ESP\<close>

definition counter_path :: "path \<Rightarrow> path" where
  "counter_path esp = esp @ [''counter'']"

definition parse_count :: "string \<Rightarrow> u32 res" where
  "parse_count text =
    (let fields = split_whitespace text in
     rbind (some_or ''armed counter is empty'' (if fields = [] then None else Some (hd fields))) (\<lambda>c.
     rbind (some_or ''armed counter is invalid'' (parse_word c)) (\<lambda>count.
     if tl fields \<noteq> [] then Err (Msg ''armed counter has trailing fields'') else Ok count)))"

definition count_text :: "u32 \<Rightarrow> string" where
  "count_text n = show_word n @ ''\<newline>''"

definition read_count :: "path \<Rightarrow> ('x, u32) io" where
  "read_count esp =
    bnd (ctx ''read armed counter'' (read_to_string (counter_path esp))) (\<lambda>text. lift (parse_count text))"

definition write_count :: "path \<Rightarrow> u32 \<Rightarrow> ('x, unit) io" where
  "write_count esp n = ctx ''durably write'' (atomic_write (counter_path esp) (count_text n) 384)"

definition bump_count :: "path \<Rightarrow> ('x, u32) io" where
  "bump_count esp =
    bnd (read_count esp) (\<lambda>c.
    let n = sat_inc c in
    bnd (write_count esp n) (\<lambda>_. ret n))"

definition reset_count :: "path \<Rightarrow> ('x, unit) io" where
  "reset_count esp = write_count esp 0"

section \<open>Text forms\<close>

lemma split_two_words:
  "split_whitespace (show_word a @ CHR '' '' # show_word b @ [CHR 0x0A]) = [show_word a, show_word b]"
  using split_whitespace_append [of "show_word a" "CHR '' ''" "show_word b @ [CHR 0x0A]"]
    split_whitespace_append [of "show_word b" "CHR 0x0A" "[]"]
  by (simp add: show_word_plain ascii_space_def)

lemma split_one_word: "split_whitespace (show_word a @ [CHR 0x0A]) = [show_word a]"
  using split_whitespace_append [of "show_word a" "CHR 0x0A" "[]"]
  by (simp add: show_word_plain ascii_space_def)

interpretation attempts_file: text_codec attempts_text parse_attempts "\<lambda>a. True"
  by unfold_locales (simp_all add: attempts_text_def parse_attempts_def split_two_words Let_def)

interpretation count_file: text_codec count_text parse_count "\<lambda>n. True"
  by unfold_locales (simp_all add: count_text_def parse_count_def split_one_word Let_def)

section \<open>What a counter promises\<close>

text \<open>
  A directory entry that no reading of it can take for less than \<open>n\<close> failures. \<open>absent\<close> says whether
  a missing file reads as zero.
\<close>

definition entry_ok :: "(string \<Rightarrow> u32 res) \<Rightarrow> bool \<Rightarrow> nat \<Rightarrow> node option \<Rightarrow> bool" where
  "entry_ok parse absent n x =
    (case x of
       None \<Rightarrow> absent \<longrightarrow> n = 0
     | Some (File d m s) \<Rightarrow> s \<and> (\<forall>c. utf8_valid d \<longrightarrow> parse d = Ok c \<longrightarrow> n \<le> unat c)
     | Some nd \<Rightarrow> \<not> is_link nd)"

definition persists :: "(string \<Rightarrow> u32 res) \<Rightarrow> bool \<Rightarrow> path \<Rightarrow> nat \<Rightarrow> 'x world \<Rightarrow> bool" where
  "persists parse absent p n w \<longleftrightarrow>
    anchored w p \<and> entry_ok parse absent n (fs_get (w_vis w) p) \<and> entry_ok parse absent n (fs_get (w_dur w) p)"

lemma entry_ok_settled: "entry_ok parse absent n x \<Longrightarrow> settled x"
  by (auto simp: entry_ok_def settled_def split: option.splits node.splits)

lemma persists_sched [simp]: "persists parse absent p n (w\<lparr>w_sched := ss\<rparr>) \<longleftrightarrow> persists parse absent p n w"
  by (simp add: persists_def anchored_def)

lemma persists_reboot:
  assumes "persists parse absent p n w" "reboot w w'"
  shows "persists parse absent p n w'"
proof -
  have a: "anchored w p" and e: "entry_ok parse absent n (fs_get (w_vis w) p)"
      "entry_ok parse absent n (fs_get (w_dur w) p)"
    using assms(1) by (auto simp: persists_def)
  have "fs_get (w_vis w') p = fs_get (w_dur w) p \<or> fs_get (w_vis w') p = fs_get (w_vis w) p"
    "fs_get (w_dur w') p = fs_get (w_vis w') p"
    using reboot_file [OF assms(2) a] e entry_ok_settled by blast+
  with e reboot_anchored [OF a assms(2)] show ?thesis by (auto simp: persists_def)
qed

lemma persists_write:
  assumes per: "persists parse absent p n w" and run: "atomic_write p body md w = (r, w')"
    and p: "parent_of p = Some d" "d \<noteq> []" and body: "parse body = Ok c" and le: "n \<le> unat c"
  shows "persists parse absent p n w' \<and> (r = Ok () \<longrightarrow> persists parse absent p (unat c) w')"
proof -
  have a: "anchored w p" using per by (simp add: persists_def)
  obtain tmp where t: "parent_of tmp = Some d" "replace_post d tmp p (File body md True) w r w'"
    using atomic_write_post [OF run a p] by blast
  have new: "entry_ok parse absent m (Some (File body md True))" if "m \<le> unat c" for m
    using that body by (simp add: entry_ok_def)
  from per t(2) new [OF le] new [OF order_refl] anchored_replace [OF a t(2,1) p(1)]
  show ?thesis by (auto simp: persists_def replace_post_def)
qed

text \<open>A stretch of time over which a counter is used: \<open>k\<close> increments that were reported as done, and
  any number that failed or were cut short, readings, reboots, and changes that leave the disk alone.\<close>

inductive history :: "('x, u32) io \<Rightarrow> ('x, 'r) io \<Rightarrow> nat \<Rightarrow> 'x world \<Rightarrow> 'x world \<Rightarrow> bool"
  for bump :: "('x, u32) io" and look_up :: "('x, 'r) io" where
  begin_history: "history bump look_up 0 w w"
| bumped: "history bump look_up k w u \<Longrightarrow> bump u = (Ok c, v) \<Longrightarrow> history bump look_up (Suc k) w v"
| tried: "history bump look_up k w u \<Longrightarrow> bump u = (r, v) \<Longrightarrow> history bump look_up k w v"
| looked: "history bump look_up k w u \<Longrightarrow> look_up u = (a, v) \<Longrightarrow> history bump look_up k w v"
| power_cut: "history bump look_up k w u \<Longrightarrow> reboot u v \<Longrightarrow> history bump look_up k w v"
| elapsed: "history bump look_up k w u \<Longrightarrow> w_vis v = w_vis u \<Longrightarrow> w_dur v = w_dur u \<Longrightarrow>
    w_debug v = w_debug u \<Longrightarrow> history bump look_up k w v"

locale persistent_counter =
  fixes bump :: "('x, u32) io" and look_up :: "('x, 'r) io" and count_of :: "'r \<Rightarrow> u32"
    and holds :: "nat \<Rightarrow> 'x world \<Rightarrow> bool"
  assumes bump_done: "holds n w \<Longrightarrow> bump w = (Ok c, w') \<Longrightarrow> holds (min (n + 1) (2 ^ 32 - 1)) w'"
    and bump_tried: "holds n w \<Longrightarrow> bump w = (r, w') \<Longrightarrow> holds n w'"
    and looked_up: "holds n w \<Longrightarrow> look_up w = (Ok a, w') \<Longrightarrow> n \<le> unat (count_of a)"
    and look_keeps: "holds n w \<Longrightarrow> look_up w = (r', w') \<Longrightarrow> holds n w'"
    and reboot_keeps: "holds n w \<Longrightarrow> reboot w w' \<Longrightarrow> holds n w'"
    and disk_only: "holds n w \<Longrightarrow> w_vis w' = w_vis w \<Longrightarrow> w_dur w' = w_dur w \<Longrightarrow> w_debug w' = w_debug w \<Longrightarrow>
      holds n w'"
begin

lemma history_holds:
  "history bump look_up k w w' \<Longrightarrow> holds n w \<Longrightarrow> n \<le> 2 ^ 32 - 1 \<Longrightarrow> holds (min (n + k) (2 ^ 32 - 1)) w'"
proof (induction rule: history.induct)
  case (bumped k w u c v)
  then have "holds (min (min (n + k) (2 ^ 32 - 1) + 1) (2 ^ 32 - 1)) v"
    using bump_done by blast
  moreover have "min (min (n + k) (2 ^ 32 - 1) + 1) (2 ^ 32 - 1) = min (n + Suc k) (2 ^ 32 - 1)" by simp
  ultimately show ?case by simp
next
  case (begin_history w)
  then show ?case by (simp add: min_absorb1)
next
  case (tried k w u r v)
  then show ?case using bump_tried by blast
next
  case (looked k w u a v)
  then show ?case using look_keeps by blast
next
  case (power_cut k w u v)
  then show ?case using reboot_keeps by blast
next
  case (elapsed k w u v)
  then show ?case using disk_only by blast
qed

lemma history_count:
  "history bump look_up k w u \<Longrightarrow> holds 0 w \<Longrightarrow> look_up u = (Ok a, v) \<Longrightarrow>
    min k (2 ^ 32 - 1) \<le> unat (count_of a)"
  using history_holds [of k w u 0] looked_up [of _ u a v] by simp

end

section \<open>The two interpretations\<close>

definition count_part :: "string \<Rightarrow> u32 res" where
  "count_part s = rbind (parse_attempts s) (\<lambda>a. Ok (at_count a))"

text \<open>The attempt counter of a release build, whose place no environment variable can move.\<close>

definition attempts_hold :: "nat \<Rightarrow> 'x world \<Rightarrow> bool" where
  "attempts_hold n w \<longleftrightarrow>
    \<not> w_debug w \<and> persists count_part True (components (STATE_DIR @ ''/attempts'')) n w"

definition count_holds :: "path \<Rightarrow> nat \<Rightarrow> 'x world \<Rightarrow> bool" where
  "count_holds esp n w \<longleftrightarrow> esp \<noteq> [] \<and> persists parse_count False (counter_path esp) n w"

lemma release_state_dir: "\<not> w_debug w \<Longrightarrow> state_dir w = STATE_DIR"
  by (simp add: state_dir_def test_mode_def)

lemma release_attempts_path: "\<not> w_debug w \<Longrightarrow> attempts_path w = components (STATE_DIR @ ''/attempts'')"
  by (simp add: attempts_path_def release_state_dir)

lemma attempts_parent:
  "parent_of (components (STATE_DIR @ ''/attempts'')) = Some (components STATE_DIR)"
  "components STATE_DIR \<noteq> []"
  by (simp_all add: components_def STATE_DIR_def parent_of_def)

lemma keeps_reading_read_attempts: "keeps only_sched read_attempts"
  unfolding read_attempts_def
  by (intro reading.keeps_bnd reading.keeps_basic) (auto intro: reading.keeps_basic split: sum.splits)

lemma keeps_reading_read_count: "keeps only_sched (read_count esp)"
  unfolding read_count_def by (intro reading.keeps_bnd reading.keeps_basic)

lemma entry_look: "entry_ok parse absent n (fs_get f p) \<Longrightarrow> look f p = fs_get f p"
  by (auto simp: entry_ok_def look_None look_plain is_link_def split: option.splits node.splits)

lemma read_attempts_count:
  assumes "attempts_hold n w"
  shows "wp read_attempts (\<lambda>r w'. (\<exists>ss. w' = w\<lparr>w_sched := ss\<rparr>) \<and> (\<forall>a. r = Ok a \<longrightarrow> n \<le> unat (at_count a))) w"
proof -
  let ?p = "components (STATE_DIR @ ''/attempts'')"
  have path: "attempts_path w = ?p" using assms by (simp add: attempts_hold_def release_attempts_path)
  have e: "entry_ok count_part True n (fs_get (w_vis w) ?p)"
    using assms by (simp add: attempts_hold_def persists_def)
  show ?thesis
    unfolding read_attempts_def wp_bnd wp_ask then_post_simps path wp_attempt
    by (rule wp_read_to_string)
      (use e entry_look [OF e] in \<open>auto simp: wp_rules no_attempts_def entry_ok_def count_part_def ok_inv\<close>)
qed

lemma read_count_count:
  assumes "count_holds esp n w"
  shows "wp (read_count esp) (\<lambda>r w'. (\<exists>ss. w' = w\<lparr>w_sched := ss\<rparr>) \<and> (\<forall>c. r = Ok c \<longrightarrow> n \<le> unat c)) w"
proof -
  have e: "entry_ok parse_count False n (fs_get (w_vis w) (counter_path esp))"
    using assms by (simp add: count_holds_def persists_def)
  show ?thesis
    unfolding read_count_def wp_bnd wp_ctx
    by (rule wp_read_to_string)
      (use e entry_look [OF e] in \<open>auto simp: wp_rules entry_ok_def\<close>)
qed

lemma sat_inc_ge: "n \<le> unat c \<Longrightarrow> n \<le> unat (sat_inc (c :: u32)) \<and> min (n + 1) (2 ^ 32 - 1) \<le> unat (sat_inc c)"
proof -
  have "unat c < 2 ^ 32" using unsigned_less [of c] by simp
  then show "n \<le> unat c \<Longrightarrow> ?thesis" by (auto simp: unat_sat_inc min_def)
qed

lemma persists_mono: "persists parse absent p m w \<Longrightarrow> n \<le> m \<Longrightarrow> persists parse absent p n w"
  by (auto simp: persists_def entry_ok_def split: option.splits node.splits)

lemma attempts_hold_sched [simp]: "attempts_hold n (w\<lparr>w_sched := ss\<rparr>) \<longleftrightarrow> attempts_hold n w"
  by (simp add: attempts_hold_def)

lemma count_holds_sched [simp]: "count_holds esp n (w\<lparr>w_sched := ss\<rparr>) \<longleftrightarrow> count_holds esp n w"
  by (simp add: count_holds_def)

text \<open>The postcondition of an increment: nothing is lost, and on \<open>Ok\<close> one more failure counts.\<close>

definition bump_post :: "(nat \<Rightarrow> 'x world \<Rightarrow> bool) \<Rightarrow> nat \<Rightarrow> u32 res \<Rightarrow> 'x world \<Rightarrow> bool" where
  "bump_post holds n r w' \<longleftrightarrow> holds n w' \<and> ((\<exists>c. r = Ok c) \<longrightarrow> holds (min (n + 1) (2 ^ 32 - 1)) w')"

lemma wp_write_attempts:
  assumes "attempts_hold n w" "n \<le> unat (at_count b)"
  shows "wp (write_attempts b) (\<lambda>r w'. attempts_hold n w' \<and>
    (r = Ok () \<longrightarrow> attempts_hold (unat (at_count b)) w')) w"
proof (rule wpI)
  fix r w' assume run: "write_attempts b w = (r, w')"
  let ?p = "components (STATE_DIR @ ''/attempts'')"
  have per: "persists count_part True ?p n w" and rel: "\<not> w_debug w"
    using assms(1) by (simp_all add: attempts_hold_def)
  have aw: "atomic_write ?p (attempts_text b) 384 w = (r, w')"
    using run rel by (simp add: write_attempts_def bnd_def ask_def release_attempts_path)
  have "count_part (attempts_text b) = Ok (at_count b)"
    by (simp add: count_part_def attempts_file.dec_enc)
  from persists_write [OF per aw attempts_parent this assms(2)]
  have "persists count_part True ?p n w' \<and> (r = Ok () \<longrightarrow> persists count_part True ?p (unat (at_count b)) w')" .
  moreover have "\<not> w_debug w'"
  proof -
    obtain tmp where "replace_post (components STATE_DIR) tmp ?p (File (attempts_text b) 384 True) w r w'"
      using atomic_write_post [OF aw _ attempts_parent] per by (auto simp: persists_def)
    with rel show ?thesis by (simp add: replace_post_def frame_def same_env_def)
  qed
  ultimately show "attempts_hold n w' \<and> (r = Ok () \<longrightarrow> attempts_hold (unat (at_count b)) w')"
    by (simp add: attempts_hold_def)
qed

lemma wp_record_failure:
  assumes "attempts_hold n w"
  shows "wp record_failure (bump_post attempts_hold n) w"
  unfolding record_failure_def
proof (rule wp_bndI [OF read_attempts_count [OF assms]])
  fix a :: attempts and w'
  assume h: "(\<exists>ss. w' = w\<lparr>w_sched := ss\<rparr>) \<and> (\<forall>a'. Ok a = Ok a' \<longrightarrow> n \<le> unat (at_count a'))"
  then have hold: "attempts_hold n w'" and "n \<le> unat (at_count a)" using assms by auto
  then have le: "n \<le> unat (sat_inc (at_count a))" "min (n + 1) (2 ^ 32 - 1) \<le> unat (sat_inc (at_count a))"
    using sat_inc_ge [of n "at_count a"] by simp_all
  let ?b = "a\<lparr>at_count := sat_inc (at_count a), at_last := w_clock w'\<rparr>"
  have "wp (write_attempts ?b) (\<lambda>r v. attempts_hold n v \<and>
      (r = Ok () \<longrightarrow> attempts_hold (min (n + 1) (2 ^ 32 - 1)) v)) w'"
    by (rule wp_mono [OF wp_write_attempts [OF hold]])
      (use le in \<open>auto simp: attempts_hold_def elim: persists_mono\<close>)
  then have "wp (bnd (write_attempts ?b) (\<lambda>_. ret (at_count ?b))) (bump_post attempts_hold n) w'"
    by (rule wp_bndI) (simp_all add: wp_rules bump_post_def)
  then show "wp (bnd now_secs (\<lambda>now. let b = a\<lparr>at_count := sat_inc (at_count a), at_last := now\<rparr> in
      bnd (write_attempts b) (\<lambda>_. ret (at_count b)))) (bump_post attempts_hold n) w'"
    by (simp add: now_secs_def wp_bnd [of "ask _"] wp_ask then_post_simps Let_def)
qed (use assms in \<open>auto simp: bump_post_def\<close>)

lemma wp_write_count:
  assumes "count_holds esp n w" "n \<le> unat c" "esp \<noteq> []"
  shows "wp (write_count esp c) (\<lambda>r w'. count_holds esp n w' \<and> (r = Ok () \<longrightarrow> count_holds esp (unat c) w')) w"
  unfolding write_count_def wp_ctx
proof (rule wpI)
  fix r w' assume run: "atomic_write (counter_path esp) (count_text c) 384 w = (r, w')"
  have per: "persists parse_count False (counter_path esp) n w"
    using assms(1) by (simp add: count_holds_def)
  have dir: "parent_of (counter_path esp) = Some esp"
    using assms(3) by (simp add: counter_path_def parent_of_snoc)
  have "parse_count (count_text c) = Ok c" by (simp add: count_file.dec_enc)
  from persists_write [OF per run dir assms(3) this assms(2)]
  have "persists parse_count False (counter_path esp) n w' \<and>
      (r = Ok () \<longrightarrow> persists parse_count False (counter_path esp) (unat c) w')" .
  then show "count_holds esp n w' \<and> (rctx ''durably write'' r = Ok () \<longrightarrow> count_holds esp (unat c) w')"
    using assms(3) by (simp add: count_holds_def)
qed

lemma wp_bump_count:
  assumes "count_holds esp n w" "esp \<noteq> []"
  shows "wp (bump_count esp) (bump_post (count_holds esp) n) w"
  unfolding bump_count_def
proof (rule wp_bndI [OF read_count_count [OF assms(1)]])
  fix c :: u32 and w'
  assume h: "(\<exists>ss. w' = w\<lparr>w_sched := ss\<rparr>) \<and> (\<forall>c'. Ok c = Ok c' \<longrightarrow> n \<le> unat c')"
  then have hold: "count_holds esp n w'" and "n \<le> unat c" using assms by auto
  then have le: "n \<le> unat (sat_inc c)" "min (n + 1) (2 ^ 32 - 1) \<le> unat (sat_inc c)"
    using sat_inc_ge [of n c] by simp_all
  have "wp (write_count esp (sat_inc c)) (\<lambda>r v. count_holds esp n v \<and>
      (r = Ok () \<longrightarrow> count_holds esp (min (n + 1) (2 ^ 32 - 1)) v)) w'"
    by (rule wp_mono [OF wp_write_count [OF hold le(1) assms(2)]])
      (use le in \<open>auto simp: count_holds_def elim: persists_mono\<close>)
  then show "wp (let n = sat_inc c in bnd (write_count esp n) (\<lambda>_. ret n)) (bump_post (count_holds esp) n) w'"
    unfolding Let_def by (rule wp_bndI) (simp_all add: wp_rules bump_post_def)
qed (use assms in \<open>auto simp: bump_post_def\<close>)

interpretation attempt_counter: persistent_counter record_failure read_attempts at_count attempts_hold
proof
  fix n :: nat and w w' :: "'a world" and c :: u32 and r :: "u32 res" and a :: attempts and r' :: "attempts res"
  show "attempts_hold (min (n + 1) (2 ^ 32 - 1)) w'" if "attempts_hold n w" "record_failure w = (Ok c, w')"
    using wpD [OF wp_record_failure [OF that(1)] that(2)] by (simp add: bump_post_def)
  show "attempts_hold n w'" if "attempts_hold n w" "record_failure w = (r, w')"
    using wpD [OF wp_record_failure [OF that(1)] that(2)] by (simp add: bump_post_def)
  show "n \<le> unat (at_count a)" if "attempts_hold n w" "read_attempts w = (Ok a, w')"
    using wpD [OF read_attempts_count [OF that(1)] that(2)] by simp
  show "attempts_hold n w'" if "attempts_hold n w" "read_attempts w = (r', w')"
    using wpD [OF read_attempts_count [OF that(1)] that(2)] that(1) by auto
  show "attempts_hold n w'" if "attempts_hold n w" "reboot w w'"
    using that persists_reboot [OF _ that(2)] by (auto simp: attempts_hold_def reboot_def)
  show "attempts_hold n w'" if "attempts_hold n w" "w_vis w' = w_vis w" "w_dur w' = w_dur w" "w_debug w' = w_debug w"
    using that by (simp add: attempts_hold_def persists_def anchored_def)
qed

interpretation esp_counter: persistent_counter "bump_count esp" "read_count esp" "\<lambda>c. c" "count_holds esp"
  for esp :: path
proof
  fix n :: nat and w w' :: "'a world" and c :: u32 and r r' :: "u32 res"
  show "count_holds esp (min (n + 1) (2 ^ 32 - 1)) w'" if "count_holds esp n w" "bump_count esp w = (Ok c, w')"
    using wpD [OF wp_bump_count [OF that(1)] that(2)] that(1) by (simp add: bump_post_def count_holds_def)
  show "count_holds esp n w'" if "count_holds esp n w" "bump_count esp w = (r, w')"
    using wpD [OF wp_bump_count [OF that(1)] that(2)] that(1) by (simp add: bump_post_def count_holds_def)
  show "n \<le> unat c" if "count_holds esp n w" "read_count esp w = (Ok c, w')"
    using wpD [OF read_count_count [OF that(1)] that(2)] by simp
  show "count_holds esp n w'" if "count_holds esp n w" "read_count esp w = (r', w')"
    using wpD [OF read_count_count [OF that(1)] that(2)] that(1) by auto
  show "count_holds esp n w'" if "count_holds esp n w" "reboot w w'"
    using that persists_reboot [OF _ that(2)] by (auto simp: count_holds_def)
  show "count_holds esp n w'" if "count_holds esp n w" "w_vis w' = w_vis w" "w_dur w' = w_dur w" "w_debug w' = w_debug w"
    using that by (simp add: count_holds_def persists_def anchored_def)
qed

section \<open>Increments without faults\<close>

text \<open>Nothing stands in the way of an increment: no fault, the directory is there, the temporary name free.\<close>

definition counting_ready :: "'x world \<Rightarrow> bool" where
  "counting_ready w \<longleftrightarrow>
    w_sched w = [] \<and> \<not> w_debug w \<and>
    (\<exists>m. fs_get (w_vis w) (components STATE_DIR) = Some (Dir m)) \<and>
    fs_get (w_vis w) (components STATE_DIR @ [temp_name ''attempts'' (w_pid w)]) = None"

definition attempts_entry :: "'x world \<Rightarrow> node option" where
  "attempts_entry w = fs_get (w_vis w) (components (STATE_DIR @ ''/attempts''))"

text \<open>What an entry says: a missing file is a clean start.\<close>

definition entry_says :: "node option \<Rightarrow> attempts \<Rightarrow> bool" where
  "entry_says x a \<longleftrightarrow> x = None \<and> a = no_attempts \<or> (\<exists>md s. x = Some (File (attempts_text a) md s))"

lemma state_paths:
  "file_name (components (STATE_DIR @ ''/attempts'')) = Some ''attempts''"
  "components (STATE_DIR @ ''/attempts'') \<noteq> components STATE_DIR @ [temp_name ''attempts'' pid]"
  "components STATE_DIR \<noteq> components (STATE_DIR @ ''/attempts'')"
  by (simp_all add: components_def STATE_DIR_def file_name_def temp_name_def)

text \<open>Every other name of the file system is as it was.\<close>

definition others_kept :: "'x world \<Rightarrow> 'x world \<Rightarrow> bool" where
  "others_kept w w' \<longleftrightarrow>
    (\<forall>q. q \<noteq> components (STATE_DIR @ ''/attempts'') \<longrightarrow> fs_get (w_vis w') q = fs_get (w_vis w) q)"

lemma wp_record_failure_calm:
  assumes ready: "counting_ready w" and says: "entry_says (attempts_entry w) a"
  defines "b \<equiv> \<lparr>at_count = sat_inc (at_count a), at_last = w_clock w\<rparr>"
  shows "wp record_failure (\<lambda>r w'. r = Ok (at_count b) \<and> same_env w w' \<and> counting_ready w' \<and>
    attempts_entry w' = Some (File (attempts_text b) 384 True) \<and> others_kept w w') w"
proof -
  let ?p = "components (STATE_DIR @ ''/attempts'')"
  have rel: "\<not> w_debug w" and sched: "w_sched w = []" using ready by (simp_all add: counting_ready_def)
  obtain m where dir: "fs_get (w_vis w) (components STATE_DIR) = Some (Dir m)"
    using ready by (auto simp: counting_ready_def)
  have path: "attempts_path w = ?p" by (rule release_attempts_path [OF rel])
  have "wp read_attempts (\<lambda>r w'. r = Ok a \<and> w' = w) w"
    using says sched look_File [of "w_vis w" ?p] look_None [of "w_vis w" ?p]
    by (auto simp: read_attempts_def wp_rules path read_to_string_def calm read_result_def entry_says_def
        attempts_entry_def attempts_file.dec_enc attempts_file.enc_utf8)
  then have read: "read_attempts w = (Ok a, w)" by (auto simp: wp_run)
  have wr: "wp (atomic_write ?p (attempts_text b) 384) (\<lambda>r w'. r = Ok () \<and> same_env w w' \<and>
      counting_ready w' \<and> attempts_entry w' = Some (File (attempts_text b) 384 True) \<and> others_kept w w') w"
    by (rule wp_mono [OF wp_atomic_write_calm [OF sched attempts_parent state_paths(1) _ dir]])
      (use ready says state_paths state_paths(2) [THEN not_sym] in \<open>auto simp: counting_ready_def attempts_entry_def entry_says_def same_env_def others_kept_def\<close>)
  have ab: "a\<lparr>at_count := sat_inc (at_count a), at_last := w_clock w\<rparr> = b" by (simp add: b_def)
  have "wp (bnd now_secs (\<lambda>now. let b = a\<lparr>at_count := sat_inc (at_count a), at_last := now\<rparr> in
      bnd (write_attempts b) (\<lambda>_. ret (at_count b)))) (\<lambda>r w'. r = Ok (at_count b) \<and> same_env w w' \<and>
      counting_ready w' \<and> attempts_entry w' = Some (File (attempts_text b) 384 True) \<and> others_kept w w') w"
    unfolding now_secs_def write_attempts_def Let_def wp_bnd wp_ask then_post_simps ab path
    by (rule wp_mono [OF wr]) (auto simp: wp_rules)
  then show ?thesis by (simp add: record_failure_def wp_def bnd_def read)
qed

lemma wp_reset_attempts_calm:
  assumes ready: "counting_ready w" and says: "entry_says (attempts_entry w) a"
  shows "wp reset_attempts (\<lambda>r w'. r = Ok () \<and> same_env w w' \<and> counting_ready w' \<and>
    attempts_entry w' = None \<and> others_kept w w') w"
  using ready says state_paths state_paths(2) [THEN not_sym]
  by (auto simp: reset_attempts_def wp_rules remove_file_def calm counting_ready_def release_attempts_path
      attempts_entry_def entry_says_def others_kept_def)

lemma wp_write_count_calm:
  assumes "w_sched w = []" "esp \<noteq> []" "fs_get (w_vis w) esp = Some (Dir m)"
    and "fs_get (w_vis w) (counter_path esp) = Some (File t md s)"
    and "fs_get (w_vis w) (esp @ [temp_name ''counter'' (w_pid w)]) = None"
  shows "wp (write_count esp c) (\<lambda>r w'. r = Ok () \<and> same_env w w' \<and> w_sched w' = [] \<and>
    (\<forall>q. fs_get (w_vis w') q =
      (if q = counter_path esp then Some (File (count_text c) 384 True) else fs_get (w_vis w) q))) w"
  unfolding write_count_def wp_ctx
  by (rule wp_mono [OF wp_atomic_write_calm [where d = esp and n = "''counter''" and m = m]])
    (use assms in \<open>simp_all add: counter_path_def parent_of_snoc file_name_def\<close>)

lemma read_count_calm:
  assumes "w_sched w = []" "fs_get (w_vis w) (counter_path esp) = Some (File t md s)" "utf8_valid t"
  shows "read_count esp w = (parse_count t, w)"
proof -
  have "wp (read_count esp) (\<lambda>r w'. r = parse_count t \<and> w' = w) w"
    using assms look_File [OF assms(2)]
    by (simp add: read_count_def wp_rules read_to_string_def calm read_result_def)
  then show ?thesis by (simp add: wp_run)
qed

lemma wp_bump_count_calm:
  assumes "w_sched w = []" "esp \<noteq> []" "fs_get (w_vis w) esp = Some (Dir m)"
    and "fs_get (w_vis w) (counter_path esp) = Some (File t md s)" "utf8_valid t" "parse_count t = Ok c"
    and "fs_get (w_vis w) (esp @ [temp_name ''counter'' (w_pid w)]) = None"
  shows "wp (bump_count esp) (\<lambda>r w'. r = Ok (sat_inc c) \<and> same_env w w' \<and> w_sched w' = [] \<and>
    (\<forall>q. fs_get (w_vis w') q =
      (if q = counter_path esp then Some (File (count_text (sat_inc c)) 384 True) else fs_get (w_vis w) q))) w"
proof -
  have "wp (bnd (write_count esp (sat_inc c)) (\<lambda>_. ret (sat_inc c))) (\<lambda>r w'. r = Ok (sat_inc c) \<and>
      same_env w w' \<and> w_sched w' = [] \<and> (\<forall>q. fs_get (w_vis w') q =
      (if q = counter_path esp then Some (File (count_text (sat_inc c)) 384 True) else fs_get (w_vis w) q))) w"
    by (rule wp_bndI [OF wp_write_count_calm [OF assms(1-4,7)]]) (simp_all add: wp_rules)
  then show ?thesis
    by (simp add: bump_count_def wp_def bnd_def read_count_calm [OF assms(1,4,5)] assms(6) Let_def)
qed

fun repeat_io :: "nat \<Rightarrow> ('x, 'a) io \<Rightarrow> ('x, 'a list) io" where
  "repeat_io 0 m = ret []"
| "repeat_io (Suc n) m = bnd m (\<lambda>a. bnd (repeat_io n m) (\<lambda>as. ret (a # as)))"

lemma unat_add_small: "unat c + Suc n < 2 ^ 32 \<Longrightarrow> unat (sat_inc (c :: u32)) = unat c + 1"
  by (simp add: unat_sat_inc)

lemma repeat_failures:
  assumes "counting_ready w" "entry_says (attempts_entry w) a" "unat (at_count a) + n < 2 ^ 32"
  shows "wp (repeat_io n record_failure) (\<lambda>r w'. \<exists>cs. r = Ok cs \<and>
    map unat cs = [unat (at_count a) + 1..<unat (at_count a) + n + 1]) w"
  using assms
proof (induction n arbitrary: w a)
  case 0
  then show ?case by (simp add: wp_rules)
next
  case (Suc n)
  let ?b = "\<lparr>at_count = sat_inc (at_count a), at_last = w_clock w\<rparr>"
  have b: "unat (at_count ?b) = unat (at_count a) + 1"
    using Suc.prems(3) unat_add_small [of "at_count a" n] by simp
  show ?case
    unfolding repeat_io.simps
  proof (rule wp_bndI [OF wp_record_failure_calm [OF Suc.prems(1,2)]])
    fix c :: u32 and w'
    assume h: "Ok c = Ok (at_count ?b) \<and> same_env w w' \<and> counting_ready w' \<and>
      attempts_entry w' = Some (File (attempts_text ?b) 384 True) \<and> others_kept w w'"
    then have "counting_ready w'" "entry_says (attempts_entry w') ?b" by (auto simp: entry_says_def)
    from Suc.IH [OF this, unfolded b] Suc.prems(3)
    have rest: "wp (repeat_io n record_failure) (\<lambda>r w'. \<exists>cs. r = Ok cs \<and>
        map unat cs = [unat (at_count a) + 2..<unat (at_count a) + n + 2]) w'"
      by (simp del: upt_Suc add: add.commute [of 2] add.commute [of n])
    have c: "unat c = unat (at_count a) + 1" using h b by simp
    show "wp (bnd (repeat_io n record_failure) (\<lambda>as. ret (c # as))) (\<lambda>r w'. \<exists>cs. r = Ok cs \<and>
        map unat cs = [unat (at_count a) + 1..<unat (at_count a) + Suc n + 1]) w'"
    proof (rule wp_bndI [OF rest])
      fix as :: "u32 list" and w2
      assume "\<exists>cs. Ok as = Ok cs \<and> map unat cs = [unat (at_count a) + 2..<unat (at_count a) + n + 2]"
      then have "map unat (c # as) = [unat (at_count a) + 1..<unat (at_count a) + Suc n + 1]"
        using c by (simp add: upt_rec [of "Suc (unat (at_count a))"])
      then show "wp (ret (c # as)) (\<lambda>r w'. \<exists>cs. r = Ok cs \<and>
          map unat cs = [unat (at_count a) + 1..<unat (at_count a) + Suc n + 1]) w2"
        by (auto simp: wp_rules)
    qed auto
  qed auto
qed

section \<open>Properties\<close>

text \<open>A disk with the state directory and no counter, and one with a pre-boot counter.\<close>

definition state_disk :: fs where
  "state_disk =
    [([''/''], Dir 493), ([''/'', ''var''], Dir 493), ([''/'', ''var'', ''lib''], Dir 493),
     ([''/'', ''var'', ''lib'', ''arxos''], Dir 493),
     ([''/'', ''var'', ''lib'', ''arxos'', ''deathstroke''], Dir 448)]"

lemma state_disk_ready: "counting_ready (machine state_disk x)" "attempts_entry (machine state_disk x) = None"
  by (simp_all add: counting_ready_def attempts_entry_def machine_def state_disk_def components_def
      STATE_DIR_def temp_name_def)

text \<open>
  C14. Consecutive failures cannot be undone by cutting the power. Take any stretch of time in which
  the counter of \<open>ds-core\<close> is only read and incremented, with any system call failing, increments cut
  short and any number of reboots: if \<open>k\<close> increments reported success, then the counter never again
  reads less than \<open>k\<close> (up to saturation at \<open>u32::MAX\<close>).
\<close>

theorem failures_survive_power_cuts:
  assumes "history record_failure read_attempts k w u" "attempts_hold 0 w"
    and "read_attempts u = (Ok a, v)"
  shows "min k (2 ^ 32 - 1) \<le> unat (at_count a)"
  using attempt_counter.history_count [OF assms] .

theorem failures_survive_power_cuts_witness:
  "\<exists>w1 a. history record_failure read_attempts 1 (machine state_disk () \<lparr>w_sched := [Cut]\<rparr>) w1 \<and>
    read_attempts w1 = (Ok a, w1) \<and> 1 \<le> unat (at_count a)"
proof -
  let ?w = "machine state_disk ()"
  have cut: "record_failure (?w\<lparr>w_sched := [Cut]\<rparr>) = (Halt PowerLoss, ?w)"
    by (simp add: record_failure_def read_attempts_def bnd_def ask_def attempt_def read_to_string_def sys_def
        machine_def)
  have boot: "reboot ?w ?w"
    by (rule reboot_machine) (simp add: sound_disk_def rooted_check state_disk_def)
  have none: "entry_says (attempts_entry ?w) no_attempts" by (simp add: entry_says_def state_disk_ready)
  obtain w1 c where bump: "record_failure ?w = (Ok c, w1)" and ready: "counting_ready w1"
    and entry: "attempts_entry w1 = Some (File (attempts_text \<lparr>at_count = sat_inc 0, at_last = 0\<rparr>) 384 True)"
    using wp_record_failure_calm [OF state_disk_ready(1) none]
    by (auto simp: wp_run no_attempts_def machine_def)
  have path: "attempts_path w1 = components (STATE_DIR @ ''/attempts'')"
    using ready by (simp add: counting_ready_def release_attempts_path)
  have read: "\<exists>a. read_attempts w1 = (Ok a, w1)"
    using ready entry
    by (simp add: read_attempts_def bnd_def ask_def attempt_def read_to_string_def sys_def counting_ready_def
        attempts_entry_def path read_result_def look_File attempts_file.dec_enc attempts_file.enc_utf8 lift_def)
  have hist: "history record_failure read_attempts 0 (?w\<lparr>w_sched := [Cut]\<rparr>) ?w"
    by (rule history.power_cut, rule history.tried, rule history.begin_history, rule cut, rule boot)
  have "history record_failure read_attempts (Suc 0) (?w\<lparr>w_sched := [Cut]\<rparr>) w1"
    by (rule history.bumped, rule hist, rule bump)
  moreover have "attempts_hold 0 ?w"
    by (simp add: attempts_hold_def persists_def entry_ok_def anchored_check rooted_check state_disk_def
        components_def STATE_DIR_def)
  then have "attempts_hold 0 (?w\<lparr>w_sched := [Cut]\<rparr>)" by simp
  ultimately show ?thesis using read failures_survive_power_cuts by fastforce
qed

text \<open>
  The same for the pre-boot counter that \<open>ds-unlock\<close> keeps on the ESP, wherever the ESP is mounted.
\<close>

theorem preboot_failures_survive_power_cuts:
  assumes "history (bump_count esp) (read_count esp) k w u" "count_holds esp 0 w"
    and "read_count esp u = (Ok c, v)"
  shows "min k (2 ^ 32 - 1) \<le> unat c"
  using esp_counter.history_count [OF assms] .

definition esp_disk :: fs where
  "esp_disk =
    [([''/''], Dir 493), ([''/'', ''e''], Dir 448), ([''/'', ''e'', ''counter''], File (count_text 0) 384 True)]"

theorem preboot_failures_survive_power_cuts_witness:
  "\<exists>w1 c. history (bump_count [''/'', ''e'']) (read_count [''/'', ''e'']) 1 (machine esp_disk ()) w1 \<and>
    read_count [''/'', ''e''] w1 = (Ok c, w1) \<and> 1 \<le> unat c"
proof -
  let ?w = "machine esp_disk ()" and ?e = "[''/'', ''e'']"
  have get: "w_sched ?w = []" "?e \<noteq> []" "fs_get (w_vis ?w) ?e = Some (Dir 448)"
    "fs_get (w_vis ?w) (counter_path ?e) = Some (File (count_text 0) 384 True)"
    "fs_get (w_vis ?w) (?e @ [temp_name ''counter'' (w_pid ?w)]) = None"
    by (simp_all add: machine_def esp_disk_def counter_path_def temp_name_def)
  obtain w1 where bump: "bump_count ?e ?w = (Ok (sat_inc 0), w1)" and calm: "w_sched w1 = []"
    and vis: "fs_get (w_vis w1) (counter_path ?e) = Some (File (count_text (sat_inc 0)) 384 True)"
    using wp_bump_count_calm [OF get(1-4) count_file.enc_utf8 count_file.dec_enc get(5)]
    by (auto simp: wp_run)
  have read: "read_count ?e w1 = (Ok (sat_inc 0), w1)"
    using read_count_calm [OF calm vis count_file.enc_utf8] by (simp add: count_file.dec_enc)
  have hist: "history (bump_count ?e) (read_count ?e) (Suc 0) ?w w1"
    by (rule history.bumped, rule history.begin_history, rule bump)
  have "count_holds ?e 0 ?w"
    by (simp add: count_holds_def persists_def entry_ok_def anchored_check rooted_check esp_disk_def counter_path_def)
  from preboot_failures_survive_power_cuts [OF hist this read] hist read show ?thesis by auto
qed

text \<open>
  Without faults \<open>record_failure\<close> counts: from a missing counter, \<open>n\<close> failures in a row return
  \<open>1, 2, ..., n\<close>.
\<close>

theorem failures_count_up:
  assumes "counting_ready w" "attempts_entry w = None" "n < 2 ^ 32"
  shows "\<exists>cs w'. repeat_io n record_failure w = (Ok cs, w') \<and> map unat cs = [1..<n + 1]"
proof -
  have "entry_says (attempts_entry w) no_attempts" using assms(2) by (simp add: entry_says_def)
  from repeat_failures [OF assms(1) this, of n] assms(3) show ?thesis
    by (auto simp: wp_run no_attempts_def)
qed

theorem failures_count_up_witness:
  "\<exists>cs w'. repeat_io 5 record_failure (machine state_disk ()) = (Ok cs, w') \<and> map unat cs = [1, 2, 3, 4, 5]"
proof -
  have "[1..<5 + 1] = [1, 2, 3, 4, 5 :: nat]" by code_simp
  then show ?thesis using failures_count_up [OF state_disk_ready, of 5 "()"] by (simp del: upt_Suc)
qed

text \<open>
  A counter that exists and does not parse stops \<open>record_failure\<close> with an error, whatever faults
  occur: nothing is written, so a malformed counter never becomes a fresh start.
\<close>

theorem corrupt_counter_fails_closed:
  assumes "\<not> w_debug w" "attempts_entry w = Some (File d m s)" "\<forall>a. utf8_valid d \<longrightarrow> parse_attempts d \<noteq> Ok a"
    and "record_failure w = (r, w')"
  shows "(\<forall>c. r \<noteq> Ok c) \<and> w_vis w' = w_vis w \<and> w_dur w' = w_dur w"
proof -
  let ?Q = "\<lambda>r w'. (\<forall>c. r \<noteq> Ok c) \<and> w_vis w' = w_vis w \<and> w_dur w' = w_dur w"
  have look: "look (w_vis w) (attempts_path w) = Some (File d m s)"
    using assms(1,2) by (simp add: attempts_entry_def release_attempts_path look_File)
  have "wp read_attempts ?Q w"
    unfolding read_attempts_def wp_bnd wp_ask then_post_simps wp_attempt
    by (rule wp_read_to_string) (use look assms(3) in \<open>auto simp: wp_rules\<close>)
  then have "wp record_failure ?Q w"
    unfolding record_failure_def by (rule wp_bndI) auto
  with assms(4) show ?thesis by (simp add: wp_def)
qed

theorem corrupt_counter_fails_closed_witness:
  "\<forall>c w'. record_failure (machine (state_disk @ [(components (STATE_DIR @ ''/attempts''), File ''garbage'' 384 True)]) ())
    \<noteq> (Ok c, w')"
proof (intro allI notI)
  let ?w = "machine (state_disk @ [(components (STATE_DIR @ ''/attempts''), File ''garbage'' 384 True)]) ()"
  fix c w'
  assume run: "record_failure ?w = (Ok c, w')"
  have entry: "\<not> w_debug ?w" "attempts_entry ?w = Some (File ''garbage'' 384 True)"
    by (simp_all add: attempts_entry_def machine_def state_disk_def components_def STATE_DIR_def)
  have "list_all plain ''garbage''" by (simp add: plain_def ascii_space_def)
  then have "split_whitespace ''garbage'' = [''garbage'']" by (rule split_whitespace_token) simp
  then have "\<forall>a. utf8_valid ''garbage'' \<longrightarrow> parse_attempts ''garbage'' \<noteq> Ok a"
    by (simp add: parse_attempts_def parse_word_def parse_word_radix_def parse_radix_def digit_val_def Let_def)
  from corrupt_counter_fails_closed [OF entry this run] show False by simp
qed

end
