(* ===== verification/Policy.thy ===== *)
theory Policy
  imports Codec
begin

text \<open>
  The attempt policy of \<open>ds-core\<close>: \<open>Policy\<close>, its defaults, \<open>validate\<close> and \<open>parse\<close>, the text form
  that \<open>dsctl set-duress\<close> and \<open>sync_esp_state\<close> write, and the option parser of \<open>dsctl set-duress\<close>.
\<close>

record policy =
  lockout_at :: u32
  wipe_at :: u32
  lockout_delay :: u64
  max_prompts :: u32

definition DEFAULT_LOCKOUT_AT :: u32 where "DEFAULT_LOCKOUT_AT = 3"
definition DEFAULT_WIPE_AT :: u32 where "DEFAULT_WIPE_AT = 5"
definition DEFAULT_MAX_PROMPTS :: u32 where "DEFAULT_MAX_PROMPTS = 5"
definition MAX_WIPE_AT :: u32 where "MAX_WIPE_AT = 20"
definition MAX_LOCKOUT_DELAY_SECS :: u64 where "MAX_LOCKOUT_DELAY_SECS = 3600"

definition default_policy :: policy where
  "default_policy =
    \<lparr>lockout_at = DEFAULT_LOCKOUT_AT, wipe_at = DEFAULT_WIPE_AT, lockout_delay = 0,
     max_prompts = DEFAULT_MAX_PROMPTS\<rparr>"

definition validate_policy :: "policy \<Rightarrow> policy res" where
  "validate_policy p =
    (if lockout_at p = 0
      \<or> lockout_at p \<ge> wipe_at p
      \<or> wipe_at p > MAX_WIPE_AT
      \<or> max_prompts p = 0
      \<or> max_prompts p > MAX_WIPE_AT
      \<or> wipe_at p > max_prompts p
      \<or> lockout_delay p > MAX_LOCKOUT_DELAY_SECS
     then Err (Msg ''invalid policy'') else Ok p)"

text \<open>The \<open>match key\<close> of \<open>Policy::parse\<close>, and one line of its loop.\<close>

definition policy_set :: "policy \<Rightarrow> string \<Rightarrow> string \<Rightarrow> policy res" where
  "policy_set p key value =
    (if key = ''lockout_at'' then
       rbind (some_or ''bad lockout_at'' (parse_word value)) (\<lambda>n. Ok (p\<lparr>lockout_at := n\<rparr>))
     else if key = ''wipe_at'' then
       rbind (some_or ''bad wipe_at'' (parse_word value)) (\<lambda>n. Ok (p\<lparr>wipe_at := n\<rparr>))
     else if key = ''lockout_delay'' then
       rbind (some_or ''bad lockout_delay'' (parse_word value)) (\<lambda>n. Ok (p\<lparr>lockout_delay := n\<rparr>))
     else if key = ''max_prompts'' then
       rbind (some_or ''bad max_prompts'' (parse_word value)) (\<lambda>n. Ok (p\<lparr>max_prompts := n\<rparr>))
     else Err (Msg ''unknown policy key''))"

definition policy_line :: "policy \<Rightarrow> string \<Rightarrow> policy res" where
  "policy_line p raw =
    (let line = trim raw in
     if line = [] \<or> prefix ''#'' line then Ok p
     else rbind (some_or ''policy lines must be key=value'' (split_once CHR ''='' line)) (\<lambda>(k, v).
       policy_set p (trim k) (trim v)))"

fun policy_lines :: "policy \<Rightarrow> string list \<Rightarrow> policy res" where
  "policy_lines p [] = Ok p"
| "policy_lines p (l # ls) = rbind (policy_line p l) (\<lambda>q. policy_lines q ls)"

definition parse_policy :: "string \<Rightarrow> policy res" where
  "parse_policy text = rbind (policy_lines default_policy (text_lines text)) validate_policy"

text \<open>The text that \<open>set_duress\<close> writes to the state directory and \<open>sync_esp_state\<close> to the ESP.\<close>

definition policy_text :: "policy \<Rightarrow> string" where
  "policy_text p =
    ''lockout_at='' @ show_word (lockout_at p) @ ''\<newline>wipe_at='' @ show_word (wipe_at p) @
    ''\<newline>lockout_delay='' @ show_word (lockout_delay p) @ ''\<newline>max_prompts='' @
    show_word (max_prompts p) @ ''\<newline>''"

text \<open>The bounds a policy in force obeys, as the error message of \<open>validate\<close> states them.\<close>

definition sound_policy :: "policy \<Rightarrow> bool" where
  "sound_policy p \<longleftrightarrow>
    1 \<le> unat (lockout_at p) \<and> unat (lockout_at p) < unat (wipe_at p) \<and>
    unat (wipe_at p) \<le> unat (max_prompts p) \<and> unat (max_prompts p) \<le> 20 \<and>
    unat (lockout_delay p) \<le> 3600"

lemma validate_policy_sound: "validate_policy p = Ok q \<longleftrightarrow> q = p \<and> sound_policy p"
proof -
  have "unat (20 :: u32) = 20" "unat (3600 :: u64) = 3600" by simp_all
  then show ?thesis
    by (auto simp: validate_policy_def sound_policy_def MAX_WIPE_AT_def MAX_LOCKOUT_DELAY_SECS_def
        word_less_nat_alt word_le_nat_alt unat_gt_0 not_less Suc_le_eq)
qed

lemma default_policy_sound: "sound_policy default_policy"
  by (simp add: sound_policy_def default_policy_def DEFAULT_LOCKOUT_AT_def DEFAULT_WIPE_AT_def
      DEFAULT_MAX_PROMPTS_def)


section \<open>The stored policy\<close>

lemma policy_line_kv:
  assumes "k \<noteq> []" "list_all plain k" "CHR ''='' \<notin> set k" "hd k \<noteq> CHR ''#''"
  shows "policy_line p (k @ CHR ''='' # show_word w) = policy_set p k (show_word w)"
proof -
  have "trim (k @ CHR ''='' # show_word w) = k @ CHR ''='' # show_word w"
    using assms by (intro trim_plain) (auto simp: show_word_ends hd_append list_all_iff)
  moreover have "trim k = k"
    using assms by (intro trim_plain) (auto simp: list_all_iff)
  moreover have "\<not> prefix ''#'' (k @ CHR ''='' # show_word w)"
    using assms by (cases k) auto
  ultimately show ?thesis
    using assms by (simp add: policy_line_def split_once_append)
qed

lemma policy_text_lines:
  "text_lines (policy_text p) =
    [''lockout_at='' @ show_word (lockout_at p), ''wipe_at='' @ show_word (wipe_at p),
     ''lockout_delay='' @ show_word (lockout_delay p), ''max_prompts='' @ show_word (max_prompts p)]"
  (is "_ = ?ls")
proof -
  have "list_all is_line ?ls"
    by (simp add: is_line_kv del: append.simps)
  moreover have "policy_text p = concat (map (\<lambda>l. l @ [CHR 0x0A]) ?ls)"
    by (simp add: policy_text_def)
  ultimately show ?thesis by (simp only: text_lines_concat)
qed

lemma policy_line_keys:
  "policy_line p (''lockout_at='' @ show_word w) = policy_set p ''lockout_at'' (show_word w)"
  "policy_line p (''wipe_at='' @ show_word w) = policy_set p ''wipe_at'' (show_word w)"
  "policy_line p (''lockout_delay='' @ show_word w) = policy_set p ''lockout_delay'' (show_word w)"
  "policy_line p (''max_prompts='' @ show_word w) = policy_set p ''max_prompts'' (show_word w)"
  using policy_line_kv [of "''lockout_at''" p w] policy_line_kv [of "''wipe_at''" p w]
    policy_line_kv [of "''lockout_delay''" p w] policy_line_kv [of "''max_prompts''" p w]
  by (simp_all add: plain_def ascii_space_def)

lemma policy_lines_text: "policy_lines q (text_lines (policy_text p)) = Ok p"
  unfolding policy_text_lines policy_lines.simps policy_line_keys
  by (simp add: policy_set_def)

lemma policy_text_ascii: "is_ascii (policy_text p)"
  by (simp add: policy_text_def)

interpretation policy_file: text_codec policy_text parse_policy sound_policy
  by unfold_locales (simp_all add: parse_policy_def policy_lines_text validate_policy_sound policy_text_ascii)

section \<open>Options of \<open>dsctl set-duress\<close>\<close>

definition enroll_set :: "policy \<Rightarrow> string \<Rightarrow> string \<Rightarrow> policy res" where
  "enroll_set p name value =
    (if name = ''--lockout-at'' then
       rbind (some_or ''invalid --lockout-at'' (parse_word value)) (\<lambda>n. Ok (p\<lparr>lockout_at := n\<rparr>))
     else if name = ''--wipe-at'' then
       rbind (some_or ''invalid --wipe-at'' (parse_word value)) (\<lambda>n. Ok (p\<lparr>wipe_at := n\<rparr>))
     else if name = ''--lockout-delay'' then
       rbind (some_or ''invalid --lockout-delay'' (parse_word value)) (\<lambda>n. Ok (p\<lparr>lockout_delay := n\<rparr>))
     else if name = ''--max-prompts'' then
       rbind (some_or ''invalid --max-prompts'' (parse_word value)) (\<lambda>n. Ok (p\<lparr>max_prompts := n\<rparr>))
     else Err (Msg ''unknown set-duress option''))"

text \<open>The \<open>while let Some(name)\<close> loop, with the names seen so far.\<close>

fun enroll_options :: "policy \<Rightarrow> string set \<Rightarrow> string list \<Rightarrow> (policy \<times> string set) res" where
  "enroll_options p seen [] = Ok (p, seen)"
| "enroll_options p seen [name] =
    (if name \<in> seen then Err (Msg ''duplicate policy option'') else Err (Msg ''missing value''))"
| "enroll_options p seen (name # value # rest) =
    (if name \<in> seen then Err (Msg ''duplicate policy option'')
     else rbind (enroll_set p name value) (\<lambda>q. enroll_options q (insert name seen) rest))"

definition enrollment_policy :: "string list \<Rightarrow> policy res" where
  "enrollment_policy args =
    rbind (enroll_options default_policy {} (drop 1 args)) (\<lambda>(p, seen).
    validate_policy
      (if ''--max-prompts'' \<notin> seen then p\<lparr>max_prompts := max (max_prompts p) (wipe_at p)\<rparr> else p))"

text \<open>The option names of a command line: its words at even places.\<close>

fun evens :: "'a list \<Rightarrow> 'a list" where
  "evens [] = []"
| "evens [x] = [x]"
| "evens (x # y # zs) = x # evens zs"

definition set_duress_options :: "string set" where
  "set_duress_options = {''--lockout-at'', ''--wipe-at'', ''--lockout-delay'', ''--max-prompts''}"

lemma enroll_set_frame:
  "enroll_set p name v = Ok q \<Longrightarrow>
    name \<in> set_duress_options \<and> (name \<noteq> ''--max-prompts'' \<longrightarrow> max_prompts q = max_prompts p)"
  by (auto simp: enroll_set_def set_duress_options_def ok_inv split: if_splits)

lemma enroll_options_Ok:
  "enroll_options p seen xs = Ok (q, seen') \<Longrightarrow>
    even (length xs) \<and> distinct (evens xs) \<and> set (evens xs) \<subseteq> set_duress_options \<and>
    seen' = seen \<union> set (evens xs) \<and> seen \<inter> set (evens xs) = {} \<and>
    (''--max-prompts'' \<notin> set (evens xs) \<longrightarrow> max_prompts q = max_prompts p)"
proof (induction p seen xs rule: enroll_options.induct)
  case (3 p seen name v rest)
  then obtain p' where "name \<notin> seen" "enroll_set p name v = Ok p'"
      "enroll_options p' (insert name seen) rest = Ok (q, seen')"
    by (auto simp: ok_inv split: if_splits)
  with "3.IH" [of p'] enroll_set_frame [of p name v p'] show ?case by auto
qed (auto split: if_splits)

text \<open>
  C33. Every policy that \<open>Policy::parse\<close> accepts obeys the documented chain of bounds
  \<open>1 <= lockout_at < wipe_at <= max_prompts <= 20\<close> and \<open>lockout_delay <= 3600\<close>, whatever the text
  it was read from; and it survives the copy that \<open>arm\<close> makes: the text \<open>sync_esp_state\<close> writes for
  it parses to the very same policy.
\<close>

theorem parse_policy_sound:
  assumes "parse_policy text = Ok p"
  shows "sound_policy p \<and> parse_policy (policy_text p) = Ok p"
proof -
  have "sound_policy p"
    using assms by (auto simp: parse_policy_def ok_inv validate_policy_sound)
  then show ?thesis by (simp add: policy_file.dec_enc)
qed

theorem parse_policy_sound_witness:
  "sound_policy default_policy \<and> parse_policy (policy_text default_policy) = Ok default_policy"
  by (rule parse_policy_sound [of "policy_text default_policy"])
    (rule policy_file.dec_enc [OF default_policy_sound])

text \<open>
  C39. \<open>dsctl set-duress\<close> accepts an option list only when the options come in name and value pairs,
  no name is repeated, every name is one of the four documented ones, and the resulting policy obeys
  the bounds; without \<open>--max-prompts\<close> the prompt count is raised to the wipe threshold when that is
  larger than the default.
\<close>

theorem enrollment_policy_strict:
  assumes "enrollment_policy args = Ok p"
  shows "even (length (drop 1 args)) \<and> distinct (evens (drop 1 args)) \<and>
    set (evens (drop 1 args)) \<subseteq> set_duress_options \<and> sound_policy p \<and>
    (''--max-prompts'' \<notin> set (evens (drop 1 args)) \<longrightarrow>
      max_prompts p = max DEFAULT_MAX_PROMPTS (wipe_at p))"
proof -
  from assms obtain q seen where q: "enroll_options default_policy {} (drop 1 args) = Ok (q, seen)"
    and v: "validate_policy (if ''--max-prompts'' \<notin> seen
        then q\<lparr>max_prompts := max (max_prompts q) (wipe_at q)\<rparr> else q) = Ok p"
    by (auto simp: enrollment_policy_def ok_inv)
  have "max_prompts default_policy = DEFAULT_MAX_PROMPTS" by (simp add: default_policy_def)
  with enroll_options_Ok [OF q] v show ?thesis
    by (auto simp: validate_policy_sound split: if_splits)
qed

theorem enrollment_policy_strict_witness:
  "sound_policy (default_policy\<lparr>lockout_at := 4, wipe_at := 8, max_prompts := 8\<rparr>)"
proof -
  let ?args = "[''set-duress'', ''--lockout-at'', ''4'', ''--wipe-at'', ''8'']"
  have "enrollment_policy ?args = Ok (default_policy\<lparr>lockout_at := 4, wipe_at := 8, max_prompts := 8\<rparr>)"
    by (simp add: enrollment_policy_def enroll_set_def parse_word_def parse_word_radix_def parse_radix_def
        digit_val_def validate_policy_def default_policy_def DEFAULT_LOCKOUT_AT_def DEFAULT_WIPE_AT_def
        DEFAULT_MAX_PROMPTS_def MAX_WIPE_AT_def MAX_LOCKOUT_DELAY_SECS_def max_def)
  from enrollment_policy_strict [OF this] show ?thesis by blast
qed

end
