(* ===== verification/Unlock.thy ===== *)
theory Unlock
  imports Counters Erase Policy
begin

text \<open>
  \<open>ds-unlock\<close>, the pre-boot unlock manager: the checks before any prompt, the prompt loop with the
  duress code, the counter and the escalation, and the commands it gives to \<open>ds-erase\<close>. The secret is
  written to \<open>cryptsetup\<close> and the end of the command awaited as one command.
\<close>

section \<open>State on the ESP\<close>

definition read_cfg :: "path \<Rightarrow> ('x, policy) io" where
  "read_cfg esp =
    bnd (ctx ''read armed policy'' (read_to_string (esp @ [''config'']))) (\<lambda>text.
    ctx ''invalid armed policy'' (lift (parse_policy text)))"

text \<open>The loop over the pairs of the file on the ESP and its copy frozen into the initramfs.\<close>

definition baked_pairs :: "(string \<times> string) list" where
  "baked_pairs =
    [(''duress.hash'', ''duress.hash.trusted''), (''config'', ''config.trusted''),
     (''daily.slot'', ''daily.slot.trusted''), (''recovery.slot'', ''recovery.slot.trusted'')]"

fun check_baked :: "path \<Rightarrow> (string \<times> string) list \<Rightarrow> ('x, unit) io" where
  "check_baked esp [] = ret ()"
| "check_baked esp ((live, trusted) # ps) =
    (let bpath = components CONFIG_DIR @ [trusted] in
     bnd (path_is_file bpath) (\<lambda>there.
     if \<not> there then check_baked esp ps
     else
       bnd (ctx ''read baked reference'' (read_to_string bpath)) (\<lambda>baked.
       bnd (ctx ''read ESP'' (read_to_string (esp @ [live]))) (\<lambda>onesp.
       if trim baked \<noteq> trim onesp
       then bail ''ESP file does not match the initramfs-baked reference: pre-boot state was tampered with''
       else check_baked esp ps))))"

definition verify_against_baked :: "path \<Rightarrow> ('x, unit) io" where
  "verify_against_baked esp = check_baked esp baked_pairs"

definition load_duress :: "path \<Rightarrow> ('x, duress_hash) io" where
  "load_duress esp =
    bnd (ctx ''read armed verifier'' (read_to_string (esp @ [''duress.hash'']))) (\<lambda>text.
    ctx ''invalid armed verifier'' (lift (parse_verifier text)))"

definition read_daily_slot :: "path \<Rightarrow> ('x, u8) io" where
  "read_daily_slot esp =
    bnd (ctx ''read daily.slot'' (read_to_string (esp @ [''daily.slot'']))) (\<lambda>text.
    bnd (lift (some_or ''invalid daily.slot'' (parse_word (trim text)))) (\<lambda>slot.
    if slot > 31 then bail ''daily.slot outside 0..31'' else ret slot))"

definition read_recovery_slot :: "path \<Rightarrow> ('x, u8) io" where
  "read_recovery_slot esp =
    bnd (ctx ''read recovery.slot'' (read_to_string (esp @ [''recovery.slot'']))) (\<lambda>text.
    bnd (lift (some_or ''invalid recovery.slot'' (parse_word (trim text)))) (\<lambda>slot.
    if slot > 31 then bail ''recovery.slot outside 0..31'' else ret slot))"

section \<open>Commands\<close>

definition luks_open :: "string \<Rightarrow> string \<Rightarrow> string \<Rightarrow> ('x, bool) io" where
  "luks_open device mapping secret =
    bnd (run_cmd ''cryptsetup'' [''open'', device, mapping] (secret @ [CHR 0x0A])) (\<lambda>c.
    lift (cmd_status ''spawn cryptsetup open'' c))"

fun first_existing :: "string list \<Rightarrow> ('x, string) io" where
  "first_existing [] = ret ''ds-erase''"
| "first_existing (p # ps) = bnd (path_exists (components p)) (\<lambda>there. if there then ret p else first_existing ps)"

definition find_ds_erase :: "('x, string) io" where
  "find_ds_erase =
    first_existing [''/usr/lib/arxos/deathstroke/ds-erase'', ''/usr/local/bin/ds-erase'', ''ds-erase'']"

definition wipe_args :: "string \<Rightarrow> path \<Rightarrow> string \<Rightarrow> u8 \<Rightarrow> u8 \<Rightarrow> bool \<Rightarrow> string list" where
  "wipe_args device esp mapping slot recovery_slot tm =
    [''--fire'', ''--device'', device, ''--mode'', ''killslot'', ''--slot'', show_word slot,
     ''--recovery-slot'', show_word recovery_slot, ''--journal'', path_text (esp @ [JOURNAL_NAME]),
     ''--map-name'', mapping, ''--header-scan'', path_text esp] @
    (if tm then [''--test-no-poweroff''] else [])"

definition do_wipe :: "string \<Rightarrow> path \<Rightarrow> string \<Rightarrow> u8 \<Rightarrow> u8 \<Rightarrow> ('x, nat) io" where
  "do_wipe device esp mapping slot recovery_slot =
    bnd find_ds_erase (\<lambda>erase.
    bnd (ask test_mode) (\<lambda>tm.
    bnd (run_cmd erase (wipe_args device esp mapping slot recovery_slot tm) []) (\<lambda>st.
    if cmd_success st then ret 2 else bail ''daily-slot destruction failed'')))"

definition resume_args :: "path \<Rightarrow> string \<Rightarrow> u8 \<Rightarrow> u8 \<Rightarrow> string \<Rightarrow> string list" where
  "resume_args journal device slot recovery_slot mapping =
    [''--resume'', ''--journal'', path_text journal, ''--expected-device'', device,
     ''--expected-slot'', show_word slot, ''--expected-recovery-slot'', show_word recovery_slot,
     ''--map-name'', mapping]"

definition resume_wipe :: "path \<Rightarrow> string \<Rightarrow> u8 \<Rightarrow> u8 \<Rightarrow> string \<Rightarrow> ('x, nat) io" where
  "resume_wipe journal device slot recovery_slot mapping =
    bnd find_ds_erase (\<lambda>erase.
    bnd (run_cmd erase (resume_args journal device slot recovery_slot mapping) []) (\<lambda>st.
    if cmd_success st then ret 2 else bail ''interrupted daily-slot transaction could not resume''))"

section \<open>The prompt\<close>

definition plymouth_active :: "('x, bool) io" where
  "plymouth_active = bnd (run_cmd ''plymouth'' [''--ping''] []) (\<lambda>c. ret (cmd_success c))"

definition trim_newlines :: "string \<Rightarrow> string" where
  "trim_newlines s = rev (dropWhile (\<lambda>c. c = CHR 0x0A \<or> c = CHR 0x0D) (rev s))"

definition prompt_secret :: "('x, string) io" where
  "prompt_secret =
    bnd (ask (\<lambda>w. if test_mode w then w_env w ''DS_SECRET'' else None)) (\<lambda>scripted.
    case scripted of
      Some s \<Rightarrow> ret s
    | None \<Rightarrow>
        bnd plymouth_active (\<lambda>active.
        if active then
          bnd (run_cmd ''plymouth'' [''ask-for-password'', ''--prompt'', ''Enter passphrase to unlock ArxOS''] []) (\<lambda>c.
          case c of
            Exited True out \<Rightarrow> ret (trim_newlines (from_utf8_lossy out))
          | _ \<Rightarrow> ctx ''read passphrase without terminal echo'' prompt_password)
        else ctx ''read passphrase without terminal echo'' prompt_password))"

section \<open>The prompt loop\<close>

text \<open>\<open>for _ in 0..cfg.max_prompts\<close>, with the number of prompts left.\<close>

fun prompt_loop ::
  "nat \<Rightarrow> string \<Rightarrow> path \<Rightarrow> string \<Rightarrow> policy \<Rightarrow> duress_hash \<Rightarrow> u8 \<Rightarrow> u8 \<Rightarrow> ('x, nat) io" where
  "prompt_loop 0 device esp mapping cfg duress daily rec = bail ''too many attempts''"
| "prompt_loop (Suc left) device esp mapping cfg duress daily rec =
    bnd prompt_secret (\<lambda>secret.
    bnd (ask w_kdf) (\<lambda>kdf.
    bnd (ctx ''verify duress code'' (lift (verify kdf duress secret))) (\<lambda>is_duress.
    if is_duress then do_wipe device esp mapping daily rec
    else
      bnd (luks_open device mapping secret) (\<lambda>opened.
      if opened then bnd (reset_count esp) (\<lambda>_. ret 0)
      else
        bnd (bump_count esp) (\<lambda>n.
        if n \<ge> wipe_at cfg then do_wipe device esp mapping daily rec
        else
          bnd (if n \<ge> lockout_at cfg \<and> lockout_delay cfg > 0 then sleep_secs (lockout_delay cfg) else ret ()) (\<lambda>_.
          prompt_loop left device esp mapping cfg duress daily rec))))))"

definition unlock_run :: "('x, nat) io \<Rightarrow> string list \<Rightarrow> ('x, nat) io" where
  "unlock_run self_test args =
    (if ''--self-test'' \<in> set args then self_test
     else
       bnd (lift (some_or ''--device <luks-dev> required'' (flag args ''--device''))) (\<lambda>device.
       let esp = components (case flag args ''--esp-dir'' of Some p \<Rightarrow> p | None \<Rightarrow> ''/ds-esp/deathstroke'');
           mapping = (case flag args ''--map-name'' of Some m \<Rightarrow> m | None \<Rightarrow> ''cryptroot'') in
       bnd (path_is_dir esp) (\<lambda>d.
       bnd (require d ''armed ESP state directory missing'') (\<lambda>_.
       bnd (path_is_file (esp @ [''armed''])) (\<lambda>a.
       bnd (require a ''armed ESP marker missing'') (\<lambda>_.
       bnd (verify_against_baked esp) (\<lambda>_.
       bnd (read_cfg esp) (\<lambda>cfg.
       bnd (load_duress esp) (\<lambda>duress.
       bnd (read_daily_slot esp) (\<lambda>daily_slot.
       bnd (read_recovery_slot esp) (\<lambda>recovery_slot.
       bnd (require (daily_slot \<noteq> recovery_slot) ''daily.slot and recovery.slot must be distinct'') (\<lambda>_.
       let journal = esp @ [JOURNAL_NAME] in
       bnd (path_exists journal) (\<lambda>there.
       if there then resume_wipe journal device daily_slot recovery_slot mapping
       else
         bnd (read_count esp) (\<lambda>n.
         if n \<ge> wipe_at cfg then do_wipe device esp mapping daily_slot recovery_slot
         else prompt_loop (unat (max_prompts cfg)) device esp mapping cfg duress daily_slot recovery_slot))))))))))))))"

definition unlock_main :: "('x, nat) io \<Rightarrow> string list \<Rightarrow> ('x, nat) io" where
  "unlock_main self_test args =
    bnd (attempt (unlock_run self_test args)) (\<lambda>r.
    ret (case r of Inl _ \<Rightarrow> 1 | Inr code \<Rightarrow> code))"

end
