(* ===== verification/Unlock_Safety.thy ===== *)
theory Unlock_Safety
  imports Unlock
begin

text \<open>
  What a boot under \<open>ds-unlock\<close> guarantees: which commands it can run with which secrets, how many
  guesses it grants, and that altered state on the ESP or an unfinished destruction stops it.
\<close>

section \<open>An armed machine, for the examples\<close>

definition armed_disk :: fs where
  "armed_disk =
    [([''/''], Dir 493), ([''/'', ''e''], Dir 448),
     ([''/'', ''e'', ''armed''], File ''1'' 384 True),
     ([''/'', ''e'', ''config''], File (policy_text default_policy) 384 True),
     ([''/'', ''e'', ''duress.hash''], File (serialize sample_hash) 384 True),
     ([''/'', ''e'', ''daily.slot''], File ''0'' 384 True),
     ([''/'', ''e'', ''recovery.slot''], File ''1'' 384 True),
     ([''/'', ''e'', ''counter''], File (count_text 2) 384 True)]"

abbreviation armed_args :: "string list" where
  "armed_args \<equiv> [''--device'', ''/dev/sda'', ''--esp-dir'', ''/e'']"

section \<open>The commands of a run\<close>

text \<open>Every command run between two moments satisfies \<open>P\<close>.\<close>

definition logs :: "(string \<times> string list \<times> string \<Rightarrow> bool) \<Rightarrow> 'x world \<Rightarrow> 'x world \<Rightarrow> bool" where
  "logs P w w' \<longleftrightarrow> w_kdf w' = w_kdf w \<and> w_exec w' = w_exec w \<and> (\<exists>new. w_log w' = w_log w @ new \<and> (\<forall>e\<in>set new. P e))"

interpretation logging: step_relation "logs P" for P
proof
  fix u v w :: "'x world" and ss
  show "logs P w w" by (simp add: logs_def)
  show "logs P u w" if uv: "logs P u v" and vw: "logs P v w"
  proof -
    obtain a b where "w_log v = w_log u @ a" "\<forall>e\<in>set a. P e" "w_log w = w_log v @ b" "\<forall>e\<in>set b. P e"
      using uv vw unfolding logs_def by blast
    then have "w_log w = w_log u @ (a @ b)" "\<forall>e\<in>set (a @ b). P e" by auto
    with uv vw show ?thesis unfolding logs_def by metis
  qed
  show "logs P w (w\<lparr>w_sched := ss\<rparr>)" by (simp add: logs_def)
qed

lemma logs_trans: "logs P u v \<Longrightarrow> logs P v w \<Longrightarrow> logs P u w"
  by (rule logging.trans)

lemma logs_reading: "keeps only_sched m \<Longrightarrow> keeps (logs P) m"
  by (rule keeps_weaken [of only_sched]) (auto simp: only_sched_def logs_def)

lemma logs_files: "keeps same_env m \<Longrightarrow> keeps (logs P) m"
  by (rule keeps_weaken [of same_env]) (auto simp: same_env_def logs_def)

lemma logs_run_cmd: "P (prog, args, inp) \<Longrightarrow> keeps (logs P) (run_cmd prog args inp)"
  unfolding keeps_def by (intro allI wp_run_cmd) (simp_all add: logs_def)

lemma logs_mono: "logs P w w' \<Longrightarrow> (\<And>e. P e \<Longrightarrow> Q e) \<Longrightarrow> logs Q w w'"
  unfolding logs_def by blast

text \<open>A program of the destruction: one of the three names of \<open>ds-erase\<close>.\<close>

definition erase_prog :: "string \<Rightarrow> bool" where
  "erase_prog p \<longleftrightarrow> p \<in> {''/usr/lib/arxos/deathstroke/ds-erase'', ''/usr/local/bin/ds-erase'', ''ds-erase''}"

lemma first_existing_in: "first_existing ps w = (Ok p, w') \<Longrightarrow> p \<in> set ps \<or> p = ''ds-erase''"
  by (induction ps arbitrary: w) (auto simp: bnd_def ret_def split: prod.splits res.splits if_splits)

lemma keeps_first_existing: "keeps only_sched (first_existing ps)"
  by (induction ps) (auto intro!: reading.keeps_bnd reading.keeps_basic)

lemma keeps_find_ds_erase: "keeps only_sched find_ds_erase"
  unfolding find_ds_erase_def by (rule keeps_first_existing)

lemma find_ds_erase_prog: "find_ds_erase w = (Ok p, w') \<Longrightarrow> erase_prog p"
  using first_existing_in [of _ w p w'] unfolding find_ds_erase_def erase_prog_def by fastforce

lemma logs_wipes:
  assumes "\<And>p tm. erase_prog p \<Longrightarrow> P (p, wipe_args device esp mapping daily rec tm, [])"
  shows "keeps (logs P) (do_wipe device esp mapping daily rec)"
  unfolding do_wipe_def
proof (intro logging.keeps_bnd_dep logs_reading [OF keeps_find_ds_erase] logging.keeps_basic logs_run_cmd)
  fix w1 p w2 v tm u assume "find_ds_erase w1 = (Ok p, w2)"
  then show "P (p, wipe_args device esp mapping daily rec tm, [])"
    by (rule assms [OF find_ds_erase_prog])
qed (auto intro: logging.keeps_basic)

lemma logs_resumes:
  assumes "\<And>p. erase_prog p \<Longrightarrow> P (p, resume_args journal device daily rec mapping, [])"
  shows "keeps (logs P) (resume_wipe journal device daily rec mapping)"
  unfolding resume_wipe_def
  by (intro logging.keeps_bnd_dep logs_reading [OF keeps_find_ds_erase] logs_run_cmd)
    (auto intro: logging.keeps_basic assms find_ds_erase_prog)

lemma logs_prompt:
  assumes "\<And>args. P (''plymouth'', args, [])"
  shows "keeps (logs P) prompt_secret"
proof -
  have pw: "keeps (logs P) prompt_password"
    unfolding prompt_password_def by (rule logging.keeps_sys) (auto simp: logs_def split: list.splits)
  show ?thesis
    unfolding prompt_secret_def plymouth_active_def
    by (intro logging.keeps_bnd logging.keeps_basic)
      (auto intro!: logging.keeps_bnd logging.keeps_basic logs_run_cmd assms pw split: option.splits cmd.splits bool.splits)
qed

lemma keeps_write_count: "keeps same_env (write_count esp c)"
  unfolding write_count_def by (intro files.keeps_basic keeps_atomic_write)

lemma keeps_bump_count: "keeps same_env (bump_count esp)"
  unfolding bump_count_def Let_def read_count_def
  by (intro files.keeps_bnd files.keeps_basic keeps_write_count)

lemma logs_sleep: "keeps (logs P) (sleep_secs n)"
  by (simp add: keeps_def sleep_secs_def wp_def logs_def)

lemma keeps_check_baked: "keeps only_sched (check_baked esp ps)"
  by (induction esp ps rule: check_baked.induct)
    (auto intro!: reading.keeps_bnd reading.keeps_basic simp: Let_def)

lemma keeps_state_readers:
  "keeps only_sched (verify_against_baked esp)" "keeps only_sched (read_cfg esp)" "keeps only_sched (load_duress esp)"
  "keeps only_sched (read_daily_slot esp)" "keeps only_sched (read_recovery_slot esp)"
  unfolding verify_against_baked_def read_cfg_def load_duress_def read_daily_slot_def read_recovery_slot_def
  by (auto intro!: reading.keeps_bnd reading.keeps_basic keeps_check_baked)

section \<open>Which secrets reach \<open>cryptsetup\<close>\<close>

definition permitted :: "kdf \<Rightarrow> duress_hash \<Rightarrow> string \<Rightarrow> string \<Rightarrow> string \<times> string list \<times> string \<Rightarrow> bool" where
  "permitted kdf dh device mapping e \<longleftrightarrow>
    erase_prog (fst e) \<or> fst e = ''plymouth'' \<or>
    fst e = ''cryptsetup'' \<and> fst (snd e) = [''open'', device, mapping] \<and>
      (\<exists>s. snd (snd e) = s @ [CHR 0x0A] \<and> verify kdf dh s = Ok False)"

text \<open>The last command was an attempt to open the container.\<close>

definition opened_last :: "string \<Rightarrow> string \<Rightarrow> 'x world \<Rightarrow> bool" where
  "opened_last device mapping w \<longleftrightarrow>
    w_log w \<noteq> [] \<and> (\<exists>s. last (w_log w) = (''cryptsetup'', [''open'', device, mapping], s))"

definition boot_post ::
  "(string \<times> string list \<times> string \<Rightarrow> bool) \<Rightarrow> string \<Rightarrow> string \<Rightarrow> 'x world \<Rightarrow> nat res \<Rightarrow> 'x world \<Rightarrow> bool" where
  "boot_post P device mapping w r w' \<longleftrightarrow> logs P w w' \<and> (r = Ok 0 \<longrightarrow> opened_last device mapping w')"

lemma wp_bnd_boot:
  assumes m: "keeps (logs P) m"
    and f: "\<And>a w1. m w = (Ok a, w1) \<Longrightarrow> logs P w w1 \<Longrightarrow> wp (f a) (boot_post P device mapping w1) w1"
  shows "wp (bnd m f) (boot_post P device mapping w) w"
proof (cases "m w")
  case (Pair r w1)
  have lg: "logs P w w1" by (rule keepsD [OF m Pair])
  show ?thesis
  proof (cases r)
    case (Ok a)
    have "wp (f a) (boot_post P device mapping w) w1"
      by (rule wp_mono [OF f [OF Pair [unfolded Ok] lg]]) (auto simp: boot_post_def dest: logs_trans [OF lg])
    then show ?thesis using Pair Ok by (simp add: wp_def bnd_def)
  qed (use Pair lg in \<open>simp_all add: wp_def bnd_def boot_post_def\<close>)
qed

lemma wipe_code: "do_wipe device esp mapping daily rec w = (Ok n, w') \<Longrightarrow> n = 2"
  by (auto simp: do_wipe_def bnd_def ret_def bail_def fail_def split: prod.splits res.splits if_splits)

lemma resume_code: "resume_wipe journal device daily rec mapping w = (Ok n, w') \<Longrightarrow> n = 2"
  by (auto simp: resume_wipe_def bnd_def ret_def bail_def fail_def split: prod.splits res.splits if_splits)

lemma boot_postI: "logs P w w' \<Longrightarrow> r \<noteq> Ok 0 \<Longrightarrow> boot_post P device mapping w r w'"
  by (simp add: boot_post_def)

lemma wp_wipe_boot: "wp (do_wipe device esp mapping daily rec) (boot_post (permitted kdf dh device mapping) device mapping w) w"
proof (rule wpI, rule boot_postI)
  have "keeps (logs (permitted kdf dh device mapping)) (do_wipe device esp mapping daily rec :: ('a, nat) io)"
    by (rule logs_wipes) (simp add: permitted_def)
  then show "logs (permitted kdf dh device mapping) w w'" if "do_wipe device esp mapping daily rec w = (r, w')" for r w'
    using keepsD that by blast
qed (use wipe_code in fastforce)

lemma wp_resume_boot:
  "wp (resume_wipe journal device daily rec mapping) (boot_post (permitted kdf dh device mapping) device mapping w) w"
proof (rule wpI, rule boot_postI)
  have "keeps (logs (permitted kdf dh device mapping)) (resume_wipe journal device daily rec mapping :: ('a, nat) io)"
    by (rule logs_resumes) (simp add: permitted_def)
  then show "logs (permitted kdf dh device mapping) w w'" if "resume_wipe journal device daily rec mapping w = (r, w')" for r w'
    using keepsD that by blast
qed (use resume_code in fastforce)

lemma wp_open_boot:
  assumes "verify kdf dh s = Ok False"
  shows "wp (luks_open device mapping s)
    (\<lambda>r w'. logs (permitted kdf dh device mapping) w w' \<and> (r = Ok True \<longrightarrow> opened_last device mapping w')) w"
  unfolding luks_open_def wp_bnd
  by (rule wp_run_cmd)
    (auto simp: wp_rules logs_def permitted_def assms opened_last_def cmd_status_def split: cmd.splits)

lemma keeps_log_files: "keeps same_env m \<Longrightarrow> wp m (\<lambda>r w'. same_env w w') w"
  by (rule wp_keeps)

lemma opened_last_env: "same_env w w' \<Longrightarrow> opened_last device mapping w' = opened_last device mapping w"
  by (simp add: opened_last_def same_env_def)

lemma wp_loop_boot:
  fixes w :: "'a world"
  shows "w_kdf w = kdf \<Longrightarrow>
    wp (prompt_loop left device esp mapping cfg dh daily rec) (boot_post (permitted kdf dh device mapping) device mapping w) w"
proof (induction left arbitrary: w)
  case 0
  show ?case by (simp add: wp_rules boot_post_def logging.refl)
next
  case (Suc left)
  let ?P = "permitted kdf dh device mapping"
  have prompt: "keeps (logs ?P) prompt_secret" by (rule logs_prompt) (simp add: permitted_def)
  have pause: "keeps (logs ?P) (if b then sleep_secs t else ret ())" for b t
    by (auto intro: logs_sleep logging.keeps_basic)
  have kdf: "w_kdf v = kdf" if "w_kdf u = kdf" "logs ?P u v" for u v :: "'a world"
    using that by (simp add: logs_def)
  have wrong: "wp (bnd (bump_count esp) (\<lambda>n.
        if n \<ge> wipe_at cfg then do_wipe device esp mapping daily rec
        else
          bnd (if n \<ge> lockout_at cfg \<and> lockout_delay cfg > 0 then sleep_secs (lockout_delay cfg) else ret ()) (\<lambda>_.
          prompt_loop left device esp mapping cfg dh daily rec))) (boot_post ?P device mapping v) v"
    if "w_kdf v = kdf" for v :: "'a world"
    by (rule wp_bnd_boot [OF logs_files [OF keeps_bump_count]], rule wp_ifI, rule wp_wipe_boot, rule wp_bnd_boot [OF pause])
      (rule Suc.IH, simp add: logs_def that)
  have right: "wp (bnd (reset_count esp) (\<lambda>_. ret 0)) (boot_post ?P device mapping v) v"
    if "opened_last device mapping v" for v :: "'a world"
  proof (rule wp_bndI [OF keeps_log_files])
    show "keeps same_env (reset_count esp)" unfolding reset_count_def by (rule keeps_write_count)
  qed (use that opened_last_env in \<open>auto simp: wp_rules boot_post_def same_env_def logs_def\<close>)
  show ?case
    unfolding prompt_loop.simps
  proof (rule wp_bnd_boot [OF prompt], rule wp_bnd_boot [OF logging.keeps_ask], rule wp_bnd_boot, goal_cases)
    case 1
    show ?case by (rule logging.keeps_basic, rule logging.keeps_basic)
  next
    case (2 secret w1 k w2 d w3)
    have k: "k = kdf" "w_kdf w3 = kdf" using 2 Suc.prems kdf by (auto simp: ask_def dest: kdf)
    have "verify kdf dh secret = Ok d"
      using 2(5) by (auto simp: ctx_def lift_def k rctx_def split: res.splits prod.splits)
    then show ?case
    proof (cases d)
      case False
      then have v: "verify kdf dh secret = Ok False" using \<open>verify kdf dh secret = Ok d\<close> by simp
      show ?thesis
        unfolding if_not_P [OF False]
      proof (rule wp_bndI [OF wp_open_boot [OF v]])
        fix opened w4
        assume o: "logs ?P w3 w4 \<and> (Ok opened = Ok True \<longrightarrow> opened_last device mapping w4)"
        have "wp (if opened then bnd (reset_count esp) (\<lambda>_. ret 0) else bnd (bump_count esp) (\<lambda>n.
            if n \<ge> wipe_at cfg then do_wipe device esp mapping daily rec
            else
              bnd (if n \<ge> lockout_at cfg \<and> lockout_delay cfg > 0 then sleep_secs (lockout_delay cfg) else ret ()) (\<lambda>_.
              prompt_loop left device esp mapping cfg dh daily rec))) (boot_post ?P device mapping w4) w4"
          using o right wrong kdf [OF k(2)] by simp
        then show "wp (if opened then bnd (reset_count esp) (\<lambda>_. ret 0) else bnd (bump_count esp) (\<lambda>n.
            if n \<ge> wipe_at cfg then do_wipe device esp mapping daily rec
            else
              bnd (if n \<ge> lockout_at cfg \<and> lockout_delay cfg > 0 then sleep_secs (lockout_delay cfg) else ret ()) (\<lambda>_.
              prompt_loop left device esp mapping cfg dh daily rec))) (boot_post ?P device mapping w3) w4"
          by (rule wp_mono) (use o in \<open>auto simp: boot_post_def dest: logs_trans\<close>)
      qed (simp_all add: boot_post_def)
    qed (simp add: wp_wipe_boot)
  qed
qed

section \<open>Reading without faults\<close>

lemma idle_check_baked: "idle (check_baked esp ps)"
  by (induction esp ps rule: check_baked.induct) (auto intro!: idle_bnd idle_basic idle_ctx simp: Let_def)

lemma idle_state_readers:
  "idle (verify_against_baked esp)" "idle (read_cfg esp)" "idle (load_duress esp)"
  "idle (read_daily_slot esp)" "idle (read_recovery_slot esp)" "idle (read_count esp)"
  unfolding verify_against_baked_def read_cfg_def load_duress_def read_daily_slot_def read_recovery_slot_def
    read_count_def
  by (auto intro!: idle_bnd idle_basic idle_ctx idle_check_baked)

text \<open>The secrets still to be typed are untouched.\<close>

interpretation typing: step_relation "\<lambda>w w'. w_tty w' = w_tty w"
  by unfold_locales simp_all

lemma typing_run_cmd: "keeps (\<lambda>w w'. w_tty w' = w_tty w) (run_cmd prog args inp)"
  unfolding keeps_def by (intro allI wp_run_cmd) simp_all

section \<open>The way to the prompt\<close>

lemma state_values:
  "read_cfg esp w = (Ok cfg, w') \<Longrightarrow> reads_as w (esp @ [''config'']) parse_policy cfg"
  "load_duress esp w = (Ok dh, w') \<Longrightarrow> reads_as w (esp @ [''duress.hash'']) parse_verifier dh"
  "read_count esp w = (Ok n, w') \<Longrightarrow> reads_as w (counter_path esp) parse_count n"
proof -
  have "wp (read_cfg esp) (\<lambda>r w'. \<forall>a. r = Ok a \<longrightarrow> reads_as w (esp @ [''config'']) parse_policy a) w"
    unfolding read_cfg_def by (rule wp_reads)
  then show "read_cfg esp w = (Ok cfg, w') \<Longrightarrow> reads_as w (esp @ [''config'']) parse_policy cfg"
    by (auto dest: wpD)
  have "wp (load_duress esp) (\<lambda>r w'. \<forall>a. r = Ok a \<longrightarrow> reads_as w (esp @ [''duress.hash'']) parse_verifier a) w"
    unfolding load_duress_def by (rule wp_reads)
  then show "load_duress esp w = (Ok dh, w') \<Longrightarrow> reads_as w (esp @ [''duress.hash'']) parse_verifier dh"
    by (auto dest: wpD)
  have "wp (read_count esp) (\<lambda>r w'. \<forall>a. r = Ok a \<longrightarrow> reads_as w (counter_path esp) parse_count a) w"
    unfolding read_count_def wp_bnd wp_ctx
    by (rule wp_read_to_string) (auto simp: wp_rules reads_as_def)
  then show "read_count esp w = (Ok n, w') \<Longrightarrow> reads_as w (counter_path esp) parse_count n"
    by (auto dest: wpD)
qed

lemma slot_values:
  "read_daily_slot esp w = (Ok d, w') \<Longrightarrow> d \<le> 31"
  "read_recovery_slot esp w = (Ok r, w') \<Longrightarrow> r \<le> 31"
  by (auto simp: read_daily_slot_def read_recovery_slot_def bnd_def ret_def bail_def fail_def
      split: prod.splits res.splits if_splits)

lemma wp_bnd_from:
  assumes "keeps only_sched m" "idle m"
    and "\<And>a ss. m (w\<lparr>w_sched := s0\<rparr>) = (Ok a, w\<lparr>w_sched := ss\<rparr>) \<Longrightarrow> (s0 = [] \<Longrightarrow> ss = []) \<Longrightarrow>
      wp (f a) Q (w\<lparr>w_sched := ss\<rparr>)"
    and "\<And>r ss. \<forall>n. r \<noteq> Ok n \<Longrightarrow> Q r (w\<lparr>w_sched := ss\<rparr>)"
  shows "wp (bnd m f) Q (w\<lparr>w_sched := s0\<rparr>)"
proof (cases "m (w\<lparr>w_sched := s0\<rparr>)")
  case (Pair r w1)
  obtain ss where w1: "w1 = w\<lparr>w_sched := ss\<rparr>" using keepsD [OF assms(1) Pair] by (auto simp: only_sched_def)
  show ?thesis
  proof (cases r)
    case (Ok a)
    have "ss = []" if "s0 = []"
    proof -
      have "w\<lparr>w_sched := ss\<rparr> = w\<lparr>w_sched := []\<rparr>"
        using idleD [OF assms(2), of "w\<lparr>w_sched := []\<rparr>"] Pair w1 that by simp
      from arg_cong [OF this, of w_sched] show ?thesis by simp
    qed
    then show ?thesis using assms(3) [of a ss] Pair Ok w1 by (simp add: wp_def bnd_def)
  qed (use Pair w1 assms(4) in \<open>simp_all add: wp_def bnd_def\<close>)
qed

lemma exists_calm:
  "path_exists p (w\<lparr>w_sched := s0\<rparr>) = (Ok b, w\<lparr>w_sched := ss\<rparr>) \<Longrightarrow> \<not> b \<Longrightarrow> s0 = [] \<Longrightarrow> look (w_vis w) p = None"
  by (auto simp: path_exists_def probe_def)

definition esp_of :: "string list \<Rightarrow> path" where
  "esp_of args = components (case flag args ''--esp-dir'' of Some p \<Rightarrow> p | None \<Rightarrow> ''/ds-esp/deathstroke'')"

definition map_of_args :: "string list \<Rightarrow> string" where
  "map_of_args args = (case flag args ''--map-name'' of Some m \<Rightarrow> m | None \<Rightarrow> ''cryptroot'')"

text \<open>Every run ends in a check, in the resumption of a destruction, in a destruction, or in the prompts.\<close>

lemma wp_unlock_run:
  fixes w :: "'a world"
  assumes "''--self-test'' \<notin> set args" and "esp = esp_of args" "mapping = map_of_args args"
    and stop: "\<And>r ss. \<forall>n. r \<noteq> Ok n \<Longrightarrow> Q r (w\<lparr>w_sched := ss\<rparr>)"
    and resume: "\<And>device daily rec ss. flag args ''--device'' = Some device \<Longrightarrow> daily \<noteq> rec \<Longrightarrow>
      daily \<le> 31 \<Longrightarrow> rec \<le> 31 \<Longrightarrow>
      wp (resume_wipe (esp @ [JOURNAL_NAME]) device daily rec mapping) Q (w\<lparr>w_sched := ss\<rparr>)"
    and wipe: "\<And>device cfg daily rec n ss. flag args ''--device'' = Some device \<Longrightarrow> daily \<noteq> rec \<Longrightarrow>
      daily \<le> 31 \<Longrightarrow> rec \<le> 31 \<Longrightarrow> reads_as w (esp @ [''config'']) parse_policy cfg \<Longrightarrow>
      reads_as w (counter_path esp) parse_count n \<Longrightarrow> wipe_at cfg \<le> n \<Longrightarrow>
      (w_sched w = [] \<Longrightarrow> look (w_vis w) (esp @ [JOURNAL_NAME]) = None) \<Longrightarrow>
      wp (do_wipe device esp mapping daily rec) Q (w\<lparr>w_sched := ss\<rparr>)"
    and loop: "\<And>device cfg dh daily rec n ss. flag args ''--device'' = Some device \<Longrightarrow> daily \<noteq> rec \<Longrightarrow>
      daily \<le> 31 \<Longrightarrow> rec \<le> 31 \<Longrightarrow> reads_as w (esp @ [''config'']) parse_policy cfg \<Longrightarrow>
      reads_as w (esp @ [''duress.hash'']) parse_verifier dh \<Longrightarrow>
      reads_as w (counter_path esp) parse_count n \<Longrightarrow> n < wipe_at cfg \<Longrightarrow>
      (w_sched w = [] \<Longrightarrow> look (w_vis w) (esp @ [JOURNAL_NAME]) = None) \<Longrightarrow>
      wp (prompt_loop (unat (max_prompts cfg)) device esp mapping cfg dh daily rec) Q (w\<lparr>w_sched := ss\<rparr>)"
  shows "wp (unlock_run self_test args) Q w"
proof -
  have "wp (unlock_run self_test args) Q (w\<lparr>w_sched := w_sched w\<rparr>)"
    unfolding unlock_run_def if_not_P [OF assms(1)] Let_def esp_of_def [symmetric] map_of_args_def [symmetric]
      assms(2,3) [symmetric]
  proof ((intro wp_bnd_from reading.keeps_basic keeps_state_readers keeps_reading_read_count idle_basic idle_state_readers wp_ifI; (rule stop, assumption)?), goal_cases)
    case 1
    show ?case
      by (rule resume [OF lift_some_Ok [OF 1(1)] _ slot_values(1) [OF 1(17)] slot_values(2) [OF 1(19)]])
        (use 1(21) in \<open>simp add: require_Ok\<close>)
  next
    case 2
    have none: "look (w_vis w) (esp @ [JOURNAL_NAME]) = None" if "w_sched w = []"
      by (rule exists_calm [OF 2(23) 2(25)]) (use that 2(2,4,6,8,10,12,14,16,18,20,22) in simp_all)
    show ?case
      by (rule wipe [OF lift_some_Ok [OF 2(1)] _ slot_values(1) [OF 2(17)] slot_values(2) [OF 2(19)]
          state_values(1) [OF 2(13), simplified] state_values(3) [OF 2(26), simplified] 2(28) none])
        (use 2(21) in \<open>simp_all add: require_Ok\<close>)
  next
    case 3
    have none: "look (w_vis w) (esp @ [JOURNAL_NAME]) = None" if "w_sched w = []"
      by (rule exists_calm [OF 3(23) 3(25)]) (use that 3(2,4,6,8,10,12,14,16,18,20,22) in simp_all)
    show ?case
      by (rule loop [OF lift_some_Ok [OF 3(1)] _ slot_values(1) [OF 3(17)] slot_values(2) [OF 3(19)]
          state_values(1) [OF 3(13), simplified] state_values(2) [OF 3(15), simplified]
          state_values(3) [OF 3(26), simplified] _ none])
        (use 3(21,28) in \<open>simp_all add: require_Ok\<close>)
  qed
  then show ?thesis by simp
qed

lemma reads_as_unique: "reads_as w p parse a \<Longrightarrow> reads_as w p parse b \<Longrightarrow> a = b"
  by (auto simp: reads_as_def)

lemma wp_unlock_permitted:
  assumes "''--self-test'' \<notin> set args" and dh: "reads_as w (esp_of args @ [''duress.hash'']) parse_verifier dh"
    and dev: "flag args ''--device'' = Some device"
  shows "wp (unlock_run self_test args)
    (boot_post (permitted (w_kdf w) dh device (map_of_args args)) device (map_of_args args) w) w"
proof (rule wp_unlock_run [OF assms(1) refl refl], goal_cases)
  case (1 r ss)
  then show ?case by (auto simp: boot_post_def logs_def)
next
  case (2 d daily rec ss)
  have "boot_post P d m (w\<lparr>w_sched := ss\<rparr>) r v \<Longrightarrow> boot_post P d m w r v" for P d m r v
    by (simp add: boot_post_def logs_def)
  with 2 dev show ?case by (auto intro!: wp_mono [OF wp_resume_boot])
next
  case (3 d cfg daily rec n ss)
  have "boot_post P d m (w\<lparr>w_sched := ss\<rparr>) r v \<Longrightarrow> boot_post P d m w r v" for P d m r v
    by (simp add: boot_post_def logs_def)
  with 3 dev show ?case by (auto intro!: wp_mono [OF wp_wipe_boot])
next
  case (4 d cfg dh' daily rec n ss)
  have same: "boot_post P d m (w\<lparr>w_sched := ss\<rparr>) r v \<Longrightarrow> boot_post P d m w r v" for P d m r v
    by (simp add: boot_post_def logs_def)
  have "dh' = dh" by (rule reads_as_unique [OF 4(6) dh])
  with 4 dev same show ?case by (auto intro!: wp_mono [OF wp_loop_boot])
qed

text \<open>
  C2. The duress code never opens the container: in every run of \<open>ds-unlock\<close>, whatever fails, the only
  commands are \<open>ds-erase\<close>, the \<open>plymouth\<close> prompt, and \<open>cryptsetup open\<close> of the configured device with a
  secret that the enrolled verifier has just rejected as the duress code; and a run that ends with exit
  code 0 (unlocked) has run \<open>cryptsetup open\<close> last.
\<close>

theorem duress_code_never_opens:
  assumes "''--self-test'' \<notin> set args" and "flag args ''--device'' = Some device"
    and dh: "reads_as w (esp_of args @ [''duress.hash'']) parse_verifier dh"
    and run: "unlock_run self_test args w = (r, w')"
  shows "(\<exists>new. w_log w' = w_log w @ new \<and>
      (\<forall>(prog, argv, inp)\<in>set new. erase_prog prog \<or> prog = ''plymouth'' \<or>
        prog = ''cryptsetup'' \<and> argv = [''open'', device, map_of_args args] \<and>
        (\<exists>secret. inp = secret @ [CHR 0x0A] \<and> verify (w_kdf w) dh secret = Ok False))) \<and>
    (r = Ok 0 \<longrightarrow> (\<exists>inp. last (w_log w') = (''cryptsetup'', [''open'', device, map_of_args args], inp)))"
proof -
  from wpD [OF wp_unlock_permitted [OF assms(1) dh assms(2)] run]
  have "logs (permitted (w_kdf w) dh device (map_of_args args)) w w'"
    "r = Ok 0 \<Longrightarrow> opened_last device (map_of_args args) w'"
    by (simp_all add: boot_post_def)
  then show ?thesis
    unfolding logs_def permitted_def opened_last_def by (fastforce simp: case_prod_beta)
qed

lemma esp_of_armed: "esp_of armed_args = [''/'', ''e'']" "map_of_args armed_args = ''cryptroot''"
  by (simp_all add: esp_of_def map_of_args_def components_def)

lemma armed_reads:
  "reads_as (machine armed_disk x) [''/'', ''e'', ''duress.hash''] parse_verifier sample_hash"
  "reads_as (machine armed_disk x) [''/'', ''e'', ''config''] parse_policy default_policy"
  "reads_as (machine armed_disk x) [''/'', ''e'', ''counter''] parse_count 2"
  using verifier_file.dec_enc [of sample_hash] policy_file.dec_enc [of default_policy] count_file.dec_enc [of 2]
    sample_hash_ok default_policy_sound
  by (auto simp: reads_as_def armed_disk_def look_File ascii_utf8_valid serialize_ascii policy_text_ascii
      count_file.enc_utf8)

theorem duress_code_never_opens_witness:
  "\<exists>r w'. unlock_run (ret 0) armed_args (machine armed_disk ()) = (r, w') \<and>
    (\<forall>e\<in>set (w_log w'). fst e \<noteq> ''cryptsetup'' \<or>
      (\<exists>secret. snd (snd e) = secret @ [CHR 0x0A] \<and> verify (\<lambda>pw salt n. None) sample_hash secret = Ok False))"
proof -
  let ?w = "machine armed_disk ()"
  obtain r w' where run: "unlock_run (ret 0) armed_args ?w = (r, w')" by (metis surj_pair)
  have h: "''--self-test'' \<notin> set armed_args" "flag armed_args ''--device'' = Some ''/dev/sda''" by simp_all
  have dh: "reads_as ?w (esp_of armed_args @ [''duress.hash'']) parse_verifier sample_hash"
    using armed_reads(1) by (simp add: esp_of_armed)
  have kdf: "w_kdf ?w = (\<lambda>pw salt n. None)" by (simp add: machine_def)
  from duress_code_never_opens [OF h dh run] obtain new where "w_log w' = new"
    and "\<forall>(prog, argv, inp)\<in>set new. erase_prog prog \<or> prog = ''plymouth'' \<or>
        prog = ''cryptsetup'' \<and> argv = [''open'', ''/dev/sda'', ''cryptroot''] \<and>
        (\<exists>secret. inp = secret @ [CHR 0x0A] \<and> verify (\<lambda>pw salt n. None) sample_hash secret = Ok False)"
    unfolding kdf esp_of_armed by auto
  then show ?thesis using run by (fastforce simp: erase_prog_def)
qed

section \<open>Altered state and unfinished destruction\<close>

text \<open>The file on the ESP is not there or not the one frozen into the initramfs.\<close>

definition tampered :: "'x world \<Rightarrow> path \<Rightarrow> string \<times> string \<Rightarrow> bool" where
  "tampered w esp p \<longleftrightarrow>
    (\<exists>baked m s. look (w_vis w) (components CONFIG_DIR @ [snd p]) = Some (File baked m s) \<and>
      (\<forall>onesp m' s'. look (w_vis w) (esp @ [fst p]) = Some (File onesp m' s') \<longrightarrow> trim baked \<noteq> trim onesp))"

lemma wp_check_baked:
  assumes calm: "w_sched w = []"
  shows "\<exists>p\<in>set ps. tampered w esp p \<Longrightarrow> wp (check_baked esp ps) (\<lambda>r w'. \<forall>u. r \<noteq> Ok u) w"
proof (induction ps)
  case Nil
  then show ?case by simp
next
  case (Cons p ps)
  obtain l t where p: "p = (l, t)" by (cases p)
  let ?b = "components CONFIG_DIR @ [t]"
  have rd: "wp (ctx c (read_to_string q)) Q w \<longleftrightarrow>
      Q (rctx c (rbind (read_result (w_vis w) q) (\<lambda>d. if utf8_valid d then Ok d else Err IoErr))) w" for c q Q
    by (simp add: wp_ctx read_to_string_def wp_sys_calm [OF calm])
  show ?case
  proof (cases "tampered w esp p")
    case True
    then show ?thesis
      by (auto simp: p tampered_def Let_def wp_bnd path_is_file_def wp_probe_calm [OF calm] is_file_node_def rd
          read_result_def then_post_def rctx_def rbind_def wp_bail split: res.splits option.splits node.splits)
  next
    case False
    then have ih: "wp (check_baked esp ps) (\<lambda>r w'. \<forall>u. r \<noteq> Ok u) w" using Cons by auto
    then show ?thesis
      by (auto simp: p Let_def wp_bnd path_is_file_def wp_probe_calm [OF calm] rd
          then_post_def rctx_def wp_bail split: res.splits option.splits)
  qed
qed

text \<open>
  C17. Altered pre-boot state is refused: when one of the four files on the ESP (verifier, policy, daily
  and recovery slot) is missing or differs from the copy frozen into the initramfs, a run without I/O
  faults ends in an error; no command is run, no secret asked for, nothing written.
\<close>

theorem tampered_esp_refused:
  assumes "''--self-test'' \<notin> set args" and "w_sched w = []" and "p \<in> set baked_pairs" and "tampered w (esp_of args) p"
    and run: "unlock_run self_test args w = (r, w')"
  shows "(\<forall>code. r \<noteq> Ok code) \<and> (\<exists>ss. w' = w\<lparr>w_sched := ss\<rparr>)"
proof -
  let ?Q = "\<lambda>r w'. (\<forall>code. r \<noteq> Ok code) \<and> only_sched w w'"
  have bad: "wp (verify_against_baked (esp_of args)) (\<lambda>r w'. (\<forall>u. r \<noteq> Ok u) \<and> only_sched w w') w"
  proof -
    have "wp (verify_against_baked (esp_of args)) (\<lambda>r w'. \<forall>u. r \<noteq> Ok u) w"
      unfolding verify_against_baked_def by (rule wp_check_baked [OF assms(2)]) (use assms(3,4) in blast)
    then show ?thesis using keepsD [OF keeps_state_readers(1)] unfolding wp_iff by blast
  qed
  have stop: "wp (bnd (verify_against_baked (esp_of args)) f) ?Q w" for f
    by (rule wp_bndI [OF bad]) simp_all
  have "wp (unlock_run self_test args) ?Q w"
    unfolding unlock_run_def if_not_P [OF assms(1)] Let_def esp_of_def [symmetric] path_is_dir_def path_is_file_def
      wp_bnd [of "lift _"] wp_bnd [of "probe _"] wp_bnd [of "require _ _"] wp_lift wp_require wp_probe_calm [OF assms(2)]
    by (auto simp: then_post_def wp_bnd [of "probe _"] wp_bnd [of "require _ _"] wp_require wp_probe_calm [OF assms(2)]
        reading.refl stop split: res.splits)
  from wpD [OF this run] show ?thesis by (simp add: only_sched_def)
qed

theorem tampered_esp_refused_witness:
  "\<exists>r w'. unlock_run (ret 0) armed_args
      (machine ((components CONFIG_DIR @ [''daily.slot.trusted''], File ''1'' 384 True) # armed_disk) ()) = (r, w') \<and>
    r \<noteq> Ok 0 \<and> w_log w' = []"
proof -
  let ?b = "components CONFIG_DIR @ [''daily.slot.trusted'']"
  let ?w = "machine ((?b, File ''1'' 384 True) # armed_disk) ()"
  obtain r w' where run: "unlock_run (ret 0) armed_args ?w = (r, w')" by (metis surj_pair)
  have b: "?b = [''/'', ''etc'', ''arxos'', ''deathstroke'', ''daily.slot.trusted'']"
    by (simp add: components_def CONFIG_DIR_def)
  have "trim ''1'' \<noteq> trim ''0''" by code_simp
  then have "tampered ?w (esp_of armed_args) (''daily.slot'', ''daily.slot.trusted'')"
    unfolding tampered_def esp_of_armed fst_conv snd_conv b
    by (intro exI [of _ "''1''"] exI [of _ 384] exI [of _ True]) (simp add: look_File armed_disk_def)
  moreover have "(''daily.slot'', ''daily.slot.trusted'') \<in> set baked_pairs" by (simp add: baked_pairs_def)
  ultimately have "(\<forall>code. r \<noteq> Ok code) \<and> (\<exists>ss. w' = ?w\<lparr>w_sched := ss\<rparr>)"
    by (intro tampered_esp_refused [OF _ _ _ _ run]) simp_all
  then show ?thesis using run by auto
qed

text \<open>
  That bound matters: the probe for a frozen copy answers an I/O error like absence, so that one failing
  \<open>stat\<close> skips the comparison of its file, and the state on the ESP is honoured, altered or not.
\<close>

theorem baked_probe_fails_open:
  assumes "w_sched w = Fail # ss"
  shows "check_baked esp (p # ps) w = check_baked esp ps (w\<lparr>w_sched := ss\<rparr>)"
  using assms by (cases p) (simp add: Let_def bnd_def path_is_file_def probe_def)

text \<open>
  C19. An unfinished destruction comes first: while its journal is on the ESP, a run without I/O faults
  asks for no secret and never calls \<open>cryptsetup\<close>; the only command it can run is \<open>ds-erase --resume\<close>,
  and it ends with exit code 2 or an error, never unlocked.
\<close>

theorem journal_resumes_first:
  assumes "''--self-test'' \<notin> set args" and "w_sched w = []"
    and journal: "look (w_vis w) (esp_of args @ [JOURNAL_NAME]) \<noteq> None"
    and run: "unlock_run self_test args w = (r, w')"
  shows "(\<forall>code. r = Ok code \<longrightarrow> code = 2) \<and> w_tty w' = w_tty w \<and>
    (\<exists>new. w_log w' = w_log w @ new \<and>
      (\<forall>(prog, argv, inp)\<in>set new. erase_prog prog \<and> take 1 argv = [''--resume'']))"
proof -
  let ?P = "\<lambda>e. erase_prog (fst e) \<and> take 1 (fst (snd e)) = [''--resume'']"
  let ?Q = "\<lambda>r w'. (\<forall>code. r = Ok code \<longrightarrow> code = 2) \<and> w_tty w' = w_tty w \<and> logs ?P w w'"
  have "wp (unlock_run self_test args) ?Q w"
  proof (rule wp_unlock_run [OF assms(1) refl refl], goal_cases)
    case (2 device daily rec ss)
    have "keeps (logs ?P) (resume_wipe j d da re m :: ('a, nat) io)" for j d da re m
      by (rule logs_resumes) (simp add: resume_args_def)
    moreover have "keeps (\<lambda>w w'. w_tty w' = w_tty w) (resume_wipe j d da re m :: ('a, nat) io)" for j d da re m
      unfolding resume_wipe_def
      by (intro typing.keeps_bnd keeps_weaken [OF keeps_find_ds_erase] typing_run_cmd)
        (auto simp: only_sched_def intro: typing.keeps_basic)
    ultimately show ?case
      unfolding wp_iff keeps_def using resume_code by (fastforce simp: logs_def)
  qed (use assms(2) journal in \<open>auto simp: logs_def\<close>)
  from wpD [OF this run] show ?thesis unfolding logs_def by (fastforce simp: case_prod_beta)
qed

end
