(* ===== verification/Unlock_Guesses.thy ===== *)
theory Unlock_Guesses
  imports Unlock_Safety
begin

text \<open>
  How many guesses a boot grants to someone who does not know a passphrase: each failed one is counted
  on the ESP before the next prompt, so only the last one before a power cut can go uncounted.
\<close>

section \<open>Programs that leave the counter alone\<close>

text \<open>
  No program that the tool runs changes the counter file or the directories above it; in particular
  \<open>cryptsetup\<close> and \<open>plymouth\<close> write no files. And nobody knows a passphrase.
\<close>

definition counter_safe :: "path \<Rightarrow> 'x exec \<Rightarrow> bool" where
  "counter_safe esp ex \<longleftrightarrow>
    (\<forall>prog args inp v u x c v' u' x'. ex prog args inp (v, u, x) = (c, v', u', x') \<longrightarrow>
      (\<forall>q. prefix q (counter_path esp) \<longrightarrow> fs_get v' q = fs_get v q \<and> fs_get u' q = fs_get u q))"

definition no_key :: "'x exec \<Rightarrow> bool" where
  "no_key ex \<longleftrightarrow> (\<forall>device mapping inp st c st'.
    ex ''cryptsetup'' [''open'', device, mapping] inp st = (c, st') \<longrightarrow> \<not> cmd_success c)"

text \<open>The number of passphrases that \<open>cryptsetup\<close> has been given.\<close>

definition guesses :: "'x world \<Rightarrow> nat" where
  "guesses w = length (filter (\<lambda>(prog, args, inp). prog = ''cryptsetup'' \<and> take 1 args = [''open'']) (w_log w))"

definition counted :: "path \<Rightarrow> nat \<Rightarrow> 'x world \<Rightarrow> bool" where
  "counted esp n w \<longleftrightarrow> counter_safe esp (w_exec w) \<and> no_key (w_exec w) \<and> count_holds esp n w"

definition holding :: "path \<Rightarrow> nat \<Rightarrow> 'x world \<Rightarrow> 'x world \<Rightarrow> bool" where
  "holding esp n w w' \<longleftrightarrow> (counted esp n w \<longrightarrow> counted esp n w' \<and> guesses w' = guesses w)"

lemma counted_sched [simp]: "counted esp n (w\<lparr>w_sched := ss\<rparr>) = counted esp n w"
  by (simp add: counted_def)

lemma guesses_sched [simp]: "guesses (w\<lparr>w_sched := ss\<rparr>) = guesses w"
  by (simp add: guesses_def)

interpretation hold: step_relation "holding esp n" for esp n
  by unfold_locales (auto simp: holding_def)

lemma counted_cmd:
  assumes "counted esp n w" "w_exec w prog args inp (w_vis w, w_dur w, w_ext w) = (c, v, u, x)"
  shows "counted esp n (w\<lparr>w_sched := ss, w_vis := v, w_dur := u, w_ext := x, w_log := l\<rparr>)"
proof -
  have "\<forall>q. prefix q (counter_path esp) \<longrightarrow> fs_get v q = fs_get (w_vis w) q \<and> fs_get u q = fs_get (w_dur w) q"
    using assms unfolding counted_def counter_safe_def by blast
  then show ?thesis
    using assms(1) by (auto simp: counted_def count_holds_def persists_def anchored_def)
qed

lemma hold_run_cmd:
  assumes "prog \<noteq> ''cryptsetup'' \<or> take 1 args \<noteq> [''open'']"
  shows "keeps (holding esp n) (run_cmd prog args inp)"
  unfolding keeps_def
  by (intro allI wp_run_cmd) (use assms in \<open>auto simp: holding_def counted_cmd guesses_def\<close>)

lemma hold_reading: "keeps only_sched m \<Longrightarrow> keeps (holding esp n) m"
  by (rule keeps_weaken [of only_sched]) (auto simp: only_sched_def holding_def)

lemma hold_do_wipe: "keeps (holding esp n) (do_wipe device esp' mapping daily rec)"
  unfolding do_wipe_def
proof (intro hold.keeps_bnd_dep hold_reading [OF keeps_find_ds_erase] hold.keeps_basic hold_run_cmd)
  fix w p w' assume "find_ds_erase w = (Ok p, w')"
  then show "p \<noteq> ''cryptsetup'' \<or> take 1 (wipe_args device esp' mapping daily rec tm) \<noteq> [''open'']" for tm
    by (simp add: wipe_args_def)
qed (auto intro: hold.keeps_basic)

lemma hold_resume_wipe: "keeps (holding esp n) (resume_wipe journal device daily rec mapping)"
  unfolding resume_wipe_def
  by (intro hold.keeps_bnd hold_reading [OF keeps_find_ds_erase] hold_run_cmd)
    (auto intro: hold.keeps_basic simp: resume_args_def)

lemma hold_prompt: "keeps (holding esp n) prompt_secret"
proof -
  have "holding esp n w (w\<lparr>w_tty := t\<rparr>)" for w :: "'a world" and t
    by (simp add: holding_def counted_def guesses_def count_holds_def persists_def anchored_def)
  then have pw: "keeps (holding esp n) (prompt_password :: ('a, string) io)"
    unfolding prompt_password_def by (intro hold.keeps_sys) (auto simp: hold.refl split: list.splits)
  show ?thesis
    unfolding prompt_secret_def plymouth_active_def
    by (intro hold.keeps_bnd hold.keeps_basic)
      (auto intro!: hold.keeps_bnd hold.keeps_basic hold_run_cmd pw split: option.splits cmd.splits bool.splits)
qed

lemma hold_sleep: "keeps (holding esp n) (sleep_secs t)"
  by (simp add: keeps_def sleep_secs_def wp_def holding_def counted_def guesses_def count_holds_def persists_def anchored_def)

lemma counted_mono: "counted esp m w \<Longrightarrow> n \<le> m \<Longrightarrow> counted esp n w"
  by (auto simp: counted_def count_holds_def elim: persists_mono)

lemma wp_bump_counted:
  assumes c: "counted esp n w" and n: "n < 2 ^ 32 - 1"
  shows "wp (bump_count esp) (\<lambda>r w'. guesses w' = guesses w \<and> counted esp n w' \<and>
    (\<forall>c. r = Ok c \<longrightarrow> counted esp (n + 1) w' \<and> n + 1 \<le> unat c)) w"
proof (rule wpI)
  fix r w' assume run: "bump_count esp w = (r, w')"
  have h: "count_holds esp n w" "esp \<noteq> []" using c by (auto simp: counted_def count_holds_def)
  have env: "same_env w w'" by (rule keepsD [OF keeps_bump_count run])
  have post: "bump_post (count_holds esp) n r w'" using wpD [OF wp_bump_count [OF h] run] .
  have "wp (bump_count esp) (\<lambda>r w'. \<forall>c. r = Ok c \<longrightarrow> n + 1 \<le> unat c) w"
    unfolding bump_count_def
  proof (rule wp_bndI [OF read_count_count [OF h(1)]])
    fix a :: u32 and w1 assume "(\<exists>ss. w1 = w\<lparr>w_sched := ss\<rparr>) \<and> (\<forall>c. Ok a = Ok c \<longrightarrow> n \<le> unat c)"
    then have "n + 1 \<le> unat (sat_inc a)" using sat_inc_ge [of n a] n by simp
    then show "wp (let n = sat_inc a in bnd (write_count esp n) (\<lambda>_. ret n)) (\<lambda>r w'. \<forall>c. r = Ok c \<longrightarrow> n + 1 \<le> unat c) w1"
      unfolding Let_def by (intro wp_bndI [OF wp_keeps [OF keeps_write_count]]) (simp_all add: wp_rules)
  qed simp_all
  from wpD [OF this run] post env n c
  show "guesses w' = guesses w \<and> counted esp n w' \<and> (\<forall>c. r = Ok c \<longrightarrow> counted esp (n + 1) w' \<and> n + 1 \<le> unat c)"
    by (auto simp: counted_def bump_post_def same_env_def guesses_def)
qed

section \<open>The prompt loop\<close>

definition guess_post :: "path \<Rightarrow> nat \<Rightarrow> nat \<Rightarrow> nat \<Rightarrow> 'x world \<Rightarrow> nat res \<Rightarrow> 'x world \<Rightarrow> bool" where
  "guess_post esp left limit n w r w' \<longleftrightarrow>
    (\<exists>k. guesses w' = guesses w + k \<and> k \<le> left \<and> (k = 0 \<or> n + k \<le> limit) \<and> counted esp (n + k - 1) w' \<and> r \<noteq> Ok 0)"

lemma guess_post_0: "counted esp n w' \<Longrightarrow> guesses w' = guesses w \<Longrightarrow> r \<noteq> Ok 0 \<Longrightarrow> guess_post esp left limit n w r w'"
  unfolding guess_post_def by (intro exI [of _ 0]) (auto elim: counted_mono)

lemma guess_post_more:
  assumes "guess_post esp left limit (Suc n) v r w'" "guesses v = Suc (guesses w)" "Suc n \<le> limit"
  shows "guess_post esp (Suc left) limit n w r w'"
proof -
  obtain k where "guesses w' = guesses v + k" "k \<le> left" "k = 0 \<or> Suc n + k \<le> limit" "counted esp (Suc n + k - 1) w'" "r \<noteq> Ok 0"
    using assms(1) unfolding guess_post_def by blast
  then show ?thesis
    unfolding guess_post_def using assms(2,3) by (intro exI [of _ "Suc k"]) auto
qed

lemma guess_post_1:
  "counted esp n w' \<Longrightarrow> guesses w' = Suc (guesses w) \<Longrightarrow> Suc n \<le> limit \<Longrightarrow> r \<noteq> Ok 0 \<Longrightarrow>
    guess_post esp (Suc left) limit n w r w'"
  unfolding guess_post_def by (intro exI [of _ 1]) auto

lemma wp_hold:
  assumes "keeps (holding esp n) m" "counted esp n w"
  shows "wp m (\<lambda>_ w'. counted esp n w' \<and> guesses w' = guesses w) w"
  by (rule wp_mono [OF wp_keeps [OF assms(1)]]) (use assms(2) in \<open>simp add: holding_def\<close>)

lemma wp_wipe_guess:
  assumes "counted esp n w" "guesses w = guesses w0"
  shows "wp (do_wipe device esp' mapping daily rec) (guess_post esp left limit n w0) w"
proof (rule wpI)
  fix r w' assume run: "do_wipe device esp' mapping daily rec w = (r, w')"
  have "r \<noteq> Ok 0" using wipe_code run by fastforce
  then show "guess_post esp left limit n w0 r w'"
    using wpD [OF wp_hold [OF hold_do_wipe assms(1)] run] assms(2) by (intro guess_post_0) simp_all
qed

lemma wp_resume_guess:
  assumes "counted esp n w" "guesses w = guesses w0"
  shows "wp (resume_wipe journal device daily rec mapping) (guess_post esp left limit n w0) w"
proof (rule wpI)
  fix r w' assume run: "resume_wipe journal device daily rec mapping w = (r, w')"
  have "r \<noteq> Ok 0" using resume_code run by fastforce
  then show "guess_post esp left limit n w0 r w'"
    using wpD [OF wp_hold [OF hold_resume_wipe assms(1)] run] assms(2) by (intro guess_post_0) simp_all
qed

text \<open>A wrong passphrase: one more guess, the counter not yet changed.\<close>

lemma wp_open_guess:
  assumes "counted esp n w"
  shows "wp (luks_open device mapping s) (\<lambda>r w'. counted esp n w' \<and>
    (guesses w' = guesses w \<and> (\<forall>b. r \<noteq> Ok b) \<or> guesses w' = Suc (guesses w) \<and> r \<noteq> Ok True)) w"
  unfolding luks_open_def wp_bnd
proof (rule wp_run_cmd)
  fix ss c v u x
  assume ex: "w_exec w ''cryptsetup'' [''open'', device, mapping] (s @ [CHR 0x0A]) (w_vis w, w_dur w, w_ext w) = (c, v, u, x)"
  then have "\<not> cmd_success c" using assms unfolding counted_def no_key_def by blast
  with counted_cmd [OF assms ex, where ss = ss]
  show "then_post (\<lambda>c. lift (cmd_status ''spawn cryptsetup open'' c))
      (\<lambda>r w'. counted esp n w' \<and>
        (guesses w' = guesses w \<and> (\<forall>b. r \<noteq> Ok b) \<or> guesses w' = Suc (guesses w) \<and> r \<noteq> Ok True))
      (Ok c) (w\<lparr>w_sched := ss, w_vis := v, w_dur := u, w_ext := x,
        w_log := w_log w @ [(''cryptsetup'', [''open'', device, mapping], s @ [CHR 0x0A])]\<rparr>)"
    by (cases c) (auto simp: wp_rules cmd_status_def cmd_success_def guesses_def)
qed (use assms in \<open>simp_all add: wp_rules cmd_status_def guesses_def\<close>)

text \<open>What one round of the loop does after a wrong guess, and from the verdict on the duress code on.\<close>

abbreviation after_guess ::
  "path \<Rightarrow> nat \<Rightarrow> string \<Rightarrow> string \<Rightarrow> policy \<Rightarrow> duress_hash \<Rightarrow> u8 \<Rightarrow> u8 \<Rightarrow> ('x, nat) io" where
  "after_guess esp left device mapping cfg dh daily rec \<equiv>
    bnd (bump_count esp) (\<lambda>c.
    if c \<ge> wipe_at cfg then do_wipe device esp mapping daily rec
    else
      bnd (if c \<ge> lockout_at cfg \<and> lockout_delay cfg > 0 then sleep_secs (lockout_delay cfg) else ret ()) (\<lambda>_.
      prompt_loop left device esp mapping cfg dh daily rec))"

abbreviation after_verdict ::
  "path \<Rightarrow> nat \<Rightarrow> string \<Rightarrow> string \<Rightarrow> policy \<Rightarrow> duress_hash \<Rightarrow> u8 \<Rightarrow> u8 \<Rightarrow> string \<Rightarrow> bool \<Rightarrow> ('x, nat) io" where
  "after_verdict esp left device mapping cfg dh daily rec secret is_duress \<equiv>
    (if is_duress then do_wipe device esp mapping daily rec
     else bnd (luks_open device mapping secret) (\<lambda>opened. if opened then bnd (reset_count esp) (\<lambda>_. ret 0)
       else after_guess esp left device mapping cfg dh daily rec))"

lemma wp_after_guess:
  fixes v :: "'a world"
  assumes v: "counted esp n v" "guesses v = Suc g" and n: "n < unat (wipe_at cfg)"
    and next_round: "\<And>u :: 'a world. counted esp (Suc n) u \<Longrightarrow> Suc n < unat (wipe_at cfg) \<Longrightarrow> guesses u = Suc g \<Longrightarrow>
      wp (prompt_loop left device esp mapping cfg dh daily rec) (guess_post esp (Suc left) (unat (wipe_at cfg)) n w) u"
    and g: "guesses w = g"
  shows "wp (after_guess esp left device mapping cfg dh daily rec) (guess_post esp (Suc left) (unat (wipe_at cfg)) n w) v"
proof -
  let ?lim = "unat (wipe_at cfg)"
  have "unat (wipe_at cfg) < 2 ^ 32" using unsigned_less [of "wipe_at cfg"] by simp
  then have small: "n < 2 ^ 32 - 1" using n by simp
  show ?thesis
  proof (rule wp_bndI [OF wp_bump_counted [OF v(1) small]])
    fix c :: u32 and v1 :: "'a world"
    assume h: "guesses v1 = guesses v \<and> counted esp n v1 \<and>
      (\<forall>c'. Ok c = Ok c' \<longrightarrow> counted esp (n + 1) v1 \<and> n + 1 \<le> unat c')"
    then have g1: "guesses v1 = Suc (guesses w)" and ct: "counted esp (Suc n) v1" "Suc n \<le> unat c" using v g by auto
    let ?pause = "if c \<ge> lockout_at cfg \<and> lockout_delay cfg > 0 then sleep_secs (lockout_delay cfg) else ret ()"
    show "wp (if c \<ge> wipe_at cfg then do_wipe device esp mapping daily rec
        else bnd ?pause (\<lambda>_. prompt_loop left device esp mapping cfg dh daily rec)) (guess_post esp (Suc left) ?lim n w) v1"
    proof (rule wp_ifI)
      show "wp (do_wipe device esp mapping daily rec) (guess_post esp (Suc left) ?lim n w) v1"
        by (rule wp_mono [OF wp_wipe_guess [OF ct(1) refl, of device esp mapping daily rec left ?lim]])
          (rule guess_post_more [OF _ g1], use n in simp_all)
      assume "\<not> wipe_at cfg \<le> c"
      then have lt: "Suc n < ?lim" using ct(2) by (simp add: word_le_nat_alt)
      have "keeps (holding esp (Suc n)) (?pause :: ('a, unit) io)"
        by (auto intro: hold_sleep hold.keeps_basic)
      then show "wp (bnd ?pause (\<lambda>_. prompt_loop left device esp mapping cfg dh daily rec))
          (guess_post esp (Suc left) ?lim n w) v1"
        by (rule wp_bndI [OF wp_hold [OF _ ct(1)]])
          (use g g1 lt counted_mono in \<open>auto intro!: guess_post_1 next_round elim: counted_mono\<close>)
    qed
  qed (use v g n in \<open>auto intro!: guess_post_1\<close>)
qed

lemma wp_after_verdict:
  fixes v :: "'a world"
  assumes v: "counted esp n v" "guesses v = guesses w" and n: "n < unat (wipe_at cfg)"
    and wrong: "\<And>u :: 'a world. counted esp n u \<Longrightarrow> guesses u = Suc (guesses w) \<Longrightarrow>
      wp (after_guess esp left device mapping cfg dh daily rec) (guess_post esp (Suc left) (unat (wipe_at cfg)) n w) u"
  shows "wp (after_verdict esp left device mapping cfg dh daily rec secret d)
    (guess_post esp (Suc left) (unat (wipe_at cfg)) n w) v"
proof (rule wp_ifI)
  let ?Q = "guess_post esp (Suc left) (unat (wipe_at cfg)) n w"
  show "wp (do_wipe device esp mapping daily rec) ?Q v" by (rule wp_wipe_guess) (use v in simp_all)
  show "wp (bnd (luks_open device mapping secret) (\<lambda>opened. if opened then bnd (reset_count esp) (\<lambda>_. ret 0)
      else after_guess esp left device mapping cfg dh daily rec)) ?Q v"
  proof (rule wp_bndI [OF wp_open_guess [OF v(1)]])
    fix opened and v1 :: "'a world"
    assume "counted esp n v1 \<and> (guesses v1 = guesses v \<and> (\<forall>b. Ok opened \<noteq> Ok b) \<or>
      guesses v1 = Suc (guesses v) \<and> Ok opened \<noteq> Ok True)"
    then have "\<not> opened" "counted esp n v1" "guesses v1 = Suc (guesses w)" using v by auto
    then show "wp (if opened then bnd (reset_count esp) (\<lambda>_. ret 0)
        else after_guess esp left device mapping cfg dh daily rec) ?Q v1"
      using wrong by simp
  qed (use v n in \<open>auto intro: guess_post_0 guess_post_1\<close>)
qed

lemma wp_loop_guesses:
  fixes w :: "'a world"
  shows "counted esp n w \<Longrightarrow> n < unat (wipe_at cfg) \<Longrightarrow>
    wp (prompt_loop left device esp mapping cfg dh daily rec) (guess_post esp left (unat (wipe_at cfg)) n w) w"
proof (induction left arbitrary: n w)
  case 0
  then show ?case by (simp add: wp_rules guess_post_0)
next
  case (Suc left)
  let ?Q = "guess_post esp (Suc left) (unat (wipe_at cfg)) n w"
  have later: "wp (prompt_loop left device esp mapping cfg dh daily rec) ?Q u"
    if u: "counted esp (Suc n) u" "Suc n < unat (wipe_at cfg)" "guesses u = Suc (guesses w)" for u :: "'a world"
    by (rule wp_mono [OF Suc.IH [OF u(1,2)]]) (rule guess_post_more [OF _ u(3)], use u in simp_all)
  show ?case
    unfolding prompt_loop.simps
  proof (rule wp_bndI [OF wp_hold [OF hold_prompt Suc.prems(1)]])
    fix secret and v :: "'a world" assume v: "counted esp n v \<and> guesses v = guesses w"
    have body: "wp (after_verdict esp left device mapping cfg dh daily rec secret d) ?Q v" for d
      by (rule wp_after_verdict [OF conjunct1 [OF v] conjunct2 [OF v] Suc.prems(2)])
        (rule wp_after_guess [OF _ _ Suc.prems(2) later refl])
    show "wp (bnd (ask w_kdf) (\<lambda>kdf. bnd (ctx ''verify duress code'' (lift (verify kdf dh secret)))
        (after_verdict esp left device mapping cfg dh daily rec secret))) ?Q v"
      unfolding wp_bnd [of "ask _"] wp_ask then_post_simps wp_bnd [of "ctx _ _"] wp_ctx wp_lift
    proof (cases "verify (w_kdf v) dh secret")
      case (Ok d)
      then show "then_post (after_verdict esp left device mapping cfg dh daily rec secret) ?Q
          (rctx ''verify duress code'' (verify (w_kdf v) dh secret)) v"
        using body [of d] by (simp only: Ok rctx_def res.case then_post_simps)
    qed (use v in \<open>auto simp: rctx_def then_post_def intro: guess_post_0\<close>)
  qed (auto intro: guess_post_0)
qed

text \<open>
  C3. The guesses of a boot are limited and counted. When nobody knows a passphrase, \<open>n\<close> failures are
  on the ESP and the policy there has the limit \<open>wipe_at\<close>, then a run of \<open>ds-unlock\<close>, whatever fails and
  wherever the power is cut, never unlocks, gives \<open>cryptsetup\<close> at most \<open>max_prompts\<close> secrets and at most
  \<open>wipe_at - n\<close> of them, and leaves a counter that, also after a reboot, reads as at least \<open>n\<close> plus all
  of them but possibly the last.
\<close>

theorem guesses_limited_and_counted:
  assumes "''--self-test'' \<notin> set args"
    and holds: "count_holds (esp_of args) n w" and tools: "counter_safe (esp_of args) (w_exec w)" "no_key (w_exec w)"
    and cfg: "reads_as w (esp_of args @ [''config'']) parse_policy cfg"
    and run: "unlock_run self_test args w = (r, w')"
  shows "\<exists>k. guesses w' = guesses w + k \<and> k \<le> unat (max_prompts cfg) \<and> k \<le> unat (wipe_at cfg) - n \<and>
    count_holds (esp_of args) (n + k - 1) w' \<and> r \<noteq> Ok 0"
proof -
  let ?esp = "esp_of args" and ?lim = "unat (wipe_at cfg)" and ?max = "unat (max_prompts cfg)"
  have c: "counted ?esp n (w\<lparr>w_sched := ss\<rparr>)" for ss using holds tools by (simp add: counted_def)
  have "wp (unlock_run self_test args) (guess_post ?esp ?max ?lim n w) w"
  proof (rule wp_unlock_run [OF assms(1) refl refl], goal_cases)
    case (1 r ss)
    then show ?case using c by (intro guess_post_0) simp_all
  next
    case (2 device daily rec ss)
    show ?case by (rule wp_resume_guess [OF c]) simp
  next
    case (3 device cfg' daily rec m ss)
    show ?case by (rule wp_wipe_guess [OF c]) simp
  next
    case (4 device cfg' dh daily rec m ss)
    have cfg': "cfg' = cfg" by (rule reads_as_unique [OF 4(5) cfg])
    have "n \<le> unat m"
      using holds 4(7) entry_look [of parse_count False n "w_vis w" "counter_path ?esp"]
      by (auto simp: reads_as_def count_holds_def persists_def entry_ok_def)
    then have lt: "n < ?lim" using 4(8) by (simp add: word_less_nat_alt cfg')
    show ?case
      unfolding cfg' by (rule wp_mono [OF wp_loop_guesses [OF c lt]]) (simp add: guess_post_def)
  qed
  from wpD [OF this run] show ?thesis
    unfolding guess_post_def counted_def by auto
qed

theorem guesses_limited_and_counted_witness:
  "\<exists>r w'. unlock_run (ret 0) armed_args (machine armed_disk ()) = (r, w') \<and> guesses w' \<le> 3 \<and> r \<noteq> Ok 0"
proof -
  let ?w = "machine armed_disk ()"
  obtain r w' where run: "unlock_run (ret 0) armed_args ?w = (r, w')" by (metis surj_pair)
  have h: "''--self-test'' \<notin> set armed_args" by simp
  have c: "count_holds (esp_of armed_args) 2 ?w"
    by (simp add: count_holds_def persists_def entry_ok_def anchored_check rooted_check armed_disk_def counter_path_def
        esp_of_armed count_file.dec_enc)
  have t: "counter_safe (esp_of armed_args) (w_exec ?w)" "no_key (w_exec ?w)"
    by (simp_all add: counter_safe_def no_key_def machine_def cmd_success_def)
  have cfg: "reads_as ?w (esp_of armed_args @ [''config'']) parse_policy default_policy"
    using armed_reads(2) by (simp add: esp_of_armed)
  have lim: "unat (wipe_at default_policy) = 5" by (simp add: default_policy_def DEFAULT_WIPE_AT_def)
  from guesses_limited_and_counted [OF h c t cfg run] run show ?thesis
    unfolding lim by (auto simp: guesses_def)
qed

theorem journal_resumes_first_witness:
  "\<exists>r w'. unlock_run (ret 0) armed_args
      (machine (([''/'', ''e'', ''inprogress''], File ''{}'' 384 True) # armed_disk) ()) = (r, w') \<and>
    r \<noteq> Ok 0 \<and> (\<forall>e\<in>set (w_log w'). fst e \<noteq> ''cryptsetup'')"
proof -
  let ?w = "machine (([''/'', ''e'', ''inprogress''], File ''{}'' 384 True) # armed_disk) ()"
  obtain r w' where run: "unlock_run (ret 0) armed_args ?w = (r, w')" by (metis surj_pair)
  have h: "''--self-test'' \<notin> set armed_args" "w_sched ?w = []"
    "look (w_vis ?w) (esp_of armed_args @ [JOURNAL_NAME]) \<noteq> None"
    by (simp_all add: esp_of_armed JOURNAL_NAME_def look_File)
  from journal_resumes_first [OF h run] obtain new where "\<forall>code. r = Ok code \<longrightarrow> code = 2" "w_log w' = new"
    "\<forall>(prog, argv, inp)\<in>set new. erase_prog prog \<and> take 1 argv = [''--resume'']"
    by auto
  then show ?thesis using run by (fastforce simp: erase_prog_def)
qed

section \<open>The guess that is not counted\<close>

text \<open>
  C36. The counter is advanced only after \<open>cryptsetup\<close> has answered: when the power is cut between the
  answer and the write, the guess has been made and nothing of it is on the disk, so that someone who
  cuts the power each time can guess without limit.
\<close>

theorem guess_not_counted:
  assumes "\<not> w_debug w" and tools: "w_exec w = (\<lambda>prog args inp st. (Exited False [], st))"
    and "w_tty w = s # rest" and "verify (w_kdf w) dh s = Ok False"
    and "w_sched w = [Go, Go, Go, Cut]"
  shows "\<exists>w'. prompt_loop (Suc left) device esp mapping cfg dh daily rec w = (Halt PowerLoss, w') \<and>
    guesses w' = guesses w + 1 \<and> w_vis w' = w_vis w \<and> w_dur w' = w_dur w \<and>
    last (w_log w') = (''cryptsetup'', [''open'', device, mapping], s @ [CHR 0x0A])"
  using assms
  by (simp add: prompt_secret_def plymouth_active_def test_mode_def bnd_def ask_def ret_def run_cmd_def probe_def
      cmd_success_def ctx_def rctx_def prompt_password_def sys_def lift_def luks_open_def cmd_status_def
      bump_count_def read_count_def read_to_string_def guesses_def)

theorem guess_not_counted_witness:
  "\<exists>w'. prompt_loop 5 ''/dev/sda'' [''/'', ''e''] ''cryptroot'' default_policy sample_hash 0 1
      (machine armed_disk () \<lparr>w_tty := [''guess''], w_kdf := (\<lambda>pw salt n. Some []), w_sched := [Go, Go, Go, Cut]\<rparr>) =
      (Halt PowerLoss, w') \<and> guesses w' = 1 \<and> w_dur w' = armed_disk"
proof -
  let ?w = "machine armed_disk () \<lparr>w_tty := [''guess''], w_kdf := (\<lambda>pw salt n. Some []), w_sched := [Go, Go, Go, Cut]\<rparr>"
  have v: "verify (w_kdf ?w) sample_hash ''guess'' = Ok False"
    by (simp add: verify_def pbkdf2_sha256_def sample_hash_def rbind_def)
  have w: "\<not> w_debug ?w" "w_exec ?w = (\<lambda>prog args inp st. (Exited False [], st))" "w_tty ?w = [''guess'']"
    "w_sched ?w = [Go, Go, Go, Cut]"
    by (simp_all add: machine_def)
  from guess_not_counted [OF w(1,2,3) v w(4), of 4 "''/dev/sda''" "[''/'', ''e'']" "''cryptroot''" default_policy 0 1]
  show ?thesis by (auto simp: eval_nat_numeral guesses_def)
qed

end
