(* ===== verification/Unlock_Wipe.thy ===== *)
theory Unlock_Wipe
  imports Unlock_Guesses Erase_Claims
begin

text \<open>
  The composition of \<open>ds-unlock\<close> and \<open>ds-erase\<close>: the command lines the one builds mean to the other
  what they should.
\<close>

section \<open>Paths there and back\<close>

lemma split_on_parts: "c \<in> set (split_on x s) \<Longrightarrow> x \<notin> set c"
proof (induction s arbitrary: c)
  case (Cons a s)
  then show ?case by (cases "split_on x s") (auto split: if_splits)
qed simp

lemma components_absolute:
  assumes "prefix ''/'' t"
  shows "\<exists>cs. components t = ''/'' # cs \<and> list_all (\<lambda>c. c \<noteq> [] \<and> c \<noteq> ''.'' \<and> CHR ''/'' \<notin> set c) cs"
  using assms split_on_parts [of _ "CHR ''/''" t]
  by (auto simp: components_def Let_def list_all_iff)

lemma components_path_text:
  assumes "list_all (\<lambda>c. c \<noteq> [] \<and> c \<noteq> ''.'' \<and> CHR ''/'' \<notin> set c) cs"
  shows "components (path_text (''/'' # cs)) = ''/'' # cs"
proof -
  have tx: "path_text (''/'' # cs) = CHR ''/'' # join ''/'' cs" by (simp add: path_text_def is_absolute_def)
  have "split_on CHR ''/'' (CHR ''/'' # join ''/'' cs) = [] # split_on CHR ''/'' (join ''/'' cs)" by simp
  moreover have "filter (\<lambda>c. c \<noteq> [] \<and> c \<noteq> ''.'') (split_on CHR ''/'' (join ''/'' cs)) = cs"
  proof (cases "cs = []")
    case False
    have "split_on CHR ''/'' (join ''/'' cs) = cs"
      by (rule split_on_join [OF False]) (use assms in \<open>auto simp: list_all_iff\<close>)
    moreover have "filter (\<lambda>c. c \<noteq> [] \<and> c \<noteq> ''.'') cs = cs"
      by (rule filter_True) (use assms in \<open>auto simp: list_all_iff\<close>)
    ultimately show ?thesis by simp
  qed simp
  ultimately show ?thesis unfolding components_def tx by (simp add: Let_def)
qed

lemma path_text_child:
  "prefix ''/'' t \<Longrightarrow> c \<noteq> [] \<Longrightarrow> c \<noteq> ''.'' \<Longrightarrow> CHR ''/'' \<notin> set c \<Longrightarrow>
    components (path_text (components t @ [c])) = components t @ [c] \<and> prefix ''/'' (path_text (components t @ [c]))"
  using components_absolute [of t] components_path_text by (auto simp: path_text_def is_absolute_def)

section \<open>The command lines\<close>

lemma show_word_not_flag: "show_word (k :: u8) \<noteq> CHR ''-'' # s"
  using show_word_no [of "CHR ''-''" k] by (auto simp: is_digit_def)

lemma wipe_args_flags:
  assumes dev: "prefix ''/'' device" and esp: "prefix ''/'' t" "esp = components t"
  shows "flag (wipe_args device esp mapping daily rec tm) ''--device'' = Some device"
    "flag (wipe_args device esp mapping daily rec tm) ''--mode'' = Some ''killslot''"
    "flag (wipe_args device esp mapping daily rec tm) ''--slot'' = Some (show_word daily)"
    "flag (wipe_args device esp mapping daily rec tm) ''--recovery-slot'' = Some (show_word rec)"
    "flag (wipe_args device esp mapping daily rec tm) ''--journal'' = Some (path_text (esp @ [JOURNAL_NAME]))"
proof -
  have d: "device \<noteq> CHR ''-'' # s" for s using dev by auto
  show "flag (wipe_args device esp mapping daily rec tm) ''--device'' = Some device"
    "flag (wipe_args device esp mapping daily rec tm) ''--mode'' = Some ''killslot''"
    "flag (wipe_args device esp mapping daily rec tm) ''--slot'' = Some (show_word daily)"
    "flag (wipe_args device esp mapping daily rec tm) ''--recovery-slot'' = Some (show_word rec)"
    "flag (wipe_args device esp mapping daily rec tm) ''--journal'' = Some (path_text (esp @ [JOURNAL_NAME]))"
    using d show_word_not_flag by (simp_all add: wipe_args_def)
qed

lemma wipe_args_mode:
  assumes dev: "prefix ''/'' device" and esp: "prefix ''/'' t" "esp = components t"
    and slots: "daily \<noteq> rec" "daily \<le> 31" "rec \<le> 31"
  shows "parse_mode (wipe_args device esp mapping daily rec tm) w = (Ok (KillSlot, Some daily, Some rec), w)"
  using wipe_args_flags [OF dev esp, of mapping daily rec tm] slots
  by (simp add: parse_mode_def slot_flag_def bnd_def lift_def ret_def validate_mode_slots_def parse_show_word)

lemma resume_args_flags:
  assumes dev: "prefix ''/'' device" and esp: "prefix ''/'' t" "esp = components t"
  shows "need_slot (resume_args (esp @ [JOURNAL_NAME]) device daily rec mapping) ''--expected-slot'' = Ok daily"
    "need_slot (resume_args (esp @ [JOURNAL_NAME]) device daily rec mapping) ''--expected-recovery-slot'' = Ok rec"
proof -
  have d: "device \<noteq> CHR ''-'' # s" for s using dev by auto
  have "path_text (esp @ [JOURNAL_NAME]) \<noteq> CHR ''-'' # s" for s
    using path_text_child [OF esp(1), of JOURNAL_NAME] esp(2) by (auto simp: JOURNAL_NAME_def)
  then show "need_slot (resume_args (esp @ [JOURNAL_NAME]) device daily rec mapping) ''--expected-slot'' = Ok daily"
    "need_slot (resume_args (esp @ [JOURNAL_NAME]) device daily rec mapping) ''--expected-recovery-slot'' = Ok rec"
    using d show_word_not_flag by (simp_all add: resume_args_def need_slot_def parse_show_word)
qed

section \<open>What the commands do\<close>

lemma spares_fire:
  fixes slots :: "'x \<Rightarrow> string \<Rightarrow> u8 set"
  assumes "\<And>(w :: 'x world) mode slot rec w'. parse_mode args w = (Ok (mode, slot, rec), w') \<Longrightarrow> mode = KillSlot \<and> set_option slot \<subseteq> K"
  shows "keeps (spares slots K) (fire to_json args)"
  unfolding fire_def
proof (intro sparing.keeps_bnd_dep keeps_spares_mono [OF spares_guard], goal_cases)
  case (2 w a w')
  show ?case by (auto intro: sparing.keeps_basic spares_configured split: option.splits)
next
  case (6 w1 u w1' w2 dev w2' w3 device w3' w4 u' w4' w5 m w5')
  obtain mode slot rec where m: "m = (mode, slot, rec)" by (cases m)
  have "mode = KillSlot \<and> set_option slot \<subseteq> K" by (rule assms [of w5 mode slot rec w5']) (use 6(5) m in simp)
  then have k: "mode = KillSlot" "set_option slot \<subseteq> K" by simp_all
  have trans: "keeps (spares slots K) (run_transaction to_json path j np)" if "doomed j \<subseteq> K" for path j np
    by (rule keeps_spares_mono [OF spares_transaction that])
  show ?case
    unfolding m prod.case Let_def
    by (intro sparing.keeps_bnd sparing.keeps_basic keeps_validate_scan_roots [THEN spares_reading]
        keeps_write_journal [THEN keeps_spares_files] trans)
      (simp_all add: test_no_poweroff_def doomed_def k sparing.keeps_basic)
qed (auto intro: sparing.keeps_basic spares_validate_target spares_parse_mode)

lemma spares_attempt_run: "keeps (spares slots K) m \<Longrightarrow> keeps (spares slots K) (bnd (attempt m) (\<lambda>r. ret (g r)))"
  by (intro sparing.keeps_bnd sparing.keeps_basic sparing.keeps_attempt)

lemma spares_main:
  assumes "args \<noteq> []" and "hd args = ''--fire'' \<and> keeps (spares slots K) (fire to_json args) \<or>
      hd args = ''--resume'' \<and> keeps (spares slots K) (resume to_json of_json args)"
  shows "keeps (spares slots K) (erase_main to_json of_json self_test args)"
proof -
  obtain a as where args: "args = a # as" using assms(1) by (cases args) auto
  have "keeps (spares slots K) (erase_run to_json of_json self_test args)"
    unfolding erase_run_def args list.case
    using assms(2) by (intro sparing.keeps_bnd) (auto simp: args intro!: sparing.keeps_bnd sparing.keeps_basic)
  then show ?thesis unfolding erase_main_def by (intro sparing.keeps_bnd sparing.keeps_basic sparing.keeps_attempt)
qed

text \<open>
  C20. The command that \<open>ds-unlock\<close> builds for a wipe means KillSlot of the daily slot: \<open>ds-erase\<close>
  parses it to exactly that, with the enrolled recovery slot and the journal on the ESP; and running
  it, whatever fails, takes no slot but the daily one from any container. The command it builds for an
  unfinished destruction can take no other slot either.
\<close>

theorem wipe_command_spares_recovery:
  assumes "tools_ok slots (w_exec w)" and "prefix ''/'' device" and "prefix ''/'' t" "esp = components t"
    and "daily \<noteq> rec" "daily \<le> 31" "rec \<le> 31"
    and args: "args = wipe_args device esp mapping daily rec tm \<or>
      args = resume_args (esp @ [JOURNAL_NAME]) device daily rec mapping"
    and run: "erase_main to_json of_json self_test args w = (r, w')"
  shows "slots (w_ext w) d - {daily} \<subseteq> slots (w_ext w') d \<and> slots (w_ext w') d \<subseteq> slots (w_ext w) d \<and>
    parse_mode (wipe_args device esp mapping daily rec tm) v = (Ok (KillSlot, Some daily, Some rec), v) \<and>
    components (the (flag (wipe_args device esp mapping daily rec tm) ''--journal'')) = esp @ [JOURNAL_NAME]"
proof -
  note mode = wipe_args_mode [OF assms(2-7), of mapping tm]
  have fire: "keeps (spares slots {daily}) (fire to_json (wipe_args device esp mapping daily rec tm))"
    by (rule spares_fire) (simp add: mode)
  have "keeps (spares slots {k. need_slot args ''--expected-slot'' = Ok k \<and>
      need_slot args ''--expected-recovery-slot'' \<noteq> Ok k}) (resume to_json of_json args)"
    by (rule spares_resume)
  then have resume: "keeps (spares slots {daily}) (resume to_json of_json args)"
    if "args = resume_args (esp @ [JOURNAL_NAME]) device daily rec mapping"
    by (rule keeps_spares_mono) (use resume_args_flags [OF assms(2-4)] that in auto)
  have "keeps (spares slots {daily}) (erase_main to_json of_json self_test args)"
    by (rule spares_main) (use args fire resume in \<open>auto simp: wipe_args_def resume_args_def\<close>)
  from keepsD [OF this run] show ?thesis
    using assms(1) mode wipe_args_flags(5) [OF assms(2-4)] path_text_child [OF assms(3), of JOURNAL_NAME]
    by (auto simp: spares_def JOURNAL_NAME_def assms(4))
qed

text \<open>The command as a boot builds it, run to its end on a machine that is marked disposable.\<close>

lemma wipe_run:
  "fst (erase_main (\<lambda>j. Some ''{}'') (\<lambda>s. None) (ret ())
    (wipe_args ''/dev/sda'' (components ''/boot/deathstroke'') ''cryptroot'' 0 1 False) ready_slots) = Ok 0"
  by code_simp

theorem wipe_command_spares_recovery_witness:
  "\<exists>w'. erase_main (\<lambda>j. Some ''{}'') (\<lambda>s. None) (ret ())
      (wipe_args ''/dev/sda'' (components ''/boot/deathstroke'') ''cryptroot'' 0 1 False) ready_slots = (Ok 0, w') \<and>
    1 \<in> listed (w_ext w') ''/dev/sda''"
proof -
  let ?args = "wipe_args ''/dev/sda'' (components ''/boot/deathstroke'') ''cryptroot'' 0 1 False"
  obtain w' where run: "erase_main (\<lambda>j. Some ''{}'') (\<lambda>s. None) (ret ()) ?args ready_slots = (Ok 0, w')"
    using wipe_run by (metis prod.collapse)
  have tools: "tools_ok listed (w_exec ready_slots)" by (simp add: working_tools_ok)
  have "listed (w_ext ready_slots) ''/dev/sda'' - {0} \<subseteq> listed (w_ext w') ''/dev/sda''"
    by (rule wipe_command_spares_recovery [OF tools _ _ refl _ _ _ disjI1 [OF refl] run, THEN conjunct1]) simp_all
  moreover have "1 \<in> listed (w_ext ready_slots) ''/dev/sda''" by (simp add: listed_def)
  ultimately show ?thesis using run by auto
qed

end
