(* ===== verification/Unlock_Selftest.thy ===== *)
theory Unlock_Selftest
  imports Unlock
begin

text \<open>
  The self test of \<open>ds-unlock\<close>: it drives the reader and the writer of the counter and the reader of the
  policy on a directory of its own, and removes the directory whatever became of the test.
\<close>

section \<open>The test\<close>

definition selftest_dir :: "'x world \<Rightarrow> path" where
  "selftest_dir w = components (''/tmp/ds-unlock-selftest.'' @ show_nat (w_pid w))"

definition selftest_body :: "path \<Rightarrow> ('x, nat) io" where
  "selftest_body esp =
    bnd (fs_write (counter_path esp) ''0\<newline>'') (\<lambda>_.
    bnd (fs_write (esp @ [''armed'']) ''1\<newline>'') (\<lambda>_.
    bnd (read_count esp) (\<lambda>start.
    bnd (bump_count esp) (\<lambda>one.
    bnd (bump_count esp) (\<lambda>two.
    bnd (read_count esp) (\<lambda>again.
    bnd (bump_count esp) (\<lambda>three.
    bnd (reset_count esp) (\<lambda>_.
    bnd (read_count esp) (\<lambda>zero.
    bnd (fs_write (esp @ [''config'']) ''lockout_at = 3\<newline>wipe_at = 5\<newline>lockout_delay = 0\<newline>max_prompts = 5\<newline>'') (\<lambda>_.
    bnd (read_cfg esp) (\<lambda>cfg.
    bnd (fs_write (counter_path esp) ''garbage\<newline>'') (\<lambda>_.
    bnd (attempt (read_count esp)) (\<lambda>corrupt.
    bnd (fs_write (esp @ [''config'']) ''lockout_at=0\<newline>wipe_at=5\<newline>max_prompts=5\<newline>'') (\<lambda>_.
    bnd (attempt (read_cfg esp)) (\<lambda>invalid.
    ret (if start = 0 \<and> one = 1 \<and> two = 2 \<and> again = 2 \<and> three = 3 \<and> zero = 0 \<and> lockout_at cfg = 3 \<and> wipe_at cfg = 5 \<and>
        isl corrupt \<and> isl invalid then 0 else 1))))))))))))))))"

text \<open>The directory is removed when the guard goes out of scope, after an error too.\<close>

definition unlock_self_test :: "('x, nat) io" where
  "unlock_self_test =
    bnd (ask selftest_dir) (\<lambda>esp.
    bnd (create_dir_all esp) (\<lambda>_.
    bnd (attempt (selftest_body esp)) (\<lambda>r.
    bnd (attempt (remove_dir_all esp)) (\<lambda>_.
    case r of Inl e \<Rightarrow> fail e | Inr code \<Rightarrow> ret code))))"

definition unlock_program :: "string list \<Rightarrow> ('x, nat) io" where
  "unlock_program = unlock_main unlock_self_test"

section \<open>Its steps on a healthy machine\<close>

lemma fs_write_calm:
  assumes "w_sched w = []" "d \<noteq> []" "fs_get (w_vis w) d = Some (Dir m)"
    and "fs_get (w_vis w) (d @ [x]) = None \<or> (\<exists>t md s. fs_get (w_vis w) (d @ [x]) = Some (File t md s))"
  shows "\<exists>w' md. fs_write (d @ [x]) data w = (Ok (), w') \<and> same_env w w' \<and> w_sched w' = [] \<and>
    (\<forall>q. fs_get (w_vis w') q = (if q = d @ [x] then Some (File data md False) else fs_get (w_vis w) q))"
proof -
  have q: "target_of (w_vis w) (d @ [x]) = d @ [x]" using assms(4) by (auto intro!: target_plain)
  show ?thesis
    using assms q by (auto simp: fs_write_def sys_def Let_def parent_of_snoc look_Dir same_env_def)
qed

text \<open>The directory of the test holds the files \<open>S\<close>, and everything outside is as before the test.\<close>

definition testing :: "path \<Rightarrow> 'x world \<Rightarrow> (string \<rightharpoonup> string) \<Rightarrow> 'x world \<Rightarrow> bool" where
  "testing esp w0 S w \<longleftrightarrow>
    same_env w0 w \<and> w_sched w = [] \<and> esp \<noteq> [] \<and> (\<exists>m. fs_get (w_vis w) esp = Some (Dir m)) \<and>
    (\<forall>x. case S x of None \<Rightarrow> fs_get (w_vis w) (esp @ [x]) = None
      | Some t \<Rightarrow> \<exists>md s. fs_get (w_vis w) (esp @ [x]) = Some (File t md s)) \<and>
    (\<forall>q. \<not> prefix esp q \<longrightarrow> fs_get (w_vis w) q = fs_get (w_vis w0) q)"

lemma testing_file:
  assumes "testing esp w0 S w"
  shows "S x = Some t \<Longrightarrow> \<exists>md s. fs_get (w_vis w) (esp @ [x]) = Some (File t md s)"
    "S x = None \<Longrightarrow> fs_get (w_vis w) (esp @ [x]) = None"
proof -
  have "case S x of None \<Rightarrow> fs_get (w_vis w) (esp @ [x]) = None
      | Some t \<Rightarrow> \<exists>md s. fs_get (w_vis w) (esp @ [x]) = Some (File t md s)"
    using assms unfolding testing_def by blast
  then show "S x = Some t \<Longrightarrow> \<exists>md s. fs_get (w_vis w) (esp @ [x]) = Some (File t md s)"
    "S x = None \<Longrightarrow> fs_get (w_vis w) (esp @ [x]) = None"
    by simp_all
qed

lemma testing_put:
  assumes t: "testing esp w0 S w" and w': "same_env w w'" "w_sched w' = []"
    "\<forall>q. fs_get (w_vis w') q = (if q = esp @ [x] then Some (File t md s) else fs_get (w_vis w) q)"
  shows "testing esp w0 (S(x \<mapsto> t)) w'"
proof -
  have "same_env w0 w'" using t w'(1) by (simp add: testing_def same_env_def)
  moreover have "case (S(x \<mapsto> t)) y of None \<Rightarrow> fs_get (w_vis w') (esp @ [y]) = None
      | Some u \<Rightarrow> \<exists>md s. fs_get (w_vis w') (esp @ [y]) = Some (File u md s)" for y
    using testing_file [OF t, of y] w'(3) by (cases "y = x"; cases "S y") auto
  ultimately show ?thesis using t w'(2,3) by (auto simp: testing_def)
qed

lemma testing_write:
  assumes t: "testing esp w0 S w"
  shows "\<exists>w'. fs_write (esp @ [x]) data w = (Ok (), w') \<and> testing esp w0 (S(x \<mapsto> data)) w'"
proof -
  have "fs_get (w_vis w) (esp @ [x]) = None \<or> (\<exists>t md s. fs_get (w_vis w) (esp @ [x]) = Some (File t md s))"
    using testing_file [OF t, of x] by (cases "S x") auto
  moreover have "w_sched w = []" "esp \<noteq> []" using t by (simp_all add: testing_def)
  moreover obtain m where "fs_get (w_vis w) esp = Some (Dir m)" using t by (auto simp: testing_def)
  ultimately show ?thesis using fs_write_calm [of w esp m x data] testing_put [OF t] by blast
qed

lemma testing_read:
  assumes t: "testing esp w0 S w"
  shows "S ''counter'' = Some d \<Longrightarrow> utf8_valid d \<Longrightarrow> read_count esp w = (parse_count d, w)"
    "S ''config'' = Some d \<Longrightarrow> utf8_valid d \<Longrightarrow> read_cfg esp w = (rctx ''invalid armed policy'' (parse_policy d), w)"
proof -
  have sched: "w_sched w = []" using t by (simp add: testing_def)
  show "S ''counter'' = Some d \<Longrightarrow> utf8_valid d \<Longrightarrow> read_count esp w = (parse_count d, w)"
    using testing_file(1) [OF t] read_count_calm [OF sched, of esp] unfolding counter_path_def by blast
  show "S ''config'' = Some d \<Longrightarrow> utf8_valid d \<Longrightarrow> read_cfg esp w = (rctx ''invalid armed policy'' (parse_policy d), w)"
    using testing_file(1) [OF t, of "''config''"] sched
    by (auto simp: read_cfg_def bnd_def ctx_def read_to_string_def sys_def read_result_def look_File lift_def rctx_def
        split: res.splits)
qed

lemma testing_bump:
  assumes t: "testing esp w0 S w" and c: "S ''counter'' = Some d" "utf8_valid d" "parse_count d = Ok c"
    and fresh: "S (temp_name ''counter'' (w_pid w)) = None"
  shows "\<exists>w'. bump_count esp w = (Ok (sat_inc c), w') \<and> testing esp w0 (S(''counter'' \<mapsto> count_text (sat_inc c))) w'"
    "\<exists>w'. reset_count esp w = (Ok (), w') \<and> testing esp w0 (S(''counter'' \<mapsto> count_text 0)) w'"
proof -
  obtain m where base: "w_sched w = []" "esp \<noteq> []" "fs_get (w_vis w) esp = Some (Dir m)" using t by (auto simp: testing_def)
  obtain md s where cf: "fs_get (w_vis w) (counter_path esp) = Some (File d md s)"
    using testing_file(1) [OF t c(1)] by (auto simp: counter_path_def)
  note temp = testing_file(2) [OF t fresh]
  obtain r w' where run: "bump_count esp w = (r, w')" by fastforce
  from wpD [OF wp_bump_count_calm [OF base cf c(2,3) temp] run] run
  show "\<exists>w'. bump_count esp w = (Ok (sat_inc c), w') \<and> testing esp w0 (S(''counter'' \<mapsto> count_text (sat_inc c))) w'"
    using testing_put [OF t] unfolding counter_path_def by blast
  obtain r w' where run: "reset_count esp w = (r, w')" by fastforce
  from wpD [OF wp_write_count_calm [OF base cf temp] run [unfolded reset_count_def]] run
  show "\<exists>w'. reset_count esp w = (Ok (), w') \<and> testing esp w0 (S(''counter'' \<mapsto> count_text 0)) w'"
    using testing_put [OF t] unfolding counter_path_def by blast
qed

section \<open>The texts of the test\<close>

lemma digit_words:
  "show_word (3 :: u32) = ''3''" "show_word (5 :: u32) = ''5''" "show_word (0 :: u32) = ''0''" "show_word (0 :: u64) = ''0''"
proof -
  have "char_of (51 :: nat) = CHR ''3''" "char_of (53 :: nat) = CHR ''5''" "char_of (48 :: nat) = CHR ''0''" by code_simp+
  then show "show_word (3 :: u32) = ''3''" "show_word (5 :: u32) = ''5''" "show_word (0 :: u32) = ''0''" "show_word (0 :: u64) = ''0''"
    by (simp_all add: show_word_def show_nat_small digit_char_def)
qed

lemma parse_digit:
  "parse_word ''3'' = Some (3 :: u32)" "parse_word ''5'' = Some (5 :: u32)" "parse_word ''0'' = Some (0 :: u32)"
  "parse_word ''0'' = Some (0 :: u64)"
  using parse_show_word [of "3 :: u32"] parse_show_word [of "5 :: u32"] parse_show_word [of "0 :: u32"]
    parse_show_word [of "0 :: u64"] unfolding digit_words by simp_all

lemma policy_good:
  "parse_policy ''lockout_at = 3\<newline>wipe_at = 5\<newline>lockout_delay = 0\<newline>max_prompts = 5\<newline>'' =
    Ok \<lparr>lockout_at = 3, wipe_at = 5, lockout_delay = 0, max_prompts = 5\<rparr>"
proof -
  have ls: "text_lines ''lockout_at = 3\<newline>wipe_at = 5\<newline>lockout_delay = 0\<newline>max_prompts = 5\<newline>'' =
      [''lockout_at = 3'', ''wipe_at = 5'', ''lockout_delay = 0'', ''max_prompts = 5'']"
    by code_simp
  have kv: "split_once CHR ''='' ''lockout_at = 3'' = Some (''lockout_at '', '' 3'')"
    "split_once CHR ''='' ''wipe_at = 5'' = Some (''wipe_at '', '' 5'')"
    "split_once CHR ''='' ''lockout_delay = 0'' = Some (''lockout_delay '', '' 0'')"
    "split_once CHR ''='' ''max_prompts = 5'' = Some (''max_prompts '', '' 5'')"
    by code_simp+
  have tr: "trim ''lockout_at = 3'' = ''lockout_at = 3''" "trim ''wipe_at = 5'' = ''wipe_at = 5''"
    "trim ''lockout_delay = 0'' = ''lockout_delay = 0''" "trim ''max_prompts = 5'' = ''max_prompts = 5''"
    "trim ''lockout_at '' = ''lockout_at''" "trim ''wipe_at '' = ''wipe_at''"
    "trim ''lockout_delay '' = ''lockout_delay''" "trim ''max_prompts '' = ''max_prompts''"
    "trim '' 3'' = ''3''" "trim '' 5'' = ''5''" "trim '' 0'' = ''0''"
    by code_simp+
  have "validate_policy \<lparr>lockout_at = 3, wipe_at = 5, lockout_delay = 0, max_prompts = 5\<rparr> =
      Ok \<lparr>lockout_at = 3, wipe_at = 5, lockout_delay = 0, max_prompts = 5\<rparr>"
    by (simp add: validate_policy_sound sound_policy_def)
  then show ?thesis
    unfolding parse_policy_def ls policy_lines.simps policy_line_def Let_def tr kv
    by (simp add: tr policy_set_def parse_digit default_policy_def)
qed

lemma policy_bad: "\<exists>e. parse_policy ''lockout_at=0\<newline>wipe_at=5\<newline>max_prompts=5\<newline>'' = Err e"
proof -
  let ?p = "\<lparr>lockout_at = 0, wipe_at = 5, lockout_delay = 0, max_prompts = 5\<rparr>"
  have ls: "text_lines ''lockout_at=0\<newline>wipe_at=5\<newline>max_prompts=5\<newline>'' = [''lockout_at=0'', ''wipe_at=5'', ''max_prompts=5'']"
    by code_simp
  have kv: "split_once CHR ''='' ''lockout_at=0'' = Some (''lockout_at'', ''0'')"
    "split_once CHR ''='' ''wipe_at=5'' = Some (''wipe_at'', ''5'')"
    "split_once CHR ''='' ''max_prompts=5'' = Some (''max_prompts'', ''5'')"
    by code_simp+
  have tr: "trim ''lockout_at=0'' = ''lockout_at=0''" "trim ''wipe_at=5'' = ''wipe_at=5''"
    "trim ''max_prompts=5'' = ''max_prompts=5''" "trim ''lockout_at'' = ''lockout_at''" "trim ''wipe_at'' = ''wipe_at''"
    "trim ''max_prompts'' = ''max_prompts''" "trim ''5'' = ''5''" "trim ''0'' = ''0''"
    by code_simp+
  show ?thesis
    unfolding parse_policy_def ls policy_lines.simps policy_line_def Let_def tr kv
    by (simp add: tr policy_set_def parse_digit validate_policy_def)
qed

lemma count_bad: "\<exists>e. parse_count ''garbage\<newline>'' = Err e"
proof -
  have "split_whitespace ''garbage\<newline>'' = [''garbage'']" by code_simp
  moreover have "parse_word ''garbage'' = (None :: u32 option)"
    by (simp add: parse_word_def parse_word_radix_def parse_radix_def digit_val_def)
  ultimately show ?thesis by (simp add: parse_count_def Let_def)
qed

lemma zero_text: "''0\<newline>'' = count_text 0"
  by (simp add: count_text_def digit_words)

section \<open>The test passes\<close>

lemma selftest_body_passes:
  assumes w: "testing esp w0 (\<lambda>_. None) w"
  shows "\<exists>w' S. selftest_body esp w = (Ok 0, w') \<and> testing esp w0 S w'"
proof -
  have pid: "\<And>S v. testing esp w0 S v \<Longrightarrow> w_pid v = w_pid w0" by (simp add: testing_def same_env_def)
  have temp: "temp_name ''counter'' n \<notin> {''counter'', ''armed'', ''config''}" for n by (simp add: temp_name_def)
  have ok: "utf8_valid (count_text c)" "parse_count (count_text c) = Ok c" for c
    by (simp_all add: count_file.enc_utf8 count_file.dec_enc)
  have ascii: "utf8_valid ''garbage\<newline>''"
    "utf8_valid ''lockout_at = 3\<newline>wipe_at = 5\<newline>lockout_delay = 0\<newline>max_prompts = 5\<newline>''"
    "utf8_valid ''lockout_at=0\<newline>wipe_at=5\<newline>max_prompts=5\<newline>''"
    by code_simp+
  define S1 where "S1 n = [''counter'' \<mapsto> count_text n, ''armed'' \<mapsto> ''1\<newline>'']" for n
  have S1: "S1 n ''counter'' = Some (count_text n)" "S1 n (temp_name ''counter'' k) = None" for n k
    using temp by (auto simp: S1_def)
  have next1: "(S1 n)(''counter'' \<mapsto> count_text m) = S1 m" for n m by (auto simp: S1_def)
  obtain v1 where v1: "fs_write (counter_path esp) ''0\<newline>'' w = (Ok (), v1)" "testing esp w0 [''counter'' \<mapsto> ''0\<newline>''] v1"
    using testing_write [OF w] unfolding counter_path_def by blast
  obtain v2 where v2: "fs_write (esp @ [''armed'']) ''1\<newline>'' v1 = (Ok (), v2)" "testing esp w0 (S1 0) v2"
    using testing_write [OF v1(2)] unfolding S1_def zero_text by blast
  obtain v3 where v3: "bump_count esp v2 = (Ok (sat_inc 0), v3)" "testing esp w0 (S1 (sat_inc 0)) v3"
    using testing_bump(1) [OF v2(2) S1(1) ok S1(2)] unfolding next1 by blast
  obtain v4 where v4: "bump_count esp v3 = (Ok (sat_inc (sat_inc 0)), v4)" "testing esp w0 (S1 (sat_inc (sat_inc 0))) v4"
    using testing_bump(1) [OF v3(2) S1(1) ok S1(2)] unfolding next1 by blast
  obtain v5 where v5: "bump_count esp v4 = (Ok (sat_inc (sat_inc (sat_inc 0))), v5)" "testing esp w0 (S1 (sat_inc (sat_inc (sat_inc 0)))) v5"
    using testing_bump(1) [OF v4(2) S1(1) ok S1(2)] unfolding next1 by blast
  obtain v6 where v6: "reset_count esp v5 = (Ok (), v6)" "testing esp w0 (S1 0) v6"
    using testing_bump(2) [OF v5(2) S1(1) ok S1(2)] unfolding next1 by blast
  let ?good = "''lockout_at = 3\<newline>wipe_at = 5\<newline>lockout_delay = 0\<newline>max_prompts = 5\<newline>''"
  let ?bad = "''lockout_at=0\<newline>wipe_at=5\<newline>max_prompts=5\<newline>''"
  obtain v7 where v7: "fs_write (esp @ [''config'']) ?good v6 = (Ok (), v7)" "testing esp w0 ((S1 0)(''config'' \<mapsto> ?good)) v7"
    using testing_write [OF v6(2)] by blast
  obtain v8 where v8: "fs_write (counter_path esp) ''garbage\<newline>'' v7 = (Ok (), v8)"
    "testing esp w0 ((S1 0)(''config'' \<mapsto> ?good, ''counter'' \<mapsto> ''garbage\<newline>'')) v8"
    using testing_write [OF v7(2)] unfolding counter_path_def by blast
  obtain v9 where v9: "fs_write (esp @ [''config'']) ?bad v8 = (Ok (), v9)"
    "testing esp w0 ((S1 0)(''config'' \<mapsto> ?good, ''counter'' \<mapsto> ''garbage\<newline>'', ''config'' \<mapsto> ?bad)) v9"
    using testing_write [OF v8(2)] by blast
  have reads: "read_count esp v2 = (Ok 0, v2)" "read_count esp v4 = (Ok (sat_inc (sat_inc 0)), v4)" "read_count esp v6 = (Ok 0, v6)"
    using testing_read(1) [OF v2(2) S1(1) ok(1)] testing_read(1) [OF v4(2) S1(1) ok(1)] testing_read(1) [OF v6(2) S1(1) ok(1)]
    by (simp_all add: ok)
  have cfg: "read_cfg esp v7 = (Ok \<lparr>lockout_at = 3, wipe_at = 5, lockout_delay = 0, max_prompts = 5\<rparr>, v7)"
    using testing_read(2) [OF v7(2) fun_upd_same ascii(2)] by (simp only: policy_good rctx_simps)
  obtain e1 where e1: "read_count esp v8 = (Err e1, v8)"
    using testing_read(1) [OF v8(2) fun_upd_same ascii(1)] count_bad by metis
  obtain e2 where "parse_policy ?bad = Err e2" using policy_bad by blast
  then obtain e3 where e2: "read_cfg esp v9 = (Err e3, v9)"
    using testing_read(2) [OF v9(2) fun_upd_same ascii(3)] by (simp only: rctx_simps)
  have inc: "sat_inc (0 :: u32) = 1" "sat_inc (1 :: u32) = 2" "sat_inc (2 :: u32) = 3" by (simp_all add: sat_inc_def)
  have "selftest_body esp w = (Ok 0, v9)"
    unfolding selftest_body_def bnd_def attempt_def v1(1) v2(1) v3(1) v4(1) v5(1) v6(1) v7(1) v8(1) v9(1) reads cfg e1 e2 ret_def
      prod.case res.case inc
    by (simp only: attempts.simps policy.simps isl_def refl simp_thms if_True) simp
  then show ?thesis using v9(2) by blast
qed

lemma selftest_dir_path: "selftest_dir w = [''/'', ''tmp'', ''ds-unlock-selftest.'' @ show_nat (w_pid w)]"
proof -
  let ?x = "''ds-unlock-selftest.'' @ show_nat (w_pid w)"
  have "CHR ''/'' \<notin> set (show_nat (w_pid w))" using show_nat_digits [of "w_pid w"] by (auto simp: list_all_iff is_digit_def)
  then have "split_on CHR ''/'' ?x = [?x]" by (intro split_on_none) simp
  then have "split_on CHR ''/'' (''/tmp/ds-unlock-selftest.'' @ show_nat (w_pid w)) = [[], ''tmp'', ?x]" by simp
  then show ?thesis by (simp add: selftest_dir_def components_def Let_def)
qed

lemma fs_get_keep: "fs_get (filter (\<lambda>(q, _). \<not> prefix p q) f) q = (if prefix p q then None else fs_get f q)"
  by (simp add: fs_get_filter)

text \<open>
  C40. The self test of \<open>ds-unlock\<close> passes on every healthy machine: without faults, with \<open>/tmp\<close> in place
  and its directory not there yet, \<open>ds-unlock --self-test\<close> ends with exit code 0, whatever else the
  machine holds, and leaves every file as it was.
\<close>

theorem self_test_passes:
  assumes calm: "w_sched w = []" and tmp: "fs_get (w_vis w) [''/''] = Some (Dir m1)" "fs_get (w_vis w) [''/'', ''tmp''] = Some (Dir m2)"
    and free: "\<forall>q. prefix (selftest_dir w) q \<longrightarrow> fs_get (w_vis w) q = None"
    and args: "''--self-test'' \<in> set args"
  shows "\<exists>w'. unlock_program args w = (Ok 0, w') \<and> (\<forall>q. fs_get (w_vis w') q = fs_get (w_vis w) q)"
proof -
  define esp where "esp = selftest_dir w"
  have esp: "esp = [''/'', ''tmp'', ''ds-unlock-selftest.'' @ show_nat (w_pid w)]" by (simp add: esp_def selftest_dir_path)
  let ?w = "w\<lparr>w_vis := fs_put esp (Dir 511) (w_vis w)\<rparr>"
  have none: "fs_get (w_vis w) q = None" if "prefix esp q" for q using free that by (simp add: esp_def)
  have "filter (\<lambda>q. q \<noteq> []) (prefixes esp) = [[''/''], [''/'', ''tmp''], esp]" by (simp add: esp)
  moreover have "look (w_vis w) esp = None" "fs_get (w_vis w) esp = None" using none [of esp] by (simp_all add: look_None)
  ultimately have create: "create_dir_all esp w = (Ok (), ?w)"
    using calm tmp by (simp add: create_dir_all_def sys_def look_Dir)
  have "testing esp w (\<lambda>_. None) ?w"
    using calm none by (auto simp: testing_def same_env_def esp)
  then obtain v S where v: "selftest_body esp ?w = (Ok 0, v)" "testing esp w S v" using selftest_body_passes by blast
  then obtain m where m: "w_sched v = []" "fs_get (w_vis v) esp = Some (Dir m)" by (auto simp: testing_def)
  let ?v = "v\<lparr>w_vis := filter (\<lambda>(q, _). \<not> prefix esp q) (w_vis v)\<rparr>"
  have remove: "remove_dir_all esp v = (Ok (), ?v)" using m by (simp add: remove_dir_all_def sys_def)
  have "unlock_program args w = (Ok 0, ?v)"
    using args by (simp add: unlock_program_def unlock_main_def unlock_run_def unlock_self_test_def bnd_def ask_def
        attempt_def esp_def [symmetric] create v(1) remove ret_def)
  moreover have "fs_get (w_vis ?v) q = fs_get (w_vis w) q" for q
    using v(2) none by (auto simp: fs_get_keep testing_def)
  ultimately show ?thesis by blast
qed

definition tmp_disk :: fs where
  "tmp_disk = [([''/''], Dir 493), ([''/'', ''tmp''], Dir 511), ([''/'', ''tmp'', ''other''], File ''x'' 420 True)]"

theorem self_test_passes_witness:
  "\<exists>w'. unlock_program [''--self-test''] (machine tmp_disk ()) = (Ok 0, w') \<and>
    fs_get (w_vis w') [''/'', ''tmp'', ''other''] = Some (File ''x'' 420 True)"
proof -
  let ?w = "machine tmp_disk ()"
  have "\<forall>q. prefix (selftest_dir ?w) q \<longrightarrow> fs_get (w_vis ?w) q = None"
    by (auto simp: selftest_dir_path tmp_disk_def)
  from self_test_passes [OF _ _ _ this, of 493 511 "[''--self-test'']"] show ?thesis
    by (auto simp: tmp_disk_def)
qed

end
