(* ===== verification/Erase_Selftest.thy ===== *)
theory Erase_Selftest
  imports Unlock_Wipe Unlock_Selftest
begin

text \<open>
  The self test of \<open>ds-erase\<close>: it makes a container on a loop device of its own, destroys its header
  backups and keyslots with the operations of the program, and reads its own journal back; and which
  commands it can run.
\<close>

section \<open>Helpers\<close>

definition status_uid :: "string \<Rightarrow> string option" where
  "status_uid status =
    map_option (\<lambda>l. let v = split_whitespace (drop 4 l) in if length v < 2 then ''1'' else v ! 1)
      (find (\<lambda>l. prefix ''Uid:'' l) (text_lines status))"

definition erase_require_root :: "('x, unit) io" where
  "erase_require_root =
    bnd (attempt (read_to_string (components ''/proc/self/status''))) (\<lambda>r.
    let uid = (case r of
        Inl _ \<Rightarrow> ''1''
      | Inr status \<Rightarrow> (case status_uid status of None \<Rightarrow> ''1'' | Some u \<Rightarrow> u))
    in require (uid = ''0'') ''must run as root'')"

definition have_bin :: "string \<Rightarrow> ('x, bool) io" where
  "have_bin bin = bnd (run_cmd ''sh'' [''-c'', ''command -v '' @ bin] []) (\<lambda>c. ret (cmd_success c))"

definition run_ok :: "string \<Rightarrow> string list \<Rightarrow> ('x, unit) io" where
  "run_ok bin args =
    bnd (run_cmd bin args []) (\<lambda>c.
    bnd (lift (cmd_status (''spawn '' @ bin) c)) (\<lambda>ok.
    require ok (bin @ '' '' @ join '' '' args @ '' failed'')))"

text \<open>\<open>a && b\<close>, where evaluating the operands has effects.\<close>

definition and_then :: "('x, bool) io \<Rightarrow> ('x, bool) io \<Rightarrow> ('x, bool) io" where
  "and_then a b = bnd a (\<lambda>x. if x then b else ret False)"

definition not_exists :: "path \<Rightarrow> ('x, bool) io" where
  "not_exists p = bnd (path_exists p) (\<lambda>x. ret (\<not> x))"

section \<open>The test\<close>

definition erase_selftest_dir :: "'x world \<Rightarrow> string" where
  "erase_selftest_dir w = ''/tmp/ds-erase-selftest.'' @ show_nat (w_pid w)"

definition make_loop :: "string \<Rightarrow> ('x, string) io" where
  "make_loop dir =
    bnd (run_ok ''dd'' [''if=/dev/zero'', ''of='' @ dir @ ''/vault.img'', ''bs=1M'', ''count=32'', ''status=none'']) (\<lambda>_.
    bnd (run_cmd ''losetup'' [''-f'', ''--show'', dir @ ''/vault.img''] []) (\<lambda>c.
    case c of
      NoSpawn \<Rightarrow> fail IoErr
    | Exited _ out \<Rightarrow>
        (let loop_dev = trim (from_utf8_lossy out) in
         if loop_dev = [] then bail ''losetup gave no device'' else ret loop_dev)))"

definition opens :: "string \<Rightarrow> string \<Rightarrow> ('x, bool) io" where
  "opens loop_dev kf =
    bnd (run_cmd ''cryptsetup'' [''open'', ''--test-passphrase'', ''--key-file'', kf, loop_dev] []) (\<lambda>c.
    ret (cmd_success c))"

text \<open>Up to the header backups: whether every check so far has passed.\<close>

definition test_backups :: "string \<Rightarrow> string \<Rightarrow> ('x, bool) io" where
  "test_backups dir loop_dev =
    (let k0 = dir @ ''/k0''; k1 = dir @ ''/k1''; bkdir = dir @ ''/backups''; hdr = bkdir @ ''/hdr.bak'';
         stash_dir = bkdir @ ''/deeper''; nested = stash_dir @ ''/nested.hdr''; stash = dir @ ''/offline-copy.hdr'' in
     bnd (run_ok ''cryptsetup'' [''luksFormat'', ''--type'', ''luks2'', ''--batch-mode'', loop_dev, k0]) (\<lambda>_.
     bnd (run_ok ''cryptsetup'' [''luksAddKey'', loop_dev, k1, ''--key-file'', k0]) (\<lambda>_.
     bnd (and_then (opens loop_dev k0) (opens loop_dev k1)) (\<lambda>both.
     bnd (create_dir_all (components bkdir)) (\<lambda>_.
     bnd (create_dir_all (components stash_dir)) (\<lambda>_.
     bnd (run_ok ''cryptsetup'' [''luksHeaderBackup'', loop_dev, ''--header-backup-file'', hdr]) (\<lambda>_.
     bnd (run_ok ''cryptsetup'' [''luksHeaderBackup'', loop_dev, ''--header-backup-file'', nested]) (\<lambda>_.
     bnd (run_ok ''cryptsetup'' [''luksHeaderBackup'', loop_dev, ''--header-backup-file'', stash]) (\<lambda>_.
     bnd (is_luks_header_file (components hdr)) (\<lambda>detected.
     bnd (destroy_header_backups [bkdir]) (\<lambda>n.
     bnd (and_then (ret (n = 2)) (and_then (not_exists (components hdr)) (not_exists (components nested)))) (\<lambda>removed.
     bnd (path_exists (components stash)) (\<lambda>outside.
     ret (both \<and> detected \<and> removed \<and> outside))))))))))))))"

definition test_kill :: "string \<Rightarrow> string \<Rightarrow> ('x, bool) io" where
  "test_kill dir loop_dev =
    bnd (luks_kill_slot loop_dev 0) (\<lambda>_.
    bnd (opens loop_dev (dir @ ''/k0'')) (\<lambda>daily.
    bnd (opens loop_dev (dir @ ''/k1'')) (\<lambda>rec.
    ret (\<not> daily \<and> rec))))"

definition test_journal :: "string \<Rightarrow> string \<Rightarrow> journal" where
  "test_journal dir loop_dev =
    \<lparr>j_version = JOURNAL_VERSION, j_phase = BackupsHandled, j_device = loop_dev, j_mode = EraseAll, j_slot = None,
     j_recovery_slot = None, j_map_name = None, j_header_scan = [dir @ ''/backups'']\<rparr>"

definition test_resume ::
  "(journal \<Rightarrow> string option) \<Rightarrow> (string \<Rightarrow> journal option) \<Rightarrow> string \<Rightarrow> string \<Rightarrow> ('x, bool) io" where
  "test_resume to_json of_json dir loop_dev =
    (let jnl = components (dir @ ''/inprogress'') in
     bnd (write_journal to_json jnl (test_journal dir loop_dev)) (\<lambda>_.
     bnd (read_journal of_json jnl) (\<lambda>journal.
     bnd (run_transaction to_json jnl journal True) (\<lambda>_.
     bnd (not_exists jnl) (\<lambda>cleared.
     bnd (active_keyslots loop_dev) (\<lambda>n.
     bnd (opens loop_dev (dir @ ''/k1'')) (\<lambda>rec.
     bnd (run_ok ''cryptsetup'' [''luksHeaderRestore'', ''--batch-mode'', loop_dev, ''--header-backup-file'',
       dir @ ''/offline-copy.hdr'']) (\<lambda>_.
     bnd (opens loop_dev (dir @ ''/k1'')) (\<lambda>again.
     ret (cleared \<and> n = 0 \<and> \<not> rec \<and> again))))))))))"

definition test_vault ::
  "(journal \<Rightarrow> string option) \<Rightarrow> (string \<Rightarrow> journal option) \<Rightarrow> string \<Rightarrow> string \<Rightarrow> ('x, unit) io" where
  "test_vault to_json of_json dir loop_dev =
    bnd (test_backups dir loop_dev) (\<lambda>a.
    bnd (test_kill dir loop_dev) (\<lambda>b.
    bnd (test_resume to_json of_json dir loop_dev) (\<lambda>c.
    require (a \<and> b \<and> c) ''self-test had failures'')))"

text \<open>
  \<open>Cleanup\<close> detaches the loop device, once there is one, and removes the directory, after an error too;
  the errors before it is made leave the directory.
\<close>

definition with_cleanup :: "string \<Rightarrow> string option \<Rightarrow> ('x, 'a) io \<Rightarrow> ('x, 'a) io" where
  "with_cleanup dir loop_dev m =
    bnd (attempt m) (\<lambda>r.
    bnd (case loop_dev of Some l \<Rightarrow> bnd (run_cmd ''losetup'' [''-d'', l] []) (\<lambda>_. ret ()) | None \<Rightarrow> ret ()) (\<lambda>_.
    bnd (attempt (remove_dir_all (components dir))) (\<lambda>_.
    case r of Inl e \<Rightarrow> fail e | Inr a \<Rightarrow> ret a)))"

definition erase_self_test ::
  "(journal \<Rightarrow> string option) \<Rightarrow> (string \<Rightarrow> journal option) \<Rightarrow> ('x, unit) io" where
  "erase_self_test to_json of_json =
    bnd (ctx ''self-test needs root (device-mapper)'' erase_require_root) (\<lambda>_.
    bnd (and_then (have_bin ''cryptsetup'') (have_bin ''losetup'')) (\<lambda>tools.
    bnd (require tools ''need cryptsetup + losetup'') (\<lambda>_.
    bnd (ask erase_selftest_dir) (\<lambda>dir.
    bnd (create_dir_all (components dir)) (\<lambda>_.
    bnd (fs_write (components (dir @ ''/k0'')) ''daily-key'') (\<lambda>_.
    bnd (fs_write (components (dir @ ''/k1'')) ''recovery-key'') (\<lambda>_.
    bnd (attempt (make_loop dir)) (\<lambda>loop.
    case loop of
      Inl e \<Rightarrow> with_cleanup dir None (fail e)
    | Inr loop_dev \<Rightarrow> with_cleanup dir (Some loop_dev) (test_vault to_json of_json dir loop_dev)))))))))"

definition erase_program ::
  "(journal \<Rightarrow> string option) \<Rightarrow> (string \<Rightarrow> journal option) \<Rightarrow> string list \<Rightarrow> ('x, nat) io" where
  "erase_program to_json of_json = erase_main to_json of_json (erase_self_test to_json of_json)"

section \<open>The commands of the test\<close>

text \<open>The device a \<open>cryptsetup\<close> command acts on.\<close>

definition operand :: "string list \<Rightarrow> string option" where
  "operand args =
    (if args = [] then None
     else if hd args \<in> {''luksAddKey'', ''luksHeaderBackup'', ''luksDump''} then Some (args ! 1)
     else if hd args \<in> {''luksHeaderRestore'', ''luksKillSlot'', ''luksErase''} then Some (args ! 2)
     else if hd args \<in> {''luksFormat'', ''open''} then Some (args ! 4)
     else None)"

definition setup_command :: "string \<Rightarrow> string \<times> string list \<times> string \<Rightarrow> bool" where
  "setup_command dir e \<longleftrightarrow>
    (\<exists>bin. e = (''sh'', [''-c'', ''command -v '' @ bin], [])) \<or>
    e = (''dd'', [''if=/dev/zero'', ''of='' @ dir @ ''/vault.img'', ''bs=1M'', ''count=32'', ''status=none''], []) \<or>
    e = (''losetup'', [''-f'', ''--show'', dir @ ''/vault.img''], [])"

definition vault_command :: "string \<Rightarrow> string \<Rightarrow> string \<times> string list \<times> string \<Rightarrow> bool" where
  "vault_command dir loop_dev e \<longleftrightarrow>
    (\<exists>args. e = (''cryptsetup'', args, []) \<and> operand args = Some loop_dev) \<or>
    e = (''losetup'', [''-d'', loop_dev], []) \<or>
    (\<exists>p. e = (''shred'', [''-u'', ''-z'', ''-n'', ''1'', path_text p], []) \<and> prefix (components (dir @ ''/backups'')) p)"

text \<open>What \<open>losetup\<close> printed when it attached the image of the test.\<close>

definition attached :: "'x exec \<Rightarrow> string \<Rightarrow> string \<Rightarrow> bool" where
  "attached ex dir loop_dev \<longleftrightarrow>
    (\<exists>s s' ok out. ex ''losetup'' [''-f'', ''--show'', dir @ ''/vault.img''] [] s = (Exited ok out, s') \<and>
      loop_dev = trim (from_utf8_lossy out) \<and> loop_dev \<noteq> [])"


section \<open>Which step runs what\<close>

lemma keeps_fs_write: "keeps same_env (fs_write p data)"
  unfolding fs_write_def by (rule files.keeps_sys) (auto simp: Let_def split: option.splits node.splits)

lemma keeps_remove_dir_all: "keeps same_env (remove_dir_all p)"
  unfolding remove_dir_all_def by (rule files.keeps_sys) (auto split: option.splits node.splits)

lemmas logs_steps = logging.keeps_basic keeps_fs_write [THEN logs_files] keeps_remove_dir_all [THEN logs_files]
  keeps_file_ops [THEN logs_files] keeps_write_journal [THEN logs_files] keeps_remove_journal [THEN logs_files]

lemma logs_and_then: "keeps (logs P) a \<Longrightarrow> keeps (logs P) b \<Longrightarrow> keeps (logs P) (and_then a b)"
  unfolding and_then_def by (intro logging.keeps_bnd) (simp_all add: logging.keeps_basic)

lemma logs_not_exists: "keeps (logs P) (not_exists p)"
  unfolding not_exists_def by (intro logging.keeps_bnd logging.keeps_basic)

lemma logs_have: "(\<And>bin. P (''sh'', [''-c'', ''command -v '' @ bin], [])) \<Longrightarrow> keeps (logs P) (have_bin bin)"
  unfolding have_bin_def by (intro logging.keeps_bnd logs_run_cmd logging.keeps_basic)

lemma logs_run_ok: "P (bin, args, []) \<Longrightarrow> keeps (logs P) (run_ok bin args)"
  unfolding run_ok_def by (intro logging.keeps_bnd logs_run_cmd logging.keeps_basic)

lemma logs_make_loop:
  assumes "\<And>e. setup_command dir e \<Longrightarrow> P e"
  shows "keeps (logs P) (make_loop dir)"
  unfolding make_loop_def Let_def
  by (intro logging.keeps_bnd logs_run_ok logs_run_cmd)
    (auto intro: assms logging.keeps_basic simp: setup_command_def split: cmd.splits)

lemma logs_cryptsetup:
  "operand args = Some loop_dev \<Longrightarrow> keeps (logs (vault_command dir loop_dev)) (run_cmd ''cryptsetup'' args [])"
  by (rule logs_run_cmd) (simp add: vault_command_def)

lemma logs_ok_cryptsetup:
  "operand args = Some loop_dev \<Longrightarrow> keeps (logs (vault_command dir loop_dev)) (run_ok ''cryptsetup'' args)"
  by (rule logs_run_ok) (simp add: vault_command_def)

lemma logs_opens: "keeps (logs (vault_command dir loop_dev)) (opens loop_dev kf)"
  unfolding opens_def by (intro logging.keeps_bnd logs_cryptsetup logging.keeps_basic) (simp add: operand_def)

lemma logs_slots:
  "keeps (logs (vault_command dir loop_dev)) (active_slot_set loop_dev)"
  "keeps (logs (vault_command dir loop_dev)) (active_keyslots loop_dev)"
  "keeps (logs (vault_command dir loop_dev)) (luks_kill_slot loop_dev k)"
  "keeps (logs (vault_command dir loop_dev)) (luks_erase loop_dev)"
proof -
  show slots: "keeps (logs (vault_command dir loop_dev)) (active_slot_set loop_dev)"
    unfolding active_slot_set_def
    by (intro logging.keeps_bnd logs_cryptsetup) (auto simp: operand_def intro: logging.keeps_basic split: cmd.splits)
  show "keeps (logs (vault_command dir loop_dev)) (active_keyslots loop_dev)"
    unfolding active_keyslots_def by (intro logging.keeps_bnd slots logging.keeps_basic)
  show "keeps (logs (vault_command dir loop_dev)) (luks_kill_slot loop_dev k)"
    "keeps (logs (vault_command dir loop_dev)) (luks_erase loop_dev)"
    unfolding luks_kill_slot_def luks_erase_def
    by (intro logging.keeps_bnd logs_cryptsetup logging.keeps_basic; simp add: operand_def)+
qed

lemma read_dir_below: "read_dir d w = (Ok es, w') \<Longrightarrow> q \<in> set es \<Longrightarrow> prefix d q"
  using children_below
  by (fastforce simp: read_dir_def sys_def split: list.splits fault.splits option.splits node.splits)

lemma logs_scan:
  "\<forall>p\<in>set stack. prefix (components (dir @ ''/backups'')) p \<Longrightarrow>
    keeps (logs (vault_command dir loop_dev) :: 'x world \<Rightarrow> 'x world \<Rightarrow> bool) (scan_loop left n stack)"
proof (induction left arbitrary: n stack)
  case 0
  then show ?case by (cases stack) (auto intro!: logging.keeps_basic)
next
  case (Suc left)
  show ?case
  proof (cases stack)
    case (Cons p ps)
    let ?R = "logs (vault_command dir loop_dev) :: 'x world \<Rightarrow> 'x world \<Rightarrow> bool"
    let ?root = "components (dir @ ''/backups'')"
    have p: "prefix ?root p" and ps: "\<forall>q\<in>set ps. prefix ?root q" using Suc.prems Cons by auto
    have go: "keeps ?R (scan_loop left k ps)" for k by (rule Suc.IH [OF ps])
    have below: "keeps ?R
        (bnd (ctx ''read scan dir'' (read_dir p)) (\<lambda>entries. scan_loop left n (rev entries @ ps)))"
    proof (intro logging.keeps_bnd_dep logging.keeps_basic Suc.IH ballI)
      fix w entries w' q
      assume "ctx ''read scan dir'' (read_dir p) w = (Ok entries, w')" "q \<in> set (rev entries @ ps)"
      then show "prefix ?root q"
        using read_dir_below [of p w entries w' q] p ps
        by (auto simp: ctx_def rctx_def split: prod.splits res.splits intro: prefix_order.trans)
    qed
    have header: "keeps ?R (erase_header_file p)"
      unfolding erase_header_file_def
      by (intro logging.keeps_bnd logs_run_cmd) (use p in \<open>auto intro!: logs_steps simp: vault_command_def\<close>)
    show ?thesis
      unfolding Cons scan_loop.simps
      by (intro logging.keeps_bnd logs_steps)
        (auto intro!: logging.keeps_bnd logs_steps go below header simp: is_luks_header_file_def split: sum.splits)
  qed (simp add: logging.keeps_basic)
qed

lemma logs_backups: "keeps (logs (vault_command dir loop_dev)) (destroy_header_backups [dir @ ''/backups''])"
  unfolding destroy_header_backups_def by (rule logs_scan) simp

lemma logs_test_backups: "keeps (logs (vault_command dir loop_dev)) (test_backups dir loop_dev)"
proof -
  have "operand [''luksFormat'', a, b, c, d, k] = Some d" "operand [''luksAddKey'', d, b, c, k] = Some d"
    "operand [''luksHeaderBackup'', d, b, k] = Some d" for a b c d k
    by (simp_all add: operand_def)
  then show ?thesis
    unfolding test_backups_def Let_def is_luks_header_file_def
    by (intro logging.keeps_bnd logs_ok_cryptsetup logs_and_then logs_opens logs_steps logs_backups logs_not_exists)
qed

lemma logs_test_kill: "keeps (logs (vault_command dir loop_dev)) (test_kill dir loop_dev)"
  unfolding test_kill_def by (intro logging.keeps_bnd logs_slots logs_opens logs_steps)

lemma logs_verify:
  "j_mode j = EraseAll \<Longrightarrow> j_device j = loop_dev \<Longrightarrow>
    keeps (logs (vault_command dir loop_dev)) (verify_keyslot_outcome j)"
  unfolding verify_keyslot_outcome_def by (auto intro!: logging.keeps_bnd logs_slots logs_steps)

lemma logs_transaction:
  "keeps (logs (vault_command dir loop_dev) :: 'x world \<Rightarrow> 'x world \<Rightarrow> bool) (run_transaction to_json path (test_journal dir loop_dev) True)"
proof -
  let ?R = "logs (vault_command dir loop_dev) :: 'x world \<Rightarrow> 'x world \<Rightarrow> bool"
  let ?j = "test_journal dir loop_dev"
  have j: "j_mode ?j = EraseAll" "j_device ?j = loop_dev" "j_phase ?j = BackupsHandled" by (simp_all add: test_journal_def)
  have destroy: "keeps ?R (destroy_keyslots ?j)"
    unfolding destroy_keyslots_def using j by (auto intro!: logging.keeps_bnd logs_slots logs_steps)
  have finish: "keeps ?R (finish_stage path (?j\<lparr>j_phase := ph\<rparr>) True)" for ph
    unfolding finish_stage_def using j by (auto intro!: logging.keeps_bnd logs_verify logs_steps)
  have "keeps ?R (keyslots_stage to_json path ?j)"
    unfolding keyslots_stage_def Let_def using j
    by (auto intro!: logging.keeps_bnd destroy logs_verify logs_steps)
  then have "keeps ?R (bnd (keyslots_stage to_json path ?j) (\<lambda>j. finish_stage path j True))"
    by (rule logging.keeps_bnd_dep) (use stage_journals(2) finish in blast)
  moreover have "keeps ?R (backups_stage to_json path ?j)"
    and "\<And>w j' w'. backups_stage to_json path ?j w = (Ok j', w') \<Longrightarrow> j' = ?j"
    using j by (auto simp: backups_stage_def ret_def intro: logging.keeps_basic)
  ultimately show ?thesis unfolding run_transaction_def by (metis logging.keeps_bnd_dep)
qed

section \<open>The journal is read back\<close>

text \<open>The documented contract of \<open>serde_json\<close> on the journal, with the line feed after it.\<close>

definition json_reads_back :: "(journal \<Rightarrow> string option) \<Rightarrow> (string \<Rightarrow> journal option) \<Rightarrow> bool" where
  "json_reads_back to_json of_json \<longleftrightarrow> (\<forall>j s. to_json j = Some s \<longrightarrow> of_json (s @ [CHR 0x0A]) = Some j)"

lemma sys_Ok:
  assumes "sys f w = (Ok a, w')"
  shows "\<exists>ss. f (w\<lparr>w_sched := ss\<rparr>) = (Ok a, w')"
proof -
  have same: "w\<lparr>w_sched := w_sched w\<rparr> = w" by simp
  show ?thesis
  proof (cases "w_sched w")
    case Nil
    then have "f w = (Ok a, w')" using assms by (simp add: sys_def)
    then show ?thesis by (intro exI [of _ "w_sched w"]) (simp only: same)
  qed (use assms in \<open>auto simp: sys_def split: fault.splits\<close>)
qed

lemma ctx_Ok: "ctx s m w = (Ok a, w') \<longleftrightarrow> m w = (Ok a, w')"
  by (auto simp: ctx_def rctx_def split: prod.splits res.splits)

lemma or_remove_Ok: "or_remove tmp m w = (Ok a, w') \<Longrightarrow> m w = (Ok a, w')"
  by (auto simp: or_remove_def bnd_def attempt_def ret_def fail_def split: prod.splits res.splits sum.splits)

lemma file_calls_Ok:
  "create_new p md w = (Ok u, w') \<Longrightarrow> fs_get (w_vis w') p = Some (File [] md False)"
  "write_all p data w = (Ok u, w') \<Longrightarrow> fs_get (w_vis w) p = Some (File d m s) \<Longrightarrow>
    fs_get (w_vis w') p = Some (File (d @ data) m False)"
  "sync_file p w = (Ok u, w') \<Longrightarrow> fs_get (w_vis w) p = Some (File d m s) \<Longrightarrow>
    fs_get (w_vis w') p = Some (File d m True)"
  "rename_file p q w = (Ok u, w') \<Longrightarrow> fs_get (w_vis w) p = Some (File d m s) \<Longrightarrow>
    fs_get (w_vis w') q = Some (File d m s)"
  "open_dir p w = (Ok u, w') \<Longrightarrow> w_vis w' = w_vis w"
  "sync_dir p w = (Ok u, w') \<Longrightarrow> w_vis w' = w_vis w"
  unfolding create_new_def write_all_def sync_file_def rename_file_def open_dir_def sync_dir_def
  by (auto dest!: sys_Ok split: option.splits node.splits if_splits)

lemma write_journal_Ok:
  assumes "write_journal to_json path j w = (Ok u, w')"
  shows "\<exists>s m b. to_json j = Some s \<and> fs_get (w_vis w') path = Some (File (s @ [CHR 0x0A]) m b)"
proof -
  obtain tmp s v where json: "to_json j = Some s"
    and run: "bnd (ctx ''create journal temp'' (create_new tmp 438)) (\<lambda>_.
       bnd (ctx ''write journal'' (write_all tmp s)) (\<lambda>_.
       bnd (ctx ''finish journal'' (write_all tmp [CHR 0x0A])) (\<lambda>_.
       bnd (ctx ''fsync journal'' (sync_file tmp)) (\<lambda>_.
       bnd (ctx ''rename journal'' (rename_file tmp path)) (\<lambda>_.
       bnd (open_dir (the (parent_of path))) (\<lambda>_.
       ctx ''fsync journal directory'' (sync_dir (the (parent_of path))))))))) v = (Ok u, w')"
    using assms unfolding write_journal_def Let_def
    by (elim bnd_OkE) (auto dest!: or_remove_Ok lift_some_Ok)
  obtain v1 v2 v3 v4 v5 v6 where steps:
    "create_new tmp 438 v = (Ok (), v1)" "write_all tmp s v1 = (Ok (), v2)"
    "write_all tmp [CHR 0x0A] v2 = (Ok (), v3)" "sync_file tmp v3 = (Ok (), v4)"
    "rename_file tmp path v4 = (Ok (), v5)" "open_dir (the (parent_of path)) v5 = (Ok (), v6)"
    "sync_dir (the (parent_of path)) v6 = (Ok u, w')"
    using run unfolding ctx_Ok by (elim bnd_OkE) (simp add: ctx_Ok)
  have "fs_get (w_vis v5) path = Some (File (s @ [CHR 0x0A]) 438 True)"
    using file_calls_Ok(2) [OF steps(2) file_calls_Ok(1) [OF steps(1)]] steps
    by (auto dest: file_calls_Ok(2-4))
  then show ?thesis using json file_calls_Ok(5,6) steps(6,7) by metis
qed

lemma read_journal_Ok:
  assumes "read_journal of_json path w = (Ok j, w')" and "fs_get (w_vis w) path = Some (File t m s)"
  shows "of_json t = Some j"
proof -
  obtain a v where a: "fs_read path w = (Ok a, v)" and "of_json a = Some j"
    using assms(1) unfolding read_journal_def
    by (elim bnd_OkE) (auto simp: ctx_Ok ret_def dest!: lift_some_Ok)
  moreover have "a = t" using sys_Ok [OF a [unfolded fs_read_def]] assms(2) by (auto simp: read_result_def look_File)
  ultimately show ?thesis by simp
qed

lemma keeps_write_read:
  assumes "json_reads_back to_json of_json" "keeps (logs P) (f j)"
  shows "keeps (logs P) (bnd (write_journal to_json path j) (\<lambda>_. bnd (read_journal of_json path) f))"
  unfolding keeps_def wp_iff
proof (intro allI impI)
  fix w r w'
  assume run: "bnd (write_journal to_json path j) (\<lambda>_. bnd (read_journal of_json path) f) w = (r, w')"
  obtain x v where x: "write_journal to_json path j w = (x, v)" by (cases "write_journal to_json path j w")
  note first = keepsD [OF logs_files [OF keeps_write_journal] x]
  show "logs P w w'"
  proof (cases x)
    case (Ok u)
    obtain s m b where s: "to_json j = Some s" "fs_get (w_vis v) path = Some (File (s @ [CHR 0x0A]) m b)"
      using write_journal_Ok x Ok by blast
    have same: "j' = j" if "read_journal of_json path v = (Ok j', v')" for j' v'
      using read_journal_Ok [OF that s(2)] assms(1) s(1) by (simp add: json_reads_back_def)
    obtain y v' where y: "read_journal of_json path v = (y, v')" by (cases "read_journal of_json path v")
    note second = keepsD [OF logs_reading [OF keeps_read_journal] y]
    have rest: "bnd (read_journal of_json path) f v = (r, w')" using run x Ok by (simp add: bnd_def)
    have "logs P v' w'"
    proof (cases y)
      case (Ok j')
      then have "f j v' = (r, w')" using rest y same by (simp add: bnd_def)
      then show ?thesis by (rule keepsD [OF assms(2)])
    qed (use rest y in \<open>auto simp: bnd_def intro: logging.refl\<close>)
    then show ?thesis using first second logs_trans by blast
  qed (use run x first in \<open>auto simp: bnd_def\<close>)
qed

lemma logs_test_resume:
  assumes "json_reads_back to_json of_json"
  shows "keeps (logs (vault_command dir loop_dev)) (test_resume to_json of_json dir loop_dev)"
proof -
  have "operand [''luksHeaderRestore'', a, d, b, c] = Some d" for a b c d by (simp add: operand_def)
  then show ?thesis
    unfolding test_resume_def Let_def
    by (intro keeps_write_read [OF assms] logging.keeps_bnd logs_transaction logs_slots logs_opens logs_not_exists
        logs_ok_cryptsetup logs_steps)
qed

section \<open>A whole run\<close>

definition is_root :: "'x world \<Rightarrow> bool" where
  "is_root w \<longleftrightarrow> (\<exists>t. read_result (w_vis w) (components ''/proc/self/status'') = Ok t \<and> status_uid t = Some ''0'')"

definition test_command :: "'x exec \<Rightarrow> string \<Rightarrow> string \<Rightarrow> string \<times> string list \<times> string \<Rightarrow> bool" where
  "test_command ex dir loop_dev e \<longleftrightarrow> setup_command dir e \<or> attached ex dir loop_dev \<and> vault_command dir loop_dev e"

lemma keeps_erase_root: "keeps only_sched erase_require_root"
  unfolding erase_require_root_def Let_def by (intro reading.keeps_bnd reading.keeps_basic)

lemma require_root_Ok:
  assumes "erase_require_root w = (Ok u, v)"
  shows "is_root w"
proof -
  obtain r v' where r: "attempt (read_to_string (components ''/proc/self/status'')) w = (Ok r, v')"
    and uid: "(case r of Inl _ \<Rightarrow> ''1'' | Inr t \<Rightarrow> case status_uid t of None \<Rightarrow> ''1'' | Some u \<Rightarrow> u) = ''0''"
    using assms unfolding erase_require_root_def by (elim bnd_OkE) (auto simp: Let_def require_Ok)
  then obtain t where t: "r = Inr t" "status_uid t = Some ''0''" by (auto split: sum.splits option.splits)
  have "read_to_string (components ''/proc/self/status'') w = (Ok t, v')"
    using r t(1) by (auto simp: attempt_def split: prod.splits res.splits)
  then have "read_result (w_vis w) (components ''/proc/self/status'') = Ok t"
    unfolding read_to_string_def by (auto dest!: sys_Ok simp: ok_inv split: if_splits)
  with t(2) show ?thesis unfolding is_root_def by blast
qed

lemma have_bin_pid: "have_bin bin w = (r, v) \<Longrightarrow> w_pid v = w_pid w"
proof -
  have "wp (have_bin bin) (\<lambda>_ v. w_pid v = w_pid w) w"
    unfolding have_bin_def wp_bnd by (rule wp_run_cmd) (simp_all add: wp_rules)
  then show "have_bin bin w = (r, v) \<Longrightarrow> w_pid v = w_pid w" by (rule wpD)
qed

lemma tools_pid: "and_then (have_bin a) (have_bin b) w = (r, v) \<Longrightarrow> w_pid v = w_pid w"
  by (auto simp: and_then_def bnd_def ret_def split: prod.splits res.splits if_splits dest!: have_bin_pid)

lemma run_cmd_Exited:
  assumes "run_cmd prog args inp w = (Ok (Exited ok out), v)"
  shows "\<exists>s s'. w_exec w prog args inp s = (Exited ok out, s')"
proof -
  have "wp (run_cmd prog args inp)
      (\<lambda>r _. r = Ok (Exited ok out) \<longrightarrow> (\<exists>s s'. w_exec w prog args inp s = (Exited ok out, s'))) w"
    by (rule wp_run_cmd) (simp, simp, blast)
  from wpD [OF this assms] show ?thesis by blast
qed

lemma make_loop_Ok:
  assumes "make_loop dir w = (Ok loop_dev, v)"
  shows "attached (w_exec w) dir loop_dev"
proof -
  obtain bin args v1 v2 ok out where first: "run_ok bin args w = (Ok (), v1)"
    and second: "run_cmd ''losetup'' [''-f'', ''--show'', dir @ ''/vault.img''] [] v1 = (Ok (Exited ok out), v2)"
    and dev: "loop_dev = trim (from_utf8_lossy out)" "loop_dev \<noteq> []"
    using assms unfolding make_loop_def
    by (elim bnd_OkE) (auto simp: Let_def fail_def bail_def ret_def split: cmd.splits if_splits)
  have "w_exec v1 = w_exec w" using keepsD [OF logs_run_ok first, of "\<lambda>_. True"] by (simp add: logs_def)
  then show ?thesis using run_cmd_Exited [OF second] dev unfolding attached_def by metis
qed

lemma logs_cleanup:
  assumes "keeps (logs P) m" "\<And>l. loop_dev = Some l \<Longrightarrow> P (''losetup'', [''-d'', l], [])"
  shows "keeps (logs P) (with_cleanup dir loop_dev m)"
  unfolding with_cleanup_def
  by (intro logging.keeps_bnd logging.keeps_attempt assms(1) logs_steps)
    (auto intro!: logging.keeps_bnd logs_run_cmd assms(2) logs_steps split: option.splits sum.splits)

lemma keeps_logs_mono: "keeps (logs P) m \<Longrightarrow> (\<And>e. P e \<Longrightarrow> Q e) \<Longrightarrow> keeps (logs Q) m"
  by (erule keeps_weaken) (erule logs_mono)

lemma logs_vault:
  assumes "json_reads_back to_json of_json" "attached ex dir loop_dev"
  shows "keeps (logs (test_command ex dir loop_dev))
    (with_cleanup dir (Some loop_dev) (test_vault to_json of_json dir loop_dev))"
proof -
  have "keeps (logs (vault_command dir loop_dev)) (test_vault to_json of_json dir loop_dev)"
    unfolding test_vault_def
    by (intro logging.keeps_bnd logs_test_backups logs_test_kill logs_test_resume [OF assms(1)] logs_steps)
  then have "keeps (logs (vault_command dir loop_dev))
      (with_cleanup dir (Some loop_dev) (test_vault to_json of_json dir loop_dev))"
    by (rule logs_cleanup) (simp add: vault_command_def)
  then show ?thesis by (rule keeps_logs_mono) (simp add: test_command_def assms(2))
qed

lemma wp_self_test:
  fixes w :: "'x world"
  assumes json: "json_reads_back to_json of_json"
  shows "wp (erase_self_test to_json of_json)
    (\<lambda>_ w'. \<exists>loop_dev. logs (test_command (w_exec w) (erase_selftest_dir w) loop_dev) w w') w" (is "wp _ ?Q w")
proof -
  let ?dir = "erase_selftest_dir w"
  let ?R = "logs (setup_command ?dir) :: 'x world \<Rightarrow> 'x world \<Rightarrow> bool"
  have fin: "?Q r v" if "?R w v" for v and r :: "unit res"
    using logs_mono [OF that] by (auto simp: test_command_def)
  note step = logging.wp_bnd_step [of "setup_command ?dir" w _ _ _ ?Q]
  have tools: "keeps ?R (and_then (have_bin a) (have_bin b))" for a b
    by (intro logs_and_then logs_have) (auto simp: setup_command_def)
  have loop: "keeps ?R (attempt (make_loop ?dir))" by (rule logging.keeps_attempt [OF logs_make_loop])
  have vault: "wp (case r of Inl e \<Rightarrow> with_cleanup ?dir None (fail e)
      | Inr loop_dev \<Rightarrow> with_cleanup ?dir (Some loop_dev) (test_vault to_json of_json ?dir loop_dev)) ?Q v'"
    if "?R w v" "attempt (make_loop ?dir) v = (Ok r, v')" "?R w v'" for r v v'
  proof (cases r)
    case (Inl e)
    have "keeps ?R (with_cleanup ?dir None (fail e))" by (rule logs_cleanup) (simp_all add: logging.keeps_basic)
    then have "wp (with_cleanup ?dir None (fail e)) (\<lambda>_ u. ?R v' u) v'" unfolding keeps_def by blast
    then show ?thesis unfolding Inl sum.case by (rule wp_mono) (rule fin [OF logs_trans [OF that(3)]])
  next
    case (Inr loop_dev)
    have "make_loop ?dir v = (Ok loop_dev, v')" using that(2) Inr by (auto simp: attempt_def split: prod.splits res.splits)
    then have att: "attached (w_exec w) ?dir loop_dev" using make_loop_Ok that(1) by (fastforce simp: logs_def)
    let ?S = "logs (test_command (w_exec w) ?dir loop_dev) :: 'x world \<Rightarrow> 'x world \<Rightarrow> bool"
    have "?S w v'" by (rule logs_mono [OF that(3)]) (simp add: test_command_def)
    moreover have "wp (with_cleanup ?dir (Some loop_dev) (test_vault to_json of_json ?dir loop_dev)) (\<lambda>_. ?S v') v'"
      using logs_vault [OF json att] unfolding keeps_def by blast
    ultimately show ?thesis unfolding Inr sum.case by (elim wp_mono) (use logs_trans in blast)
  qed
  have files: "wp (bnd (create_dir_all (components ?dir)) (\<lambda>_.
      bnd (fs_write (components (?dir @ ''/k0'')) ''daily-key'') (\<lambda>_.
      bnd (fs_write (components (?dir @ ''/k1'')) ''recovery-key'') (\<lambda>_.
      bnd (attempt (make_loop ?dir)) (\<lambda>r. case r of Inl e \<Rightarrow> with_cleanup ?dir None (fail e)
      | Inr loop_dev \<Rightarrow> with_cleanup ?dir (Some loop_dev) (test_vault to_json of_json ?dir loop_dev)))))) ?Q v"
    if v: "?R w v" for v
    by (intro step [OF v] step logs_steps loop fin vault; assumption)
  have rest: "wp (bnd (require t ''need cryptsetup + losetup'') (\<lambda>_. bnd (ask erase_selftest_dir) (\<lambda>dir.
      bnd (create_dir_all (components dir)) (\<lambda>_.
      bnd (fs_write (components (dir @ ''/k0'')) ''daily-key'') (\<lambda>_.
      bnd (fs_write (components (dir @ ''/k1'')) ''recovery-key'') (\<lambda>_.
      bnd (attempt (make_loop dir)) (\<lambda>r. case r of Inl e \<Rightarrow> with_cleanup dir None (fail e)
      | Inr loop_dev \<Rightarrow> with_cleanup dir (Some loop_dev) (test_vault to_json of_json dir loop_dev)))))))) ?Q v"
    if "?R w v" "w_pid v = w_pid w" for t v
  proof -
    have dir: "erase_selftest_dir v = ?dir" using that(2) by (simp add: erase_selftest_dir_def)
    show ?thesis by (intro wp_bnd_require wp_bnd_ask, unfold dir) (rule files [OF that(1)], rule fin [OF that(1)])
  qed
  show ?thesis
    unfolding erase_self_test_def
  proof (rule step [OF logging.refl])
    show "keeps ?R (ctx ''self-test needs root (device-mapper)'' erase_require_root)"
      by (intro logging.keeps_ctx logs_reading keeps_erase_root)
    fix u v
    assume "ctx ''self-test needs root (device-mapper)'' erase_require_root w = (Ok u, v)" and v: "?R w v"
    then have pid: "w_pid v = w_pid w"
      using keepsD [OF keeps_erase_root] by (fastforce simp: ctx_Ok only_sched_def)
    show "wp (bnd (and_then (have_bin ''cryptsetup'') (have_bin ''losetup'')) (\<lambda>t.
      bnd (require t ''need cryptsetup + losetup'') (\<lambda>_. bnd (ask erase_selftest_dir) (\<lambda>dir.
      bnd (create_dir_all (components dir)) (\<lambda>_.
      bnd (fs_write (components (dir @ ''/k0'')) ''daily-key'') (\<lambda>_.
      bnd (fs_write (components (dir @ ''/k1'')) ''recovery-key'') (\<lambda>_.
      bnd (attempt (make_loop dir)) (\<lambda>r. case r of Inl e \<Rightarrow> with_cleanup dir None (fail e)
      | Inr loop_dev \<Rightarrow> with_cleanup dir (Some loop_dev) (test_vault to_json of_json dir loop_dev))))))))) ?Q v"
      by (rule step [OF v tools rest fin fin]) (auto dest!: tools_pid simp: pid)
  qed (rule fin, assumption)+
qed

lemma wp_not_root:
  assumes "\<not> is_root w"
  shows "wp (bnd (ctx s erase_require_root) f) (\<lambda>_. only_sched w) w"
proof -
  obtain r v where r: "erase_require_root w = (r, v)" by (cases "erase_require_root w")
  then have "r \<noteq> Ok u" for u using require_root_Ok assms by blast
  then show ?thesis using keepsD [OF keeps_erase_root r] r by (cases r) (auto simp: wp_def bnd_def ctx_def)
qed

text \<open>
  C31. What \<open>ds-erase --self-test\<close> can touch, whatever system call or command fails and wherever the power
  is cut: every command it runs looks for a tool, makes the image of the test and attaches it, or acts on
  the one loop device that \<open>losetup\<close> printed for that image (the only device any \<open>cryptsetup\<close> command
  names, the destruction of all keyslots included), or shreds a file below the directory of the test. It
  never powers the machine off. Without root it runs no command and changes nothing.
\<close>

theorem self_test_contained:
  assumes "json_reads_back to_json of_json"
    and run: "erase_program to_json of_json (''--self-test'' # args) w = (r, w')"
  shows "(\<exists>loop_dev new. w_log w' = w_log w @ new \<and>
      (\<forall>e\<in>set new. test_command (w_exec w) (erase_selftest_dir w) loop_dev e)) \<and>
    (is_root w \<or> w_log w' = w_log w \<and> w_vis w' = w_vis w \<and> w_dur w' = w_dur w \<and> w_ext w' = w_ext w)"
proof -
  have reduce: "wp (erase_program to_json of_json (''--self-test'' # args)) (\<lambda>_. R) w"
    if "R w" "wp (erase_self_test to_json of_json) (\<lambda>_. R) w" for R
    using that by (auto simp: erase_program_def erase_main_def erase_run_def wp_iff bnd_def attempt_def ret_def ask_def
        bail_def fail_def split: prod.splits res.splits)
  have "wp (erase_program to_json of_json (''--self-test'' # args))
      (\<lambda>_ w'. \<exists>loop_dev. logs (test_command (w_exec w) (erase_selftest_dir w) loop_dev) w w') w"
    by (rule reduce [OF _ wp_self_test [OF assms(1)]]) (auto intro: logging.refl)
  from wpD [OF this run] have "\<exists>loop_dev new. w_log w' = w_log w @ new \<and>
      (\<forall>e\<in>set new. test_command (w_exec w) (erase_selftest_dir w) loop_dev e)"
    by (auto simp: logs_def)
  moreover have "only_sched w w'" if "\<not> is_root w"
  proof -
    have "wp (erase_self_test to_json of_json) (\<lambda>_. only_sched w) w"
      unfolding erase_self_test_def by (rule wp_not_root [OF that])
    from wpD [OF reduce [OF reading.refl this] run] show ?thesis .
  qed
  ultimately show ?thesis by (auto simp: only_sched_def)
qed

text \<open>A machine on which the test runs as root and every command works.\<close>

definition test_machine :: "unit world" where
  "test_machine =
    machine [([''/''], Dir 493), ([''/'', ''tmp''], Dir 511), ([''/'', ''proc'', ''self'', ''status''], File ''Uid: 0 0 0 0'' 292 True)] ()
      \<lparr>w_exec := \<lambda>prog args inp s. (Exited True (if prog = ''losetup'' then ''/dev/loop0'' else []), s)\<rparr>"

text \<open>A JSON form of the two journals that this run writes.\<close>

definition written :: "phase \<Rightarrow> journal" where
  "written ph = test_journal (erase_selftest_dir test_machine) ''/dev/loop0'' \<lparr>j_phase := ph\<rparr>"

definition test_json :: "journal \<Rightarrow> string option" where
  "test_json j =
    (if j = written BackupsHandled then Some ''1'' else if j = written KeyslotsDestroyed then Some ''2'' else None)"

definition json_test :: "string \<Rightarrow> journal option" where
  "json_test s =
    (if s = ''1\<newline>'' then Some (written BackupsHandled) else if s = ''2\<newline>'' then Some (written KeyslotsDestroyed) else None)"

theorem self_test_contained_witness:
  "\<exists>r w'. erase_program test_json json_test [''--self-test''] test_machine = (r, w') \<and>
    (\<forall>e\<in>set (w_log w'). fst e \<in> {''sh'', ''dd'', ''losetup'', ''cryptsetup'', ''shred''})"
proof -
  obtain r w' where run: "erase_program test_json json_test [''--self-test''] test_machine = (r, w')" by (metis surj_pair)
  have "json_reads_back test_json json_test" by (auto simp: json_reads_back_def test_json_def json_test_def)
  from self_test_contained [OF this run] obtain dev new where "w_log w' = w_log test_machine @ new"
    "\<forall>e\<in>set new. test_command (w_exec test_machine) (erase_selftest_dir test_machine) dev e" by blast
  moreover have "w_log test_machine = []" by (simp add: test_machine_def)
  ultimately have "fst e \<in> {''sh'', ''dd'', ''losetup'', ''cryptsetup'', ''shred''}" if "e \<in> set (w_log w')" for e
    using that by (auto simp: test_command_def setup_command_def vault_command_def)
  then show ?thesis using run by blast
qed

end
