(* ===== verification/Pam.thy ===== *)
theory Pam
  imports Counters Policy
begin

text \<open>
  \<open>pam_ds\<close>, the PAM module: the duress check that runs first, the count of wrong passwords with its
  escalation, and the reset after a right one. What PAM hands over as the authentication token is an
  argument (\<open>None\<close> when there is none to be had); the exported C symbols are those of a library. The
  erase actor is started without waiting for it.
\<close>

section \<open>The module\<close>

datatype pam_error = PAM_IGNORE | PAM_AUTH_ERR

definition test_u32 :: "string \<Rightarrow> u32 \<Rightarrow> ('x, u32) io" where
  "test_u32 k d =
    ask (\<lambda>w. if test_mode w
      then (case w_env w k of Some v \<Rightarrow> (case parse_word v of Some n \<Rightarrow> n | None \<Rightarrow> d) | None \<Rightarrow> d) else d)"

definition test_u64 :: "string \<Rightarrow> u64 \<Rightarrow> ('x, u64) io" where
  "test_u64 k d =
    ask (\<lambda>w. if test_mode w
      then (case w_env w k of Some v \<Rightarrow> (case parse_word v of Some n \<Rightarrow> n | None \<Rightarrow> d) | None \<Rightarrow> d) else d)"

definition pam_lockout_at :: "('x, u32) io" where
  "pam_lockout_at = test_u32 ''DS_LOCKOUT_AT'' DEFAULT_LOCKOUT_AT"

definition pam_wipe_at :: "('x, u32) io" where
  "pam_wipe_at = test_u32 ''DS_WIPE_AT'' DEFAULT_WIPE_AT"

definition pam_armed :: "('x, bool) io" where
  "pam_armed = bnd (path_exists (components ARMED_MARKER)) (\<lambda>there. if there then ret True else ask test_mode)"

definition pam_fire :: "('x, unit) io" where
  "pam_fire =
    bnd (ask (\<lambda>w. if test_mode w then w_env w ''DS_FIRE_CMD'' else None)) (\<lambda>cmd.
    case cmd of
      Some c \<Rightarrow>
        (case split_whitespace c of
           [] \<Rightarrow> ret ()
         | prog # parts \<Rightarrow> bnd (attempt (spawn_cmd prog parts)) (\<lambda>_. ret ()))
    | None \<Rightarrow> bnd (attempt (spawn_cmd (LIB_DIR @ ''/ds-erase'') [''--fire''])) (\<lambda>_. ret ()))"

definition on_authfail :: "('x, pam_error) io" where
  "on_authfail =
    bnd (attempt record_failure) (\<lambda>r.
    case r of
      Inl _ \<Rightarrow> ret PAM_AUTH_ERR
    | Inr count \<Rightarrow>
        bnd pam_wipe_at (\<lambda>wipe.
        bnd (if should_wipe count wipe then pam_fire
             else
               bnd pam_lockout_at (\<lambda>lockout.
               if crossed_lockout count lockout then
                 bnd (test_u64 ''DS_LOCKOUT_DELAY'' 10) (\<lambda>delay.
                 if delay > 0 then sleep_secs delay else ret ())
               else ret ())) (\<lambda>_.
        ret PAM_AUTH_ERR)))"

definition preauth_and_duress :: "string option \<Rightarrow> ('x, pam_error) io" where
  "preauth_and_duress authtok =
    bnd (ask duress_hash_path) (\<lambda>path.
    bnd (attempt (read_to_string path)) (\<lambda>r.
    case r of
      Inl _ \<Rightarrow> ret PAM_AUTH_ERR
    | Inr stored \<Rightarrow>
        (case parse_verifier stored of
           Ok verifier \<Rightarrow>
             (case authtok of
                None \<Rightarrow> ret PAM_AUTH_ERR
              | Some t \<Rightarrow>
                  bnd (ask w_kdf) (\<lambda>kdf.
                  case verify kdf verifier t of
                    Ok True \<Rightarrow> bnd pam_fire (\<lambda>_. ret PAM_AUTH_ERR)
                  | Ok False \<Rightarrow> ret PAM_IGNORE
                  | _ \<Rightarrow> ret PAM_AUTH_ERR))
         | _ \<Rightarrow> ret PAM_AUTH_ERR)))"

definition authenticate :: "string list \<Rightarrow> string option \<Rightarrow> ('x, pam_error) io" where
  "authenticate args authtok =
    bnd pam_armed (\<lambda>armed.
    if \<not> armed then ret PAM_IGNORE
    else if args \<noteq> [] \<and> hd args = ''authfail'' then on_authfail
    else if args \<noteq> [] \<and> hd args = ''authsucc'' then
      bnd (attempt reset_attempts) (\<lambda>r. ret (case r of Inr _ \<Rightarrow> PAM_IGNORE | Inl _ \<Rightarrow> PAM_AUTH_ERR))
    else preauth_and_duress authtok)"

definition setcred :: "('x, pam_error) io" where
  "setcred = ret PAM_IGNORE"

section \<open>The abstract guard\<close>

text \<open>
  What the module promises, without files: a count of wrong passwords in a row, the actors started, and
  the time. The answers of the module follow from the event alone.
\<close>

datatype pam_event = WrongPassword | RightPassword

record guard_state =
  g_failures :: nat
  g_fired :: "(string \<times> string list) list"
  g_clock :: u64

definition erase_actor :: "string \<times> string list" where
  "erase_actor = (LIB_DIR @ ''/ds-erase'', [''--fire''])"

fun guard_step :: "pam_event \<Rightarrow> guard_state \<Rightarrow> guard_state" where
  "guard_step RightPassword g = g\<lparr>g_failures := 0\<rparr>"
| "guard_step WrongPassword g =
    (let n = min (g_failures g + 1) (2 ^ 32 - 1) in
     if n \<ge> 5 then g\<lparr>g_failures := n, g_fired := g_fired g @ [erase_actor]\<rparr>
     else if n \<ge> 3 then g\<lparr>g_failures := n, g_clock := g_clock g + 10\<rparr>
     else g\<lparr>g_failures := n\<rparr>)"

fun answer :: "pam_event \<Rightarrow> pam_error" where
  "answer WrongPassword = PAM_AUTH_ERR"
| "answer RightPassword = PAM_IGNORE"

text \<open>The concrete side: what PAM calls, and how a machine is read as a guard.\<close>

fun pam_call :: "pam_event \<Rightarrow> ('x, pam_error) io" where
  "pam_call WrongPassword = authenticate [''authfail''] None"
| "pam_call RightPassword = authenticate [''authsucc''] None"

fun pam_calls :: "pam_event list \<Rightarrow> ('x, pam_error list) io" where
  "pam_calls [] = ret []"
| "pam_calls (e # es) = bnd (pam_call e) (\<lambda>a. bnd (pam_calls es) (\<lambda>as. ret (a # as)))"

definition failures_in :: "node option \<Rightarrow> nat" where
  "failures_in x =
    (case x of Some (File d m s) \<Rightarrow> (case parse_attempts d of Ok a \<Rightarrow> unat (at_count a) | _ \<Rightarrow> 0) | _ \<Rightarrow> 0)"

definition guard_of :: "'x world \<Rightarrow> guard_state" where
  "guard_of w = \<lparr>g_failures = failures_in (attempts_entry w), g_fired = w_spawned w, g_clock = w_clock w\<rparr>"

definition pam_ready :: "'x world \<Rightarrow> bool" where
  "pam_ready w \<longleftrightarrow> counting_ready w \<and> (\<exists>a. entry_says (attempts_entry w) a) \<and>
    fs_get (w_vis w) (components ARMED_MARKER) = Some (File ''armed=1\<newline>'' 384 True)"

lemma failures_says: "entry_says x a \<Longrightarrow> failures_in x = unat (at_count a)"
  by (auto simp: entry_says_def failures_in_def no_attempts_def attempts_file.dec_enc)


section \<open>Without faults\<close>

lemma ready_simps:
  "pam_ready w \<Longrightarrow> w_sched w = []" "pam_ready w \<Longrightarrow> \<not> w_debug w" "pam_ready w \<Longrightarrow> counting_ready w"
  by (simp_all add: pam_ready_def counting_ready_def)

lemma release_simps:
  assumes "\<not> w_debug w"
  shows "wp pam_wipe_at Q w \<longleftrightarrow> Q (Ok 5) w" "wp pam_lockout_at Q w \<longleftrightarrow> Q (Ok 3) w"
    "wp (test_u64 k d) R w \<longleftrightarrow> R (Ok d) w"
  using assms
  by (simp_all add: pam_wipe_at_def pam_lockout_at_def test_u32_def test_u64_def wp_rules test_mode_def
      DEFAULT_WIPE_AT_def DEFAULT_LOCKOUT_AT_def)

lemma wp_sleep [wp_rules]: "wp (sleep_secs n) Q w \<longleftrightarrow> Q (Ok ()) (w\<lparr>w_clock := w_clock w + n\<rparr>)"
  by (simp add: wp_def sleep_secs_def)

lemma wp_pam_armed_calm:
  "w_sched w = [] \<Longrightarrow> \<not> w_debug w \<Longrightarrow>
    wp pam_armed Q w \<longleftrightarrow> Q (Ok (look (w_vis w) (components ARMED_MARKER) \<noteq> None)) w"
  by (simp add: pam_armed_def wp_rules path_exists_def calm test_mode_def)

lemma wp_pam_fire_calm:
  "w_sched w = [] \<Longrightarrow> \<not> w_debug w \<Longrightarrow>
    wp pam_fire Q w \<longleftrightarrow> Q (Ok ()) (w\<lparr>w_spawned := w_spawned w @ [erase_actor]\<rparr>)"
  by (simp add: pam_fire_def wp_rules test_mode_def spawn_cmd_def calm erase_actor_def)

lemma ready_kept:
  assumes "pam_ready w" "same_env w w'" "counting_ready w'" "others_kept w w'"
    and "entry_says (attempts_entry w') a"
  shows "pam_ready w'"
proof -
  have "components ARMED_MARKER \<noteq> components (STATE_DIR @ ''/attempts'')"
    by (simp add: components_def ARMED_MARKER_def STATE_DIR_def)
  with assms show ?thesis by (auto simp: pam_ready_def others_kept_def)
qed

lemma ready_upd [simp]:
  "pam_ready (w\<lparr>w_spawned := x\<rparr>) = pam_ready w" "pam_ready (w\<lparr>w_clock := c\<rparr>) = pam_ready w"
  by (simp_all add: pam_ready_def counting_ready_def attempts_entry_def)

lemma word_at_least:
  "(n :: u32) \<ge> 5 \<longleftrightarrow> unat n \<ge> 5" "(n :: u32) \<ge> 3 \<longleftrightarrow> unat n \<ge> 3"
  by (simp_all add: word_le_nat_alt)

lemma attempts_entry_upd [simp]:
  "attempts_entry (w\<lparr>w_spawned := x\<rparr>) = attempts_entry w" "attempts_entry (w\<lparr>w_clock := c\<rparr>) = attempts_entry w"
  by (simp_all add: attempts_entry_def)

lemma wp_on_authfail_calm:
  assumes "pam_ready w"
  shows "wp on_authfail (\<lambda>r w'. r = Ok PAM_AUTH_ERR \<and> pam_ready w' \<and>
    guard_of w' = guard_step WrongPassword (guard_of w)) w"
proof -
  obtain a where says: "entry_says (attempts_entry w) a" using assms by (auto simp: pam_ready_def)
  define b where "b = \<lparr>at_count = sat_inc (at_count a), at_last = w_clock w\<rparr>"
  have n: "min (failures_in (attempts_entry w) + 1) (2 ^ 32 - 1) = unat (at_count b)"
    by (simp add: failures_says [OF says] unat_sat_inc b_def)
  have step: "guard_step WrongPassword (guard_of w) =
      (if unat (at_count b) \<ge> 5 then (guard_of w)\<lparr>g_failures := unat (at_count b), g_fired := w_spawned w @ [erase_actor]\<rparr>
       else if unat (at_count b) \<ge> 3 then (guard_of w)\<lparr>g_failures := unat (at_count b), g_clock := w_clock w + 10\<rparr>
       else (guard_of w)\<lparr>g_failures := unat (at_count b)\<rparr>)"
    unfolding guard_step.simps Let_def by (simp only: n [symmetric]) (simp add: guard_of_def)
  have counted: "wp record_failure (\<lambda>r w'. r = Ok (at_count b) \<and> pam_ready w' \<and>
      failures_in (attempts_entry w') = unat (at_count b) \<and> w_spawned w' = w_spawned w \<and> w_clock w' = w_clock w) w"
  proof (rule wp_mono [OF wp_record_failure_calm [OF ready_simps(3) [OF assms] says, folded b_def]])
    fix r and w' :: "'a world"
    assume h: "r = Ok (at_count b) \<and> same_env w w' \<and> counting_ready w' \<and>
      attempts_entry w' = Some (File (attempts_text b) 384 True) \<and> others_kept w w'"
    then have "entry_says (attempts_entry w') b" by (auto simp: entry_says_def)
    with h ready_kept [OF assms _ _ _ this] failures_says [OF this]
    show "r = Ok (at_count b) \<and> pam_ready w' \<and> failures_in (attempts_entry w') = unat (at_count b) \<and>
        w_spawned w' = w_spawned w \<and> w_clock w' = w_clock w"
      by (auto simp: same_env_def)
  qed
  show ?thesis
    unfolding on_authfail_def wp_bnd wp_attempt step
    by (rule wp_mono [OF counted])
      (auto simp: wp_rules release_simps ready_simps wp_pam_fire_calm should_wipe_def crossed_lockout_def
        word_at_least guard_of_def)
qed

lemma wp_pam_call:
  assumes "pam_ready w"
  shows "wp (pam_call e) (\<lambda>r w'. r = Ok (answer e) \<and> pam_ready w' \<and> guard_of w' = guard_step e (guard_of w)) w"
proof -
  have armed: "look (w_vis w) (components ARMED_MARKER) \<noteq> None"
    using assms by (simp add: pam_ready_def look_File)
  obtain a where says: "entry_says (attempts_entry w) a" using assms by (auto simp: pam_ready_def)
  show ?thesis
  proof (cases e)
    case WrongPassword
    then show ?thesis
      using wp_on_authfail_calm [OF assms] armed
      by (simp add: authenticate_def wp_rules wp_pam_armed_calm ready_simps [OF assms])
  next
    case RightPassword
    have none: "entry_says None no_attempts" by (simp add: entry_says_def)
    have "wp reset_attempts (\<lambda>r w'. r = Ok () \<and> pam_ready w' \<and> guard_of w' = guard_step RightPassword (guard_of w)) w"
      by (rule wp_mono [OF wp_reset_attempts_calm [OF ready_simps(3) [OF assms] says]])
        (use ready_kept [OF assms] none in \<open>auto simp: guard_of_def same_env_def failures_in_def\<close>)
    then show ?thesis
      unfolding RightPassword pam_call.simps authenticate_def wp_bnd
      using armed
      by (simp add: wp_pam_armed_calm ready_simps [OF assms] wp_rules) (erule wp_mono, auto simp: wp_rules)
  qed
qed

lemma wp_pam_calls:
  "pam_ready w \<Longrightarrow> wp (pam_calls es) (\<lambda>r w'. r = Ok (map answer es) \<and> pam_ready w' \<and>
    guard_of w' = fold guard_step es (guard_of w)) w"
proof (induction es arbitrary: w)
  case Nil
  then show ?case by (simp add: wp_rules)
next
  case (Cons e es)
  show ?case
    unfolding pam_calls.simps
    by (rule wp_bndI [OF wp_pam_call [OF Cons.prems]], rule wp_bndI, rule Cons.IH)
      (auto simp: wp_rules)
qed


lemma guard_step_wrong:
  "g_failures (guard_step WrongPassword g) = min (g_failures g + 1) (2 ^ 32 - 1)"
  "g_fired (guard_step WrongPassword g) = g_fired g @ replicate (1 - (4 - g_failures g)) erase_actor"
  by (cases "g_failures g \<ge> 4"; simp add: Let_def)+

lemma fold_wrong:
  "g_fired (fold guard_step (replicate n WrongPassword) g) =
    g_fired g @ replicate (n - (4 - g_failures g)) erase_actor"
proof (induction n arbitrary: g)
  case (Suc n)
  have "replicate (1 - (4 - g_failures g)) erase_actor @
      replicate (n - (4 - min (g_failures g + 1) (2 ^ 32 - 1))) erase_actor =
      replicate (Suc n - (4 - g_failures g)) erase_actor"
    by (simp add: replicate_add [symmetric] min_def) arith
  with Suc.IH [of "guard_step WrongPassword g"] show ?case
    by (simp add: guard_step_wrong del: guard_step.simps)
qed simp

lemma guard_step_appends: "\<exists>new. g_fired (guard_step e g) = g_fired g @ new"
  by (cases e) (auto simp: guard_step_wrong simp del: guard_step.simps(2))

lemma fold_appends: "\<exists>new. g_fired (fold guard_step es g) = g_fired g @ new"
proof (induction es arbitrary: g)
  case (Cons e es)
  then show ?case using guard_step_appends [of e g] by (metis append_assoc fold_Cons comp_apply)
qed simp

section \<open>Properties\<close>

text \<open>An armed machine in which nobody has failed yet.\<close>

definition pam_disk :: fs where
  "pam_disk =
    state_disk @
    [([''/'', ''etc''], Dir 493), ([''/'', ''etc'', ''arxos''], Dir 493),
     ([''/'', ''etc'', ''arxos'', ''deathstroke''], Dir 493),
     (components ARMED_MARKER, File ''armed=1\<newline>'' 384 True)]"

lemma pam_disk_ready: "pam_ready (machine pam_disk ())" "guard_of (machine pam_disk ()) = \<lparr>g_failures = 0, g_fired = [], g_clock = 0\<rparr>"
proof -
  have none: "attempts_entry (machine pam_disk ()) = None"
    by (simp add: attempts_entry_def pam_disk_def state_disk_def components_def STATE_DIR_def ARMED_MARKER_def)
  show "pam_ready (machine pam_disk ())"
    unfolding pam_ready_def counting_ready_def none
    by (auto simp: pam_disk_def state_disk_def components_def STATE_DIR_def ARMED_MARKER_def temp_name_def entry_says_def)
  show "guard_of (machine pam_disk ()) = \<lparr>g_failures = 0, g_fired = [], g_clock = 0\<rparr>"
    by (simp add: guard_of_def none failures_in_def)
qed

text \<open>
  C8. The module refines the abstract guard: on an armed machine without faults, any sequence of wrong
  and right passwords gives the answers and the count, the actors started and the delays of the guard,
  whose limits are the constants 3 and 5 whatever policy was enrolled.
\<close>

theorem pam_refines_guard:
  assumes "pam_ready w"
  shows "\<exists>w'. pam_calls es w = (Ok (map answer es), w') \<and> pam_ready w' \<and>
    guard_of w' = fold guard_step es (guard_of w)"
  using wp_pam_calls [OF assms, of es] by (simp add: wp_run)

theorem pam_refines_guard_witness:
  "\<exists>w'. pam_calls [WrongPassword, WrongPassword, RightPassword, WrongPassword] (machine pam_disk ()) =
      (Ok [PAM_AUTH_ERR, PAM_AUTH_ERR, PAM_IGNORE, PAM_AUTH_ERR], w') \<and>
    guard_of w' = \<lparr>g_failures = 1, g_fired = [], g_clock = 0\<rparr>"
  using pam_refines_guard [OF pam_disk_ready(1), of "[WrongPassword, WrongPassword, RightPassword, WrongPassword]"]
  by (auto simp: pam_disk_ready(2) Let_def)

text \<open>
  C24. Wrong passwords lead to the wipe, on an armed machine, in a release build and without I/O faults:
  after any passwords, right or wrong, that have left \<open>k\<close> failures in a row, \<open>n\<close> wrong ones are all refused
  and start the erase actor \<open>n - (4 - k)\<close> times, so the fifth failure in a row is the first to start it and
  none after it fails to. Whatever came before, five wrong passwords in a row start it.
\<close>

theorem wrong_passwords_fire:
  assumes "pam_ready w" and g: "g = fold guard_step es (guard_of w)"
  shows "\<exists>w'. pam_calls (es @ replicate n WrongPassword) w = (Ok (map answer es @ replicate n PAM_AUTH_ERR), w') \<and>
    w_spawned w' = g_fired g @ replicate (n - (4 - g_failures g)) erase_actor \<and>
    (5 \<le> n \<longrightarrow> (\<exists>earlier. w_spawned w' = w_spawned w @ earlier @ [erase_actor]))"
proof -
  obtain w' where run: "pam_calls (es @ replicate n WrongPassword) w = (Ok (map answer (es @ replicate n WrongPassword)), w')"
    and w': "guard_of w' = fold guard_step (es @ replicate n WrongPassword) (guard_of w)"
    using wp_pam_calls [OF assms(1), of "es @ replicate n WrongPassword"] by (auto simp: wp_run)
  have "guard_of w' = fold guard_step (replicate n WrongPassword) g" using w' by (simp only: fold_append comp_apply g)
  then have "g_fired (guard_of w') = g_fired g @ replicate (n - (4 - g_failures g)) erase_actor" by (simp only: fold_wrong)
  then have fired: "w_spawned w' = g_fired g @ replicate (n - (4 - g_failures g)) erase_actor" by (simp add: guard_of_def)
  obtain new where new: "g_fired g = w_spawned w @ new"
    using fold_appends [of es "guard_of w"] by (auto simp: g guard_of_def)
  have "\<exists>earlier. w_spawned w' = w_spawned w @ earlier @ [erase_actor]" if "5 \<le> n"
  proof -
    have "n - (4 - g_failures g) \<noteq> 0" using that by arith
    then obtain m where "n - (4 - g_failures g) = Suc m" by (cases "n - (4 - g_failures g)") simp_all
    moreover have "replicate (Suc m) erase_actor = replicate m erase_actor @ [erase_actor]"
      by (simp add: replicate_append_same)
    ultimately show ?thesis by (intro exI [of _ "new @ replicate m erase_actor"]) (simp add: fired new del: replicate.simps)
  qed
  with run fired show ?thesis by simp
qed

theorem wrong_passwords_fire_witness:
  "\<exists>w'. pam_calls ([WrongPassword, RightPassword] @ replicate 5 WrongPassword) (machine pam_disk ()) =
      (Ok ([PAM_AUTH_ERR, PAM_IGNORE] @ replicate 5 PAM_AUTH_ERR), w') \<and>
    w_spawned w' = [(''/usr/lib/arxos/deathstroke/ds-erase'', [''--fire''])]"
  using wrong_passwords_fire [OF pam_disk_ready(1) refl, of "[WrongPassword, RightPassword]" 5]
  by (auto simp: pam_disk_ready(2) erase_actor_def LIB_DIR_def Let_def)

text \<open>The same machine with a verifier, which accepts one code.\<close>

definition duress_world :: "unit world" where
  "duress_world =
    (machine (pam_disk @ [(components (STATE_DIR @ ''/duress.hash''), File (serialize sample_hash) 384 True)]) ())
    \<lparr>w_kdf := (\<lambda>pw salt n. Some (if pw = ''panic1'' then replicate 32 255 else replicate 32 0))\<rparr>"

lemma duress_world_verifier:
  "reads_as duress_world (duress_hash_path duress_world) parse_verifier sample_hash"
  "verify (w_kdf duress_world) sample_hash t = Ok (t = ''panic1'')"
proof -
  have "duress_hash_path duress_world = components (STATE_DIR @ ''/duress.hash'')"
    by (simp add: duress_hash_path_def duress_world_def release_state_dir)
  moreover have "fs_get (w_vis duress_world) (components (STATE_DIR @ ''/duress.hash'')) =
      Some (File (serialize sample_hash) 384 True)"
    by (simp add: duress_world_def pam_disk_def state_disk_def components_def STATE_DIR_def ARMED_MARKER_def)
  ultimately show "reads_as duress_world (duress_hash_path duress_world) parse_verifier sample_hash"
    using verifier_file.dec_enc [of sample_hash] sample_hash_ok
    by (auto simp: reads_as_def look_File ascii_utf8_valid serialize_ascii)
  show "verify (w_kdf duress_world) sample_hash t = Ok (t = ''panic1'')"
    by (simp add: verify_def pbkdf2_sha256_def duress_world_def sample_hash_def validate_iterations_def
        MIN_ITERATIONS_def MAX_ITERATIONS_def)
qed

lemma duress_world_armed: "look (w_vis duress_world) (components ARMED_MARKER) = Some (File ''armed=1\<newline>'' 384 True)"
  by (rule look_File)
    (simp add: duress_world_def pam_disk_def state_disk_def components_def STATE_DIR_def ARMED_MARKER_def)

text \<open>
  C25. The duress check decides by the verifier alone: armed and without faults, a password is refused and
  the erase actor started exactly when the enrolled verifier accepts it, and every other password is left
  to the rest of the stack with nothing changed.
\<close>

theorem pam_duress_decision:
  assumes "w_sched w = []" "\<not> w_debug w" "look (w_vis w) (components ARMED_MARKER) \<noteq> None"
    and "reads_as w (duress_hash_path w) parse_verifier dh" "verify (w_kdf w) dh t = Ok duress"
    and "take 1 args \<notin> {[''authfail''], [''authsucc'']}"
  shows "authenticate args (Some t) w =
    (if duress then (Ok PAM_AUTH_ERR, w\<lparr>w_spawned := w_spawned w @ [erase_actor]\<rparr>) else (Ok PAM_IGNORE, w))"
proof -
  have mode: "\<not> (args \<noteq> [] \<and> hd args = ''authfail'')" "\<not> (args \<noteq> [] \<and> hd args = ''authsucc'')"
    using assms(6) by (cases args; simp)+
  obtain d m s where f: "look (w_vis w) (duress_hash_path w) = Some (File d m s)" "utf8_valid d" "parse_verifier d = Ok dh"
    using assms(4) by (auto simp: reads_as_def)
  let ?Q = "\<lambda>r w'. (r, w') =
    (if duress then (Ok PAM_AUTH_ERR, w\<lparr>w_spawned := w_spawned w @ [erase_actor]\<rparr>) else (Ok PAM_IGNORE, w))"
  have pre: "wp (preauth_and_duress (Some t)) ?Q w"
    using assms f
    by (cases duress)
      (simp_all add: preauth_and_duress_def wp_rules read_to_string_def calm read_result_def wp_pam_fire_calm)
  have "wp (authenticate args (Some t)) ?Q w"
    unfolding authenticate_def if_not_P [OF mode(1)] if_not_P [OF mode(2)] wp_bnd
    using pre assms(1-3) by (simp add: wp_pam_armed_calm wp_rules)
  then show ?thesis by (auto simp: wp_def split: prod.splits)
qed

theorem pam_duress_decision_witness:
  "authenticate [] (Some ''panic1'') duress_world =
      (Ok PAM_AUTH_ERR, duress_world\<lparr>w_spawned := [(''/usr/lib/arxos/deathstroke/ds-erase'', [''--fire''])]\<rparr>) \<and>
    authenticate [] (Some ''secret'') duress_world = (Ok PAM_IGNORE, duress_world)"
proof -
  have w: "w_sched duress_world = []" "\<not> w_debug duress_world" "w_spawned duress_world = []"
    by (simp_all add: duress_world_def)
  have "look (w_vis duress_world) (components ARMED_MARKER) \<noteq> None" by (simp add: duress_world_armed)
  note decide = pam_duress_decision [OF w(1,2) this duress_world_verifier]
  from decide [of "[]" "''panic1''"] decide [of "[]" "''secret''"]
  show ?thesis by (simp add: w erase_actor_def LIB_DIR_def)
qed

text \<open>
  C5. The duress code never reaches the rest of the stack: whatever fails, the module answers \<open>IGNORE\<close>
  to a password that the enrolled verifier accepts only when it did not see the armed marker, that is
  when there is none or when looking for it failed; and then it did nothing.
\<close>

theorem pam_never_admits_duress:
  assumes "\<not> w_debug w" and dh: "reads_as w (duress_hash_path w) parse_verifier dh" "verify (w_kdf w) dh t = Ok True"
    and "take 1 args \<notin> {[''authfail''], [''authsucc'']}"
    and run: "authenticate args (Some t) w = (Ok PAM_IGNORE, w')"
  shows "(look (w_vis w) (components ARMED_MARKER) = None \<or> (\<exists>ss. w_sched w = Fail # ss)) \<and> only_sched w w'"
proof -
  have mode: "\<not> (args \<noteq> [] \<and> hd args = ''authfail'')" "\<not> (args \<noteq> [] \<and> hd args = ''authsucc'')"
    using assms(4) by (cases args; simp)+
  obtain d m s where f: "look (w_vis w) (duress_hash_path w) = Some (File d m s)" "utf8_valid d" "parse_verifier d = Ok dh"
    using dh(1) by (auto simp: reads_as_def)
  have path: "duress_hash_path (w\<lparr>w_sched := ss\<rparr>) = duress_hash_path w" for ss
    by (simp add: duress_hash_path_def state_dir_def test_mode_def)
  have pre: "wp (preauth_and_duress (Some t)) (\<lambda>r w'. r \<noteq> Ok PAM_IGNORE) (w\<lparr>w_sched := ss\<rparr>)" for ss
    unfolding preauth_and_duress_def wp_bnd wp_ask then_post_simps wp_attempt path
  proof (rule wp_read_to_string, goal_cases)
    case (4 ss2 d2 m2 s2)
    have "wp (bnd pam_fire (\<lambda>_. ret PAM_AUTH_ERR)) (\<lambda>r w'. r \<noteq> Ok PAM_IGNORE) v" for v :: "'a world"
      by (rule wp_bndI [where R = "\<lambda>_ _. True"]) (simp_all add: wp_def ret_def split: prod.splits)
    with 4 f dh(2) show ?case by (simp add: wp_rules)
  qed (simp_all add: wp_rules)
  have armed: "wp pam_armed (\<lambda>r v. only_sched w v \<and>
      (r = Ok False \<longrightarrow> look (w_vis w) (components ARMED_MARKER) = None \<or> (\<exists>ss. w_sched w = Fail # ss))) w"
    using assms(1)
    by (auto simp: pam_armed_def wp_rules path_exists_def probe_def wp_def bnd_def ask_def ret_def test_mode_def
        reading.refl reading.sched split: list.split fault.split)
  have "wp (authenticate args (Some t)) (\<lambda>r v. r = Ok PAM_IGNORE \<longrightarrow> only_sched w v \<and>
      (look (w_vis w) (components ARMED_MARKER) = None \<or> (\<exists>ss. w_sched w = Fail # ss))) w"
    unfolding authenticate_def if_not_P [OF mode(1)] if_not_P [OF mode(2)]
  proof (rule wp_bndI [OF armed])
    fix a v assume h: "only_sched w v \<and>
      (Ok a = Ok False \<longrightarrow> look (w_vis w) (components ARMED_MARKER) = None \<or> (\<exists>ss. w_sched w = Fail # ss))"
    then obtain ss where v: "v = w\<lparr>w_sched := ss\<rparr>" by (auto simp: only_sched_def)
    show "wp (if \<not> a then ret PAM_IGNORE else preauth_and_duress (Some t)) (\<lambda>r v. r = Ok PAM_IGNORE \<longrightarrow>
        only_sched w v \<and> (look (w_vis w) (components ARMED_MARKER) = None \<or> (\<exists>ss. w_sched w = Fail # ss))) v"
      by (rule wp_ifI) (use h in \<open>auto simp: wp_rules v intro: wp_mono [OF pre]\<close>)
  qed simp_all
  with run show ?thesis by (simp add: wp_def)
qed

theorem pam_never_admits_duress_witness:
  "\<exists>r w'. authenticate [] (Some ''panic1'') (duress_world\<lparr>w_sched := [Go, Fail]\<rparr>) = (r, w') \<and> r \<noteq> Ok PAM_IGNORE"
proof -
  let ?w = "duress_world\<lparr>w_sched := [Go, Fail]\<rparr>"
  obtain r w' where run: "authenticate [] (Some ''panic1'') ?w = (r, w')" by (metis surj_pair)
  have path: "duress_hash_path ?w = duress_hash_path duress_world"
    by (simp add: duress_hash_path_def state_dir_def test_mode_def)
  have h: "\<not> w_debug ?w" "reads_as ?w (duress_hash_path ?w) parse_verifier sample_hash"
    "verify (w_kdf ?w) sample_hash ''panic1'' = Ok True" "take 1 [] \<notin> {[''authfail''], [''authsucc'']}"
    using duress_world_verifier(1) duress_world_verifier(2) [of "''panic1''"] unfolding path by (simp_all add: duress_world_def)
  have "r \<noteq> Ok PAM_IGNORE"
  proof
    assume "r = Ok PAM_IGNORE"
    from pam_never_admits_duress [OF h run [unfolded this]] show False by (simp add: duress_world_armed)
  qed
  with run show ?thesis by blast
qed

text \<open>
  C37. The armed marker is looked for with \<open>Path::exists\<close>, which reads an I/O error as absence: on an
  armed machine one failing system call makes the module inert, so that the duress code is passed on to
  the rest of the stack, a wrong password is not counted, and nobody is told.
\<close>

theorem pam_fails_open:
  assumes "\<not> w_debug w" "w_sched w = [Fail]"
  shows "authenticate args token w = (Ok PAM_IGNORE, w\<lparr>w_sched := []\<rparr>)"
  using assms
  by (simp add: authenticate_def pam_armed_def path_exists_def probe_def bnd_def ask_def ret_def test_mode_def)

theorem pam_fails_open_witness:
  "authenticate [''authfail''] None (duress_world\<lparr>w_sched := [Fail]\<rparr>) = (Ok PAM_IGNORE, duress_world) \<and>
    look (w_vis duress_world) (components ARMED_MARKER) \<noteq> None"
proof -
  have "\<not> w_debug (duress_world\<lparr>w_sched := [Fail]\<rparr>)" "duress_world\<lparr>w_sched := []\<rparr> = duress_world"
    by (simp_all add: duress_world_def machine_def)
  with pam_fails_open [of "duress_world\<lparr>w_sched := [Fail]\<rparr>" "[''authfail'']" None] duress_world_armed
  show ?thesis by simp
qed

end
