(* ===== verification/Hooks.thy ===== *)
theory Hooks
  imports Durable
begin

text \<open>
  How \<open>dsctl\<close> puts the \<open>deathstroke\<close> hook before \<open>encrypt\<close> in \<open>mkinitcpio.conf\<close> and takes it out
  again: the rewriting of the lines as functions on text, and the two operations on the file.
\<close>

section \<open>The rewriting\<close>

definition MKINITCPIO_CONF :: path where
  "MKINITCPIO_CONF = components ''/etc/mkinitcpio.conf''"

definition is_hooks_line :: "string \<Rightarrow> bool" where
  "is_hooks_line line \<longleftrightarrow> prefix ''HOOKS='' (trim_start line)"

text \<open>One \<open>HOOKS=\<close> line, and whether it was changed.\<close>

definition ensure_hook_line :: "string \<Rightarrow> (string \<times> bool) res" where
  "ensure_hook_line line =
    (let death = find_sub ''deathstroke'' line;
         encrypt = (case find_sub ''encrypt'' line of Some e \<Rightarrow> Some e | None \<Rightarrow> find_sub ''sd-encrypt'' line) in
     case (death, encrypt) of
       (Some d, Some e) \<Rightarrow>
         (if d > e then Err (Msg ''deathstroke hook must precede encrypt/sd-encrypt'') else Ok (line, False))
     | (None, Some e) \<Rightarrow> Ok (take e line @ ''deathstroke '' @ drop e line, True)
     | (_, None) \<Rightarrow> Err (Msg ''HOOKS has no encrypt or sd-encrypt hook''))"

text \<open>The loop over the lines: the new lines, whether one changed, whether there was a \<open>HOOKS=\<close> line.\<close>

fun ensure_hook_lines :: "string list \<Rightarrow> (string list \<times> bool \<times> bool) res" where
  "ensure_hook_lines [] = Ok ([], False, False)"
| "ensure_hook_lines (line # ls) =
    (if is_hooks_line line then
       rbind (ensure_hook_line line) (\<lambda>(l, c).
       rbind (ensure_hook_lines ls) (\<lambda>(out, changed, saw_hooks). Ok (l # out, c \<or> changed, True)))
     else rbind (ensure_hook_lines ls) (\<lambda>(out, changed, saw_hooks). Ok (line # out, changed, saw_hooks)))"

definition mode_bits :: "node \<Rightarrow> nat" where
  "mode_bits n = (case n of File d m s \<Rightarrow> m mod 4096 | Dir m \<Rightarrow> m mod 4096 | _ \<Rightarrow> 0)"

definition ensure_deathstroke_hook_before_encrypt :: "('x, unit) io" where
  "ensure_deathstroke_hook_before_encrypt =
    bnd (ctx ''read /etc/mkinitcpio.conf'' (read_to_string MKINITCPIO_CONF)) (\<lambda>original.
    bnd (lift (ensure_hook_lines (text_lines original))) (\<lambda>(out, changed, saw_hooks).
    bnd (require saw_hooks ''mkinitcpio.conf has no HOOKS line'') (\<lambda>_.
    if changed then
      bnd (metadata MKINITCPIO_CONF) (\<lambda>meta.
      atomic_write MKINITCPIO_CONF (join ''\<newline>'' out @ ''\<newline>'') (mode_bits meta))
    else ret ())))"

text \<open>The inner loop of the removal: one token after the other, while there is one.\<close>

function strip_hook :: "string \<Rightarrow> (string \<times> bool) res" where
  "strip_hook updated =
    (case find_sub ''deathstroke'' updated of
       None \<Rightarrow> Ok (updated, False)
     | Some start \<Rightarrow>
         (let before = take start updated;
              after = drop (start + length ''deathstroke'') updated;
              before_ok = (before = [] \<or> ws_len_end before > 0 \<or> last before \<in> {CHR ''('', CHR 0x22});
              after_ok = (after = [] \<or> ws_len after > 0 \<or> hd after \<in> {CHR '')'', CHR 0x22})
          in if \<not> before_ok \<or> \<not> after_ok then Err (Msg ''could not safely remove deathstroke token from HOOKS'')
             else rbind (strip_hook (before @ drop (ws_len after) after)) (\<lambda>(u, changed). Ok (u, True))))"
  by pat_completeness auto
termination
proof (relation "measure length", simp, goal_cases)
  case (1 updated start x xa xb xc)
  then show ?case using find_sub_Some [of "''deathstroke''" updated start] by (auto dest!: prefix_length_le)
qed

declare strip_hook.simps [simp del]

fun without_hook_lines :: "string list \<Rightarrow> (string list \<times> bool \<times> bool) res" where
  "without_hook_lines [] = Ok ([], False, False)"
| "without_hook_lines (line # ls) =
    (if is_hooks_line line then
       rbind (strip_hook line) (\<lambda>(l, c).
       rbind (without_hook_lines ls) (\<lambda>(out, changed, saw_hooks). Ok (l # out, c \<or> changed, True)))
     else rbind (without_hook_lines ls) (\<lambda>(out, changed, saw_hooks). Ok (line # out, changed, saw_hooks)))"

definition without_deathstroke_hook :: "string \<Rightarrow> (string \<times> bool) res" where
  "without_deathstroke_hook original =
    rbind (without_hook_lines (text_lines original)) (\<lambda>(out, changed, saw_hooks).
    if \<not> saw_hooks then Err (Msg ''mkinitcpio.conf has no HOOKS line'')
    else Ok (join ''\<newline>'' out @ ''\<newline>'', changed))"

definition remove_deathstroke_hook :: "('x, unit) io" where
  "remove_deathstroke_hook =
    bnd (ctx ''read /etc/mkinitcpio.conf'' (read_to_string MKINITCPIO_CONF)) (\<lambda>original.
    bnd (lift (without_deathstroke_hook original)) (\<lambda>(updated, changed).
    if changed then
      bnd (metadata MKINITCPIO_CONF) (\<lambda>meta. atomic_write MKINITCPIO_CONF updated (mode_bits meta))
    else ret ()))"

section \<open>Inserting and removing\<close>

text \<open>A place where a hook name starts: what the removal asks of the character before it.\<close>

definition token_start :: "string \<Rightarrow> nat \<Rightarrow> bool" where
  "token_start line e \<longleftrightarrow>
    e = 0 \<or> ws_len_end (take e line) > 0 \<or> last (take e line) \<in> {CHR ''('', CHR 0x22}"

lemma find_sub_at:
  assumes "prefix p (drop i s)" "i \<le> length s" "\<And>j. j < i \<Longrightarrow> \<not> prefix p (drop j s)"
  shows "find_sub p s = Some i"
  using assms
proof (induction s arbitrary: i)
  case (Cons c s)
  show ?case
  proof (cases i)
    case 0
    then show ?thesis using Cons.prems(1) by simp
  next
    case (Suc k)
    have "\<not> prefix p (c # s)" using Cons.prems(3) [of 0] Suc by simp
    moreover have "find_sub p s = Some k"
    proof (rule Cons.IH)
      show "\<not> prefix p (drop j s)" if "j < k" for j
        using Cons.prems(3) [of "Suc j"] that Suc by simp
    qed (use Cons.prems Suc in simp_all)
    ultimately show ?thesis by (simp add: Suc)
  qed
qed simp

text \<open>A word whose first letter comes once, put into a text without it, is found where it was put.\<close>

lemma find_inserted:
  assumes p: "p = c # ps" "c \<notin> set ps" and "\<not> sublist p line" "e \<le> length line"
  shows "find_sub p (take e line @ p @ x) = Some e"
proof (rule find_sub_at)
  show "prefix p (drop e (take e line @ p @ x))" "e \<le> length (take e line @ p @ x)" using assms(4) by simp_all
  fix j assume j: "j < e"
  let ?u = "drop j (take e line)"
  have u: "drop j (take e line @ p @ x) = ?u @ p @ x" "?u \<noteq> []" using j assms(4) by simp_all
  show "\<not> prefix p (drop j (take e line @ p @ x))"
  proof
    assume "prefix p (drop j (take e line @ p @ x))"
    then have pre: "prefix p (?u @ p @ x)" by (simp only: u(1))
    show False
    proof (cases "length p \<le> length ?u")
      case True
      have "prefix p ?u" by (rule prefix_length_prefix [OF pre _ True]) simp
      then obtain r where "?u = p @ r" by (auto simp: prefix_def)
      moreover have "line = take j line @ ?u @ drop e line"
      proof -
        have "take e line = take j line @ ?u" using append_take_drop_id [of j "take e line"] j by (simp add: min_def)
        then show ?thesis by (metis append.assoc append_take_drop_id)
      qed
      ultimately have "line = take j line @ p @ (r @ drop e line)" by simp
      then have "sublist p line" unfolding sublist_def by blast
      with assms(3) show False by simp
    next
      case False
      have "prefix ?u p" by (rule prefix_length_prefix [OF _ pre]) (use False in simp_all)
      then obtain v where v: "p = ?u @ v" by (auto simp: prefix_def)
      have "prefix v (p @ x)" using pre by (subst (asm) v) simp
      moreover have "v \<noteq> []" using v False by auto
      ultimately have "hd v = c" using p(1) by (cases v) auto
      moreover obtain a u' where "?u = a # u'" using u(2) by (cases ?u) auto
      then have "ps = u' @ v" using v p(1) by simp
      ultimately show False using p(2) \<open>v \<noteq> []\<close> by (cases v) auto
    qed
  qed
qed

lemma hook_word: "''deathstroke'' = CHR ''d'' # ''eathstroke''" "CHR ''d'' \<notin> set ''eathstroke''"
  by simp_all

lemma strip_inserted:
  assumes "\<not> sublist ''deathstroke'' line" "e \<le> length line"
  shows "strip_hook (take e line @ ''deathstroke '' @ drop e line) =
    (if token_start line e then Ok (line, True) else Err (Msg ''could not safely remove deathstroke token from HOOKS''))"
proof -
  have "take e line @ ''deathstroke '' @ drop e line = take e line @ ''deathstroke'' @ '' '' @ drop e line" by simp
  then have find: "find_sub ''deathstroke'' (take e line @ ''deathstroke '' @ drop e line) = Some e"
    using find_inserted [OF hook_word assms, of "'' '' @ drop e line"] by (simp only:)
  have parts: "take e (take e line @ ''deathstroke '' @ drop e line) = take e line"
    "drop (e + length ''deathstroke'') (take e line @ ''deathstroke '' @ drop e line) = CHR '' '' # drop e line"
    using assms(2) by simp_all
  have sp: "ws_len (CHR '' '' # drop e line) = 1" by (subst ws_len_ascii) (simp_all add: ascii_space_def)
  have none: "find_sub ''deathstroke'' line = None" using assms(1) by (simp only: find_sub_None simp_thms)
  have stop: "strip_hook line = Ok (line, False)"
    by (subst strip_hook.simps, unfold none) simp
  show ?thesis
    by (subst strip_hook.simps, unfold find option.case Let_def parts sp)
      (use assms(2) stop in \<open>auto simp: token_start_def\<close>)
qed


lemma encrypt_place:
  assumes "find_sub ''encrypt'' line = Some e"
  shows "e \<le> length line" and "drop e line \<noteq> []" and "line = take e line @ CHR ''e'' # tl (drop e line)"
proof -
  obtain r where r: "drop e line = ''encrypt'' @ r" using find_sub_Some [OF assms] by (auto simp: prefix_def)
  show "e \<le> length line" using find_sub_Some [OF assms] by simp
  show "drop e line \<noteq> []" by (simp add: r)
  show "line = take e line @ CHR ''e'' # tl (drop e line)"
    using append_take_drop_id [of e line] by (simp add: r)
qed

lemma prefix_stops: "c \<notin> set p \<Longrightarrow> prefix p (q @ c # r) \<longleftrightarrow> prefix p q"
proof (induction p arbitrary: q)
  case (Cons a p)
  then show ?case by (cases q) auto
qed simp

lemma hooks_line_inserted:
  assumes "find_sub ''encrypt'' line = Some e"
  shows "is_hooks_line (take e line @ ''deathstroke '' @ drop e line) = is_hooks_line line"
proof -
  have c: "plain CHR ''d''" "plain CHR ''e''" by (simp_all add: plain_def ascii_space_def)
  have "is_hooks_line (take e line @ ''deathstroke '' @ drop e line) = prefix ''HOOKS='' (trim_start (take e line))"
    using trim_start_before_plain [OF c(1), of "take e line"] prefix_stops [of "CHR ''d''" "''HOOKS=''"]
    by (simp add: is_hooks_line_def)
  moreover have "is_hooks_line line = prefix ''HOOKS='' (trim_start (take e line))"
    by (subst encrypt_place(3) [OF assms])
      (use trim_start_before_plain [OF c(2), of "take e line"] prefix_stops [of "CHR ''e''" "''HOOKS=''"] in
        \<open>simp add: is_hooks_line_def\<close>)
  ultimately show ?thesis by simp
qed

text \<open>Without the token, a \<open>HOOKS=\<close> line is accepted exactly when it names \<open>encrypt\<close> in some form.\<close>

lemma ensure_fresh_line:
  assumes "\<not> sublist ''deathstroke'' line"
  shows "ensure_hook_line line = (case find_sub ''encrypt'' line of
      Some e \<Rightarrow> Ok (take e line @ ''deathstroke '' @ drop e line, True)
    | None \<Rightarrow> Err (Msg ''HOOKS has no encrypt or sd-encrypt hook''))"
proof -
  have none: "find_sub ''deathstroke'' line = None" using assms by (simp only: find_sub_None simp_thms)
  show ?thesis
  proof (cases "find_sub ''encrypt'' line")
    case None
    have "''sd-encrypt'' = ''sd-'' @ ''encrypt''" by simp
    then have "sublist ''encrypt'' ''sd-encrypt''" by (metis sublist_appendI append_Nil2)
    with None have "find_sub ''sd-encrypt'' line = None"
      unfolding find_sub_None using sublist_order.order.trans by blast
    then show ?thesis unfolding ensure_hook_line_def none None Let_def by simp
  next
    case (Some e)
    then show ?thesis unfolding ensure_hook_line_def none Some Let_def by simp
  qed
qed

definition clean_hooks :: "string \<Rightarrow> bool" where
  "clean_hooks line \<longleftrightarrow> \<not> sublist ''deathstroke'' line \<and>
    (\<forall>e. find_sub ''encrypt'' line = Some e \<longrightarrow> token_start line e)"

lemma is_line_inserted:
  "is_line line \<Longrightarrow> find_sub ''encrypt'' line = Some e \<Longrightarrow> is_line (take e line @ ''deathstroke '' @ drop e line)"
  using encrypt_place(2) [of line e] by (auto simp: is_line_def dest: in_set_takeD in_set_dropD)

lemma removed_again:
  assumes "ensure_hook_lines ls = Ok (out, changed, saw)"
    and "\<forall>l\<in>set ls. is_hooks_line l \<longrightarrow> clean_hooks l" and "list_all is_line ls"
  shows "without_hook_lines out = Ok (ls, saw, saw) \<and> list_all is_line out \<and> (out = [] \<longleftrightarrow> ls = [])"
  using assms
proof (induction ls arbitrary: out changed saw)
  case (Cons line ls)
  have rest: "without_hook_lines out' = Ok (ls, saw', saw') \<and> list_all is_line out'"
    if "ensure_hook_lines ls = Ok (out', c, saw')" for out' c saw'
    using Cons.IH [OF that] Cons.prems(2,3) by simp
  show ?case
  proof (cases "is_hooks_line line")
    case False
    then show ?thesis using Cons.prems(1,3) rest by (auto simp: ok_inv)
  next
    case True
    then have clean: "\<not> sublist ''deathstroke'' line" "\<And>e. find_sub ''encrypt'' line = Some e \<Longrightarrow> token_start line e"
      using Cons.prems(2) by (simp_all add: clean_hooks_def del: One_nat_def)
    obtain l c where l: "ensure_hook_line line = Ok (l, c)" using Cons.prems(1) True by (auto simp: ok_inv)
    obtain out' changed' saw' where r: "ensure_hook_lines ls = Ok (out', changed', saw')"
      using Cons.prems(1) True by (auto simp: ok_inv)
    have out: "out = l # out'" "saw" using Cons.prems(1) True l r by auto
    obtain e where e: "find_sub ''encrypt'' line = Some e" and le: "l = take e line @ ''deathstroke '' @ drop e line"
      using l unfolding ensure_fresh_line [OF clean(1)] by (cases "find_sub ''encrypt'' line") auto
    have "strip_hook l = Ok (line, True)"
      unfolding le strip_inserted [OF clean(1) encrypt_place(1) [OF e]] using clean(2) [OF e] by simp
    moreover have "is_hooks_line l" unfolding le hooks_line_inserted [OF e] by (rule True)
    moreover have "is_line l" unfolding le using is_line_inserted [OF _ e] Cons.prems(3) by simp
    ultimately show ?thesis using rest [OF r] out by simp
  qed
qed simp

lemma strip_hook_ends: "strip_hook l \<noteq> Halt h"
proof (induction l rule: strip_hook.induct)
  case (1 l)
  show ?case
  proof (cases "find_sub ''deathstroke'' l")
    case None
    then show ?thesis by (subst strip_hook.simps) (simp only: option.case res.distinct simp_thms)
  next
    case (Some i)
    show ?thesis
      by (subst strip_hook.simps, unfold Some option.case Let_def)
        (use 1 [OF Some refl refl refl refl] in \<open>auto simp: rbind_def split: res.splits\<close>)
  qed
qed


lemma without_hook_lines_ends: "without_hook_lines ls \<noteq> Halt h"
proof (induction ls arbitrary: h)
  case (Cons l ls)
  show ?case
  proof (cases "strip_hook l")
    case (Halt k)
    then show ?thesis using strip_hook_ends by blast
  qed (use Cons.IH in \<open>auto simp: rbind_def split: res.splits\<close>)
qed simp

lemma ensure_keeps_members:
  "ensure_hook_lines ls = Ok (out, changed, saw) \<Longrightarrow> line \<in> set ls \<Longrightarrow> is_hooks_line line \<Longrightarrow>
    ensure_hook_line line = Ok (l, c) \<Longrightarrow> saw \<and> (c \<longrightarrow> changed) \<and> l \<in> set out"
  by (induction ls arbitrary: out changed saw) (auto simp: ok_inv split: if_splits)

lemma without_hook_lines_Ok:
  "without_hook_lines ls = Ok r \<Longrightarrow> l \<in> set ls \<Longrightarrow> is_hooks_line l \<Longrightarrow> \<exists>u. strip_hook l = Ok u"
  by (induction ls arbitrary: r) (auto simp: ok_inv split: if_splits)

section \<open>Properties\<close>

definition sample_conf :: "string list" where
  "sample_conf = [''MODULES=()'', ''HOOKS=(base udev encrypt filesystems)'']"

definition systemd_line :: string where
  "systemd_line = ''HOOKS=(base systemd sd-encrypt filesystems)''"

text \<open>
  C26. What \<open>arm\<close> inserts \<open>disarm\<close> removes: when every \<open>HOOKS=\<close> line of \<open>mkinitcpio.conf\<close> names \<open>encrypt\<close>
  as a word of its own and \<open>deathstroke\<close> not at all, the lines that \<open>arm\<close> writes are taken back by the
  removal to exactly the lines there were.
\<close>

theorem hook_removed_again:
  assumes "ensure_hook_lines ls = Ok (out, changed, True)"
    and "\<forall>l\<in>set ls. is_hooks_line l \<longrightarrow> clean_hooks l" and "list_all is_line ls"
  shows "without_deathstroke_hook (join ''\<newline>'' out @ ''\<newline>'') = Ok (join ''\<newline>'' ls @ ''\<newline>'', True)"
proof -
  have r: "without_hook_lines out = Ok (ls, True, True)" "list_all is_line out" "out = [] \<longleftrightarrow> ls = []"
    using removed_again [OF assms] by auto
  have "ls \<noteq> []" using assms(1) by auto
  then have "text_lines (join ''\<newline>'' out @ ''\<newline>'') = out" using text_lines_join [OF r(2)] r(3) by simp
  then show ?thesis by (simp add: without_deathstroke_hook_def r(1))
qed

lemma sample_conf_facts:
  "list_all is_line sample_conf" "\<forall>l\<in>set sample_conf. is_hooks_line l \<longrightarrow> \<not> sublist ''deathstroke'' l"
  "find_sub ''encrypt'' ''HOOKS=(base udev encrypt filesystems)'' = Some 17"
  "ensure_hook_lines sample_conf =
    Ok ([''MODULES=()'', ''HOOKS=(base udev deathstroke encrypt filesystems)''], True, True)"
  by code_simp+

theorem hook_removed_again_witness:
  "without_deathstroke_hook
      (join ''\<newline>'' [''MODULES=()'', ''HOOKS=(base udev deathstroke encrypt filesystems)''] @ ''\<newline>'') =
    Ok (join ''\<newline>'' [''MODULES=()'', ''HOOKS=(base udev encrypt filesystems)''] @ ''\<newline>'', True)"
proof -
  have "\<forall>l\<in>set sample_conf. is_hooks_line l \<longrightarrow> (\<forall>e. find_sub ''encrypt'' l = Some e \<longrightarrow> token_start l e)"
  proof -
    have "find_sub ''encrypt'' ''MODULES=()'' = None" by code_simp
    moreover have "token_start ''HOOKS=(base udev encrypt filesystems)'' 17" by code_simp
    ultimately show ?thesis using sample_conf_facts(3) by (simp add: sample_conf_def del: find_sub.simps)
  qed
  then have "\<forall>l\<in>set sample_conf. is_hooks_line l \<longrightarrow> clean_hooks l"
    using sample_conf_facts(2) unfolding clean_hooks_def by blast
  from hook_removed_again [OF sample_conf_facts(4) this sample_conf_facts(1)] show ?thesis
    unfolding sample_conf_def .
qed

text \<open>
  C38. With \<open>sd-encrypt\<close> the hook is put inside that word, because \<open>encrypt\<close> is found in it first: \<open>arm\<close>
  turns \<open>sd-encrypt\<close> into \<open>sd-deathstroke encrypt\<close>, a list of hooks that names neither, and the
  removal by \<open>disarm\<close> then refuses the line.
\<close>

theorem sd_encrypt_hook_stuck:
  assumes "ensure_hook_lines ls = Ok (out, changed, saw)" and "line \<in> set ls" "is_hooks_line line"
    and no: "\<not> sublist ''deathstroke'' line" and e: "find_sub ''encrypt'' line = Some e" and "\<not> token_start line e"
    and "list_all is_line out"
  shows "changed \<and> take e line @ ''deathstroke '' @ drop e line \<in> set out \<and>
    is_err (without_deathstroke_hook (join ''\<newline>'' out @ ''\<newline>''))"
proof -
  let ?l = "take e line @ ''deathstroke '' @ drop e line"
  have "ensure_hook_line line = Ok (?l, True)" unfolding ensure_fresh_line [OF no] e by simp
  with ensure_keeps_members [OF assms(1-3)] have l: "changed" "?l \<in> set out" by blast+
  have "strip_hook ?l \<noteq> Ok u" for u
    unfolding strip_inserted [OF no encrypt_place(1) [OF e]] using assms(6) by simp
  moreover have "is_hooks_line ?l" unfolding hooks_line_inserted [OF e] by (rule assms(3))
  ultimately have "without_hook_lines out \<noteq> Ok r" for r using without_hook_lines_Ok [OF _ l(2)] by blast
  then obtain x where "without_hook_lines out = Err x" using without_hook_lines_ends by (cases "without_hook_lines out") auto
  moreover have "out \<noteq> []" using l(2) by auto
  then have "text_lines (join ''\<newline>'' out @ ''\<newline>'') = out" by (rule text_lines_join [OF assms(7)])
  ultimately show ?thesis using l by (simp add: without_deathstroke_hook_def)
qed

lemma systemd_facts:
  "ensure_hook_lines [systemd_line] = Ok ([''HOOKS=(base systemd sd-deathstroke encrypt filesystems)''], True, True)"
  "is_hooks_line systemd_line" "\<not> sublist ''deathstroke'' systemd_line" "find_sub ''encrypt'' systemd_line = Some 23"
  "\<not> token_start systemd_line 23" "list_all is_line [''HOOKS=(base systemd sd-deathstroke encrypt filesystems)'']"
  by code_simp+

theorem sd_encrypt_hook_stuck_witness:
  "is_err (without_deathstroke_hook (join ''\<newline>'' [''HOOKS=(base systemd sd-deathstroke encrypt filesystems)''] @ ''\<newline>''))"
proof -
  have "systemd_line \<in> set [systemd_line]" by simp
  from sd_encrypt_hook_stuck [OF systemd_facts(1) this systemd_facts(2-6)] show ?thesis by (elim conjE)
qed

end
