(* ===== verification/Ctl_State.thy ===== *)
theory Ctl_State
  imports Unlock Hooks
begin

text \<open>
  The common ground of the \<open>dsctl\<close> commands: the checks before any of them, the state directory, the
  secrets that are entered, the registry of known keyslots, and the questions asked of \<open>cryptsetup\<close>.
  The search for \<open>ds-erase\<close> and the recorded target are the same code as in the other programs, so
  their models are used again.
\<close>

section \<open>Checks\<close>

definition require_root :: "('x, unit) io" where
  "require_root =
    bnd (attempt (read_to_string (components ''/proc/self/status''))) (\<lambda>r.
    let euid = (case r of
        Inl _ \<Rightarrow> ''1''
      | Inr s \<Rightarrow>
          (case find (\<lambda>l. prefix ''Uid:'' l) (text_lines s) of
             None \<Rightarrow> ''1''
           | Some l \<Rightarrow> (let v = split_whitespace (drop 4 l) in if length v < 2 then ''1'' else v ! 1)))
    in require (euid = ''0'') ''must run as root (it manages the reserved state dir)'')"

definition guard_disposable :: "('x, unit) io" where
  "guard_disposable =
    bnd (path_exists (components DISPOSABLE_MARKER)) (\<lambda>present.
    require present ''SAFETY GUARD: This machine is not marked disposable.'')"

section \<open>Files\<close>

definition ensure_state_dir :: "('x, unit) io" where
  "ensure_state_dir =
    bnd (ask (\<lambda>w. components (state_dir w))) (\<lambda>dir.
    bnd (ctx ''create state dir'' (create_dir_all dir)) (\<lambda>_.
    ctx ''chmod state dir'' (set_mode dir 448)))"

definition write_0600 :: "path \<Rightarrow> string \<Rightarrow> ('x, unit) io" where
  "write_0600 path data = atomic_write path data 384"

definition remove_if_exists :: "path \<Rightarrow> ('x, unit) io" where
  "remove_if_exists path =
    bnd (attempt (remove_file path)) (\<lambda>r.
    case r of Inr _ \<Rightarrow> ret () | Inl e \<Rightarrow> if e = NotFound then ret () else bail ''remove'')"

definition run_checked :: "string \<Rightarrow> string list \<Rightarrow> ('x, unit) io" where
  "run_checked bin args =
    bnd (run_cmd bin args []) (\<lambda>c.
    bnd (lift (cmd_status ''run'' c)) (\<lambda>ok.
    require ok ''command failed''))"

definition read_secret :: "('x, string) io" where
  "read_secret =
    bnd (ask w_stdin) (\<lambda>piped.
    case piped of
      Some _ \<Rightarrow> bnd (ctx ''read piped secret'' read_line) (\<lambda>l. ret (trim_newlines l))
    | None \<Rightarrow> ctx ''read secret without echo'' prompt_password)"

text \<open>A file of the state directory.\<close>

definition state_file :: "string \<Rightarrow> ('x, path) io" where
  "state_file name = ask (\<lambda>w. components (state_dir w) @ [name])"

section \<open>Policy and slots\<close>

definition read_policy :: "('x, policy) io" where
  "read_policy =
    bnd (state_file ''config'') (\<lambda>path.
    bnd (attempt (read_to_string path)) (\<lambda>r.
    case r of
      Inr text \<Rightarrow> ctx ''invalid local policy'' (lift (parse_policy text))
    | Inl e \<Rightarrow> if e = NotFound then ret default_policy else bail ''read''))"

definition read_slot :: "string \<Rightarrow> ('x, u8) io" where
  "read_slot name =
    bnd (state_file name) (\<lambda>path.
    bnd (ctx ''read'' (read_to_string path)) (\<lambda>text.
    lift (parse_slot text)))"

section \<open>Questions to \<open>cryptsetup\<close>\<close>

definition validate_luks_device :: "string \<Rightarrow> ('x, unit) io" where
  "validate_luks_device device =
    bnd (require (\<not> (device = [] \<or> length device > 4096 \<or>
      CHR 0x0A \<in> set device \<or> CHR 0x0D \<in> set device \<or> CHR 0x00 \<in> set device)) ''invalid LUKS device path'') (\<lambda>_.
    bnd (ctx ''resolve'' (canonicalize (components device))) (\<lambda>resolved.
    bnd (require (prefix (components ''/dev/'') resolved) ''LUKS device must resolve below /dev'') (\<lambda>_.
    bnd (metadata resolved) (\<lambda>meta.
    bnd (require (meta = BlockDev) ''LUKS target is not a block device'') (\<lambda>_.
    bnd (run_cmd ''cryptsetup'' [''isLuks'', device] []) (\<lambda>c.
    bnd (lift (cmd_status ''cryptsetup isLuks'' c)) (\<lambda>ok.
    require ok ''target is not a valid LUKS container'')))))))"

text \<open>The parser of \<open>luksDump\<close> is the same text as in \<open>ds-erase\<close>; here no slot at all is an error.\<close>

definition luks_keyslots :: "string \<Rightarrow> ('x, u8 set) io" where
  "luks_keyslots device =
    bnd (active_slot_set device) (\<lambda>slots.
    if slots = {} then bail ''LUKS container has no active keyslots'' else ret slots)"

fun try_keyslots :: "string \<Rightarrow> string \<Rightarrow> u8 list \<Rightarrow> ('x, u8 list) io" where
  "try_keyslots device keyfile [] = ret []"
| "try_keyslots device keyfile (slot # slots) =
    bnd (run_cmd ''cryptsetup''
      [''open'', ''--test-passphrase'', ''--key-file'', keyfile, ''--key-slot'', show_word slot, device] []) (\<lambda>c.
    bnd (lift (cmd_status ''cryptsetup slot verification'' c)) (\<lambda>ok.
    bnd (try_keyslots device keyfile slots) (\<lambda>matching.
    ret (if ok then slot # matching else matching))))"

definition matching_keyslots :: "string \<Rightarrow> string \<Rightarrow> ('x, u8 list) io" where
  "matching_keyslots device keyfile =
    bnd (path_is_file (components keyfile)) (\<lambda>there.
    bnd (require there ''keyfile does not exist'') (\<lambda>_.
    bnd (luks_keyslots device) (\<lambda>slots.
    try_keyslots device keyfile (sorted_list_of_set slots))))"

section \<open>The registry of known keyslots\<close>

definition known_slots_path :: "('x, path) io" where
  "known_slots_path = state_file ''known.slots''"

definition comma_or_space :: "string \<Rightarrow> nat" where
  "comma_or_space s = (case s of [] \<Rightarrow> 0 | c # cs \<Rightarrow> if c = CHR '','' then 1 else ws_len s)"

definition parse_known_slots :: "string \<Rightarrow> u8 set" where
  "parse_known_slots c = set (List.map_filter (\<lambda>tok. parse_word (trim tok)) (split_by comma_or_space c))"

definition read_known_slots :: "('x, u8 set) io" where
  "read_known_slots =
    bnd known_slots_path (\<lambda>path.
    bnd (attempt (read_to_string path)) (\<lambda>r.
    ret (case r of Inr c \<Rightarrow> parse_known_slots c | Inl _ \<Rightarrow> {})))"

definition known_slots_text :: "u8 set \<Rightarrow> string" where
  "known_slots_text slots = join '','' (map show_word (sorted_list_of_set slots)) @ ''\<newline>''"

definition write_known_slots :: "u8 set \<Rightarrow> ('x, unit) io" where
  "write_known_slots slots =
    bnd ensure_state_dir (\<lambda>_.
    bnd known_slots_path (\<lambda>path. atomic_write path (known_slots_text slots) 384))"

definition add_known_slots :: "u8 set \<Rightarrow> ('x, unit) io" where
  "add_known_slots new =
    (if new = {} then ret ()
     else bnd read_known_slots (\<lambda>s. write_known_slots (s \<union> new)))"

definition record_added_slots :: "string \<Rightarrow> ('x, unit) io \<Rightarrow> ('x, unit) io" where
  "record_added_slots device op =
    bnd (attempt (luks_keyslots device)) (\<lambda>b.
    let before = (case b of Inr s \<Rightarrow> s | Inl _ \<Rightarrow> {}) in
    bnd op (\<lambda>_.
    bnd (attempt (luks_keyslots device)) (\<lambda>a.
    case a of Inr after \<Rightarrow> add_known_slots (after - before) | Inl _ \<Rightarrow> ret ())))"

section \<open>Facts the commands share\<close>

lemma keeps_require_root: "keeps only_sched require_root"
  unfolding require_root_def Let_def
  by (intro reading.keeps_bnd reading.keeps_attempt reading.keeps_readers reading.keeps_require)

end
