(* ===== verification/Pam_Stack.thy ===== *)
theory Pam_Stack
  imports Rust_Num
begin

text \<open>
  How \<open>dsctl arm\<close> rewrites the PAM stack: three rules are inserted around the rules of \<open>pam_unix\<close> and
  \<open>pam_faillock\<close>, and the numeric \<open>success=N\<close> jumps that skip the inserted failure rule are raised. Text
  in, text out; the files are handled elsewhere.
\<close>

section \<open>Rules and jumps\<close>

definition PAM_MODULE :: string where "PAM_MODULE = ''/usr/lib/security/pam_ds.so''"
definition ARM_MARKER :: string where "ARM_MARKER = ''deathstr0ke-arm''"

definition is_auth_rule :: "string \<Rightarrow> bool" where
  "is_auth_rule line =
    (let trimmed = dropWhile (\<lambda>c. c = CHR ''-'') (trim_start line) in
     case split_whitespace trimmed of [] \<Rightarrow> False | t # ts \<Rightarrow> t = ''auth'')"

text \<open>The numeric \<open>success=\<close> control; \<open>usize\<close> is a 64-bit word.\<close>

definition success_jump :: "string \<Rightarrow> u64 option" where
  "success_jump line =
    (case find_sub ''success='' line of
       None \<Rightarrow> None
     | Some i \<Rightarrow>
         (let digits = takeWhile is_digit (drop (i + length ''success='') line) in
          if digits = [] then None else parse_word digits))"

definition replace_success_jump :: "string \<Rightarrow> u64 \<Rightarrow> string res" where
  "replace_success_jump line value =
    rbind (some_or ''no success control'' (find_sub ''success='' line)) (\<lambda>i.
    let start = i + length ''success='';
        len = length (takeWhile is_digit (drop start line)) in
    if len = 0 then Err (Msg ''success control is not numeric'')
    else Ok (take start line @ show_word value @ drop (start + len) line))"

definition is_faillock :: "string \<Rightarrow> string \<Rightarrow> bool" where
  "is_faillock kind line \<longleftrightarrow> contains line ''pam_faillock.so'' \<and> kind \<in> set (split_whitespace line)"

text \<open>\<open>iter().position(P)\<close>.\<close>

fun position :: "('a \<Rightarrow> bool) \<Rightarrow> 'a list \<Rightarrow> nat option" where
  "position P [] = None"
| "position P (x # xs) = (if P x then Some 0 else map_option Suc (position P xs))"

definition insert_at :: "nat \<Rightarrow> 'a \<Rightarrow> 'a list \<Rightarrow> 'a list" where
  "insert_at n x xs = take n xs @ x # drop n xs"

text \<open>\<open>iter().enumerate().filter_map(..)\<close>: the places of the elements that satisfy \<open>P\<close>.\<close>

definition rule_positions :: "('a \<Rightarrow> bool) \<Rightarrow> 'a list \<Rightarrow> nat list" where
  "rule_positions P xs = filter (\<lambda>i. P (xs ! i)) [0..<length xs]"

text \<open>The loop that raises the jumps of the rules before the failure rule at auth index \<open>f\<close>.\<close>

definition raise_line :: "bool \<Rightarrow> nat \<Rightarrow> nat \<Rightarrow> string \<Rightarrow> string res" where
  "raise_line dbg f auth_index line =
    (case success_jump line of
       None \<Rightarrow> Ok line
     | Some jump \<Rightarrow>
         rbind (add_checked dbg (of_nat auth_index) jump) (\<lambda>t.
         if t \<ge> of_nat f then rbind (add_checked dbg jump 1) (replace_success_jump line)
         else Ok line))"

fun raise_jumps :: "bool \<Rightarrow> nat list \<Rightarrow> nat \<Rightarrow> nat list \<Rightarrow> string list \<Rightarrow> string list res" where
  "raise_jumps dbg auth_positions f [] ls = Ok ls"
| "raise_jumps dbg auth_positions f (i # is) ls =
    (let raw = auth_positions ! i in
     rbind (raise_line dbg f i (ls ! raw)) (\<lambda>l. raise_jumps dbg auth_positions f is (ls[raw := l])))"

definition authfail_line :: string where
  "authfail_line = ''auth       [default=die]               '' @ PAM_MODULE @ '' authfail # '' @ ARM_MARKER"

definition authsucc_line :: string where
  "authsucc_line = ''auth       optional                    '' @ PAM_MODULE @ '' authsucc # '' @ ARM_MARKER"

definition preauth_line :: string where
  "preauth_line = ''auth       [success=ignore ignore=ignore default=die] '' @ PAM_MODULE @ '' # '' @ ARM_MARKER"

definition arm_pam_stack :: "bool \<Rightarrow> string \<Rightarrow> string res" where
  "arm_pam_stack dbg content =
    (if contains content ARM_MARKER then Err (Msg ''PAM stack is already marked armed'')
     else
       let ls = text_lines content;
           auth_positions = rule_positions is_auth_rule ls in
       rbind (some_or ''PAM stack has no auth rules'' (if auth_positions = [] then None else Some (hd auth_positions))) (\<lambda>first.
       rbind (some_or ''unsupported PAM stack: no pam_unix auth rule''
         (position (\<lambda>i. contains (ls ! i) ''pam_unix.so'') auth_positions)) (\<lambda>pam_unix_auth.
       rbind (some_or ''unsupported PAM stack: no pam_faillock authfail rule''
         (position (\<lambda>i. is_faillock ''authfail'' (ls ! i)) auth_positions)) (\<lambda>faillock_fail_auth.
       rbind (some_or ''unsupported PAM stack: no pam_faillock authsucc rule''
         (find (\<lambda>i. is_faillock ''authsucc'' (ls ! i)) auth_positions)) (\<lambda>faillock_succ_raw.
       if faillock_fail_auth \<le> pam_unix_auth then Err (Msg ''unsupported PAM order: authfail is not after pam_unix'')
       else
         rbind (raise_jumps dbg auth_positions faillock_fail_auth [0..<faillock_fail_auth] ls) (\<lambda>ls1.
         let fail_raw = auth_positions ! faillock_fail_auth;
             ls2 = insert_at fail_raw authfail_line ls1;
             succ_raw = (if faillock_succ_raw \<ge> fail_raw then faillock_succ_raw + 1 else faillock_succ_raw);
             ls3 = insert_at (succ_raw + 1) authsucc_line ls2;
             ls4 = insert_at first preauth_line ls3
         in Ok (join ''\<newline>'' ls4 @ ''\<newline>'')))))))"

section \<open>Raising keeps a rule a rule\<close>

text \<open>Whether a line is an \<open>auth\<close> rule is settled before any \<open>s\<close> in it.\<close>

lemma first_token_before:
  assumes "plain c" "c \<notin> set t"
  shows "(case split_whitespace (q @ c # r) of [] \<Rightarrow> False | u # us \<Rightarrow> u = t) \<longleftrightarrow>
    (case filter (\<lambda>u. u \<noteq> []) (butlast (split_by ws_len q)) of [] \<Rightarrow> False | u # us \<Rightarrow> u = t)"
  using assms by (auto simp: split_whitespace_def split_by_before_plain split: list.splits)

lemma is_auth_rule_before:
  assumes "is_auth_rule (q @ CHR ''s'' # r)"
  shows "is_auth_rule (q @ CHR ''s'' # r')"
proof -
  have s: "plain CHR ''s''" by (simp add: plain_def ascii_space_def)
  have d: "dropWhile (\<lambda>c. c = CHR ''-'') (trim_start (q @ CHR ''s'' # x)) =
      dropWhile (\<lambda>c. c = CHR ''-'') (trim_start q) @ CHR ''s'' # x" for x
    by (simp add: trim_start_before_plain [OF s] dropWhile_append3 dropWhile_append)
  have "CHR ''s'' \<notin> set ''auth''" by simp
  from assms first_token_before [OF s this] show ?thesis by (simp add: is_auth_rule_def d Let_def)
qed


section \<open>Raising a jump\<close>

lemma takeWhile_dropWhile: "takeWhile P (dropWhile P xs) = []"
  by (induction xs) simp_all

lemma replaced_jump:
  assumes j: "success_jump line = Some j"
  shows "\<exists>line'. replace_success_jump line v = Ok line' \<and> success_jump line' = Some v \<and>
    (is_auth_rule line \<longrightarrow> is_auth_rule line')"
proof -
  let ?p = "''success=''"
  obtain i where i: "find_sub ?p line = Some i" and d: "takeWhile is_digit (drop (i + length ?p) line) \<noteq> []"
    using j by (auto simp: success_jump_def Let_def split: option.splits if_splits)
  let ?rest = "drop (i + length ?p) line"
  let ?line = "take (i + length ?p) line @ show_word v @ dropWhile is_digit ?rest"
  have len: "i + length ?p \<le> length line" using find_sub_Some [OF i] by (auto dest: prefix_length_le)
  have "replace_success_jump line v = Ok ?line"
    using i d by (simp add: replace_success_jump_def Let_def dropWhile_eq_drop add.commute)
  moreover have "success_jump ?line = Some v"
  proof -
    have find: "find_sub ?p ?line = Some i" by (rule find_sub_take [OF i]) simp
    have "drop (i + length ?p) ?line = show_word v @ dropWhile is_digit ?rest" using len by simp
    moreover have "takeWhile is_digit (show_word v @ dropWhile is_digit ?rest) = show_word v"
    proof -
      show ?thesis using show_word_digits [of v] takeWhile_dropWhile [of is_digit ?rest]
        by (simp only: takeWhile_append2 list_all_iff append_Nil2)
    qed
    ultimately show ?thesis
      unfolding success_jump_def find option.case Let_def by (simp only: show_word_ne if_False parse_show_word)
  qed
  moreover have "is_auth_rule ?line" if auth: "is_auth_rule line"
  proof -
    obtain r where r: "drop i line = ?p @ r" using find_sub_Some [OF i] by (auto simp: prefix_def)
    have q: "take (i + length ?p) line = take i line @ ?p"
      by (simp only: take_add r) simp
    have "line = take i line @ CHR ''s'' # (''uccess='' @ r)" using r append_take_drop_id [of i line] by simp
    with auth have "is_auth_rule (take i line @ CHR ''s'' # (''uccess='' @ r))" by simp
    from is_auth_rule_before [OF this, of "''uccess='' @ show_word v @ dropWhile is_digit ?rest"]
    show ?thesis unfolding q by simp
  qed
  ultimately show ?thesis by blast
qed


text \<open>One rule: raised when its jump crosses the failure rule, otherwise left alone.\<close>

lemma raise_line_auth:
  assumes "raise_line dbg f i line = Ok line'" and a: "is_auth_rule line"
  shows "is_auth_rule line'"
proof (cases "success_jump line")
  case None
  then show ?thesis using assms by (simp add: raise_line_def)
next
  case (Some j)
  then show ?thesis using assms replaced_jump [OF Some, of "j + 1"]
    by (auto simp: raise_line_def ok_inv add_checked_def split: if_splits)
qed

lemma raise_line_Ok:
  assumes "raise_line dbg f i line = Ok line'" "f < 2 ^ 64"
  shows "success_jump line = None \<Longrightarrow> line' = line"
    and "success_jump line = Some j \<Longrightarrow> i + unat j < f \<Longrightarrow> line' = line"
    and "success_jump line = Some j \<Longrightarrow> f \<le> i + unat j \<Longrightarrow> i + unat j + 1 < 2 ^ 64 \<Longrightarrow> success_jump line' = Some (j + 1)"
proof -
  show "success_jump line = None \<Longrightarrow> line' = line" using assms by (simp add: raise_line_def)
  have sum: "unat (of_nat i + j) = i + unat j" if "i + unat j < 2 ^ 64" for j :: u64
    using that by (simp add: unat_word_ariths unat_of_nat take_bit_eq_mod)
  show "line' = line" if "success_jump line = Some j" "i + unat j < f"
    using that assms sum [of j]
    by (auto simp: raise_line_def ok_inv add_checked_def word_le_nat_alt unat_of_nat take_bit_eq_mod split: if_splits)
  show "success_jump line' = Some (j + 1)" if "success_jump line = Some j" "f \<le> i + unat j" "i + unat j + 1 < 2 ^ 64"
  proof -
    have "of_nat f \<le> of_nat i + j"
      using that assms(2) sum [of j] by (simp add: word_le_nat_alt unat_of_nat take_bit_eq_mod)
    then have "replace_success_jump line (j + 1) = Ok line'"
      using that assms(1) by (auto simp: raise_line_def ok_inv add_checked_def split: if_splits)
    with replaced_jump [OF that(1), of "j + 1"] show ?thesis by auto
  qed
qed

lemma raise_jumps_Ok:
  "raise_jumps dbg P f is ls = Ok ls' \<Longrightarrow> distinct P \<Longrightarrow> distinct is \<Longrightarrow> (\<And>i. i \<in> set is \<Longrightarrow> i < length P) \<Longrightarrow>
    (\<And>r. r \<in> set P \<Longrightarrow> r < length ls) \<Longrightarrow>
    length ls' = length ls \<and> (\<forall>i\<in>set is. raise_line dbg f i (ls ! (P ! i)) = Ok (ls' ! (P ! i))) \<and>
    (\<forall>r. r \<notin> (\<lambda>i. P ! i) ` set is \<longrightarrow> ls' ! r = ls ! r)"
proof (induction "is" arbitrary: ls)
  case (Cons i "is")
  obtain l where l: "raise_line dbg f i (ls ! (P ! i)) = Ok l"
    and rest: "raise_jumps dbg P f is (ls[P ! i := l]) = Ok ls'"
    using Cons.prems(1) by (auto simp: Let_def ok_inv)
  have "length ls' = length (ls[P ! i := l]) \<and>
      (\<forall>k\<in>set is. raise_line dbg f k (ls[P ! i := l] ! (P ! k)) = Ok (ls' ! (P ! k))) \<and>
      (\<forall>r. r \<notin> (\<lambda>i. P ! i) ` set is \<longrightarrow> ls' ! r = ls[P ! i := l] ! r)"
    by (rule Cons.IH [OF rest Cons.prems(2)]) (use Cons.prems(3-5) in simp_all)
  then have len: "length ls' = length ls"
      "\<forall>k\<in>set is. raise_line dbg f k (ls[P ! i := l] ! (P ! k)) = Ok (ls' ! (P ! k))"
      "\<forall>r. r \<notin> (\<lambda>i. P ! i) ` set is \<longrightarrow> ls' ! r = ls[P ! i := l] ! r"
    by simp_all
  have in_range: "i < length P" "P ! i < length ls" using Cons.prems(4,5) by simp_all
  have other: "P ! k \<noteq> P ! i" if "k \<in> set is" for k
  proof
    assume "P ! k = P ! i"
    then have "k = i" using nth_eq_iff_index_eq [OF Cons.prems(2)] Cons.prems(4) that by simp
    with that Cons.prems(3) show False by simp
  qed
  have "P ! i \<notin> (\<lambda>i. P ! i) ` set is"
  proof
    assume "P ! i \<in> (\<lambda>i. P ! i) ` set is"
    then obtain k where "k \<in> set is" "P ! i = P ! k" by blast
    with other [of k] show False by simp
  qed
  then have here: "ls' ! (P ! i) = l" using len(3) in_range(2) by simp
  have "raise_line dbg f k (ls ! (P ! k)) = Ok (ls' ! (P ! k))" if "k \<in> set (i # is)" for k
  proof (cases "k = i")
    case True
    then show ?thesis using l here by simp
  next
    case False
    then have "k \<in> set is" using that by simp
    with len(2) other [OF this] show ?thesis by (metis nth_list_update_neq)
  qed
  moreover have "ls' ! r = ls ! r" if "r \<notin> (\<lambda>i. P ! i) ` set (i # is)" for r
    using len(3) that by (metis image_eqI list.set_intros(1) image_insert insertI2 list.simps(15) nth_list_update_neq)
  ultimately show ?case using len(1) by blast
qed simp


section \<open>Places of rules\<close>

lemma rule_positions_snoc:
  "rule_positions A (xs @ [x]) = rule_positions A xs @ (if A x then [length xs] else [])"
proof -
  have "filter (\<lambda>i. A ((xs @ [x]) ! i)) [0..<length xs] = filter (\<lambda>i. A (xs ! i)) [0..<length xs]"
    by (rule filter_cong) (auto simp: nth_append)
  then show ?thesis by (simp add: rule_positions_def)
qed

lemma map_rule_positions: "map ((!) xs) (rule_positions A xs) = filter A xs"
proof (induction xs rule: rev_induct)
  case (snoc x xs)
  have "map ((!) (xs @ [x])) (rule_positions A xs) = map ((!) xs) (rule_positions A xs)"
    by (simp add: rule_positions_def nth_append)
  with snoc show ?case by (simp add: rule_positions_snoc)
qed (simp add: rule_positions_def)

lemma length_rule_positions: "length (rule_positions A xs) = length (filter A xs)"
  using map_rule_positions [of xs A] by (metis length_map)

lemma distinct_rule_positions: "distinct (rule_positions A xs)"
  by (simp add: rule_positions_def)

lemma rule_positions_range: "r \<in> set (rule_positions A xs) \<Longrightarrow> r < length xs \<and> A (xs ! r)"
  by (simp add: rule_positions_def)

lemma rule_positions_nth:
  "k < length (filter A xs) \<Longrightarrow> rule_positions A xs ! k < length xs \<and> xs ! (rule_positions A xs ! k) = filter A xs ! k"
proof -
  assume k: "k < length (filter A xs)"
  then have "rule_positions A xs ! k \<in> set (rule_positions A xs)" by (simp add: length_rule_positions)
  with rule_positions_range show ?thesis
    by (metis k length_rule_positions map_rule_positions nth_map)
qed

lemma rule_positions_take:
  "k < length (filter A xs) \<Longrightarrow> filter A (take (rule_positions A xs ! k) xs) = take k (filter A xs)"
proof (induction xs rule: rev_induct)
  case (snoc x xs)
  show ?case
  proof (cases "k < length (filter A xs)")
    case True
    then show ?thesis
      using snoc.IH rule_positions_nth [of k A xs]
      by (simp add: rule_positions_snoc nth_append length_rule_positions)
  next
    case False
    then have "k = length (filter A xs)" "A x" using snoc.prems by (auto split: if_splits)
    then show ?thesis by (simp add: rule_positions_snoc nth_append length_rule_positions)
  qed
qed simp

lemma rule_positions_take_Suc:
  assumes "k < length (filter A xs)"
  shows "filter A (take (Suc (rule_positions A xs ! k)) xs) = take (Suc k) (filter A xs)"
proof -
  note n = rule_positions_nth [OF assms]
  have "A (filter A xs ! k)" using nth_mem [OF assms] by simp
  with n show ?thesis
    by (simp add: take_Suc_conv_app_nth rule_positions_take [OF assms] assms)
qed

lemma filter_drop: "filter A (drop m xs) = drop (length (filter A (take m xs))) (filter A xs)"
  by (metis append_eq_conv_conj append_take_drop_id filter_append)

lemma position_map: "position P (map g xs) = position (\<lambda>x. P (g x)) xs"
  by (induction xs) auto

lemma find_position: "find P xs = map_option ((!) xs) (position P xs)"
  by (induction xs) (auto simp: option.map_comp comp_def)

lemma position_less: "position P xs = Some i \<Longrightarrow> i < length xs \<and> P (xs ! i)"
  by (induction xs arbitrary: i) (auto split: if_splits)

lemma rule_positions_mono: "i \<le> k \<Longrightarrow> k < length (filter A xs) \<Longrightarrow> rule_positions A xs ! i \<le> rule_positions A xs ! k"
proof -
  have "sorted (rule_positions A xs)" by (simp add: rule_positions_def sorted_wrt_filter)
  then show "i \<le> k \<Longrightarrow> k < length (filter A xs) \<Longrightarrow> rule_positions A xs ! i \<le> rule_positions A xs ! k"
    by (simp add: sorted_nth_mono length_rule_positions)
qed


section \<open>The rewritten stack\<close>

lemma new_rules: "is_auth_rule preauth_line" "is_auth_rule authfail_line" "is_auth_rule authsucc_line"
  by code_simp+

text \<open>What the loop leaves: the same lines but for the raised jumps.\<close>

lemma raised_lines:
  assumes run: "raise_jumps dbg (rule_positions is_auth_rule ls) f [0..<f] ls = Ok ls'"
    and f: "f < length (filter is_auth_rule ls)"
  defines "R \<equiv> filter is_auth_rule ls" and "R' \<equiv> filter is_auth_rule ls'"
  shows "length ls' = length ls" and "rule_positions is_auth_rule ls' = rule_positions is_auth_rule ls"
    and "filter (\<lambda>l. \<not> is_auth_rule l) ls' = filter (\<lambda>l. \<not> is_auth_rule l) ls"
    and "length R' = length R" and "\<And>i. i < f \<Longrightarrow> raise_line dbg f i (R ! i) = Ok (R' ! i)"
    and "\<And>i. f \<le> i \<Longrightarrow> i < length R \<Longrightarrow> R' ! i = R ! i"
proof -
  let ?P = "rule_positions is_auth_rule ls"
  have "length ls' = length ls \<and> (\<forall>i\<in>set [0..<f]. raise_line dbg f i (ls ! (?P ! i)) = Ok (ls' ! (?P ! i))) \<and>
      (\<forall>r. r \<notin> (\<lambda>i. ?P ! i) ` set [0..<f] \<longrightarrow> ls' ! r = ls ! r)"
    by (rule raise_jumps_Ok [OF run distinct_rule_positions])
      (use f rule_positions_range [of _ is_auth_rule ls] in \<open>auto simp: length_rule_positions\<close>)
  then have len: "length ls' = length ls" and changed: "\<And>i. i < f \<Longrightarrow> raise_line dbg f i (ls ! (?P ! i)) = Ok (ls' ! (?P ! i))"
    and same: "\<And>r. r \<notin> (\<lambda>i. ?P ! i) ` {0..<f} \<Longrightarrow> ls' ! r = ls ! r"
    by auto
  have auth: "is_auth_rule (ls' ! r) = is_auth_rule (ls ! r)" if "r < length ls" for r
  proof (cases "r \<in> (\<lambda>i. ?P ! i) ` {0..<f}")
    case True
    then obtain i where i: "i < f" "r = ?P ! i" by auto
    have "is_auth_rule (ls ! r)"
      using rule_positions_range [of r is_auth_rule ls] i f by (auto simp: length_rule_positions)
    with raise_line_auth [OF changed [OF i(1)]] i show ?thesis by simp
  next
    case False
    then show ?thesis by (simp add: same)
  qed
  show "length ls' = length ls" by (rule len)
  show pos: "rule_positions is_auth_rule ls' = ?P"
    unfolding rule_positions_def len by (rule filter_cong) (auto simp: auth)
  show "filter (\<lambda>l. \<not> is_auth_rule l) ls' = filter (\<lambda>l. \<not> is_auth_rule l) ls"
  proof -
    have "map ((!) ls') (rule_positions (\<lambda>l. \<not> is_auth_rule l) ls') =
        map ((!) ls) (rule_positions (\<lambda>l. \<not> is_auth_rule l) ls)"
    proof -
      have "rule_positions (\<lambda>l. \<not> is_auth_rule l) ls' = rule_positions (\<lambda>l. \<not> is_auth_rule l) ls"
        unfolding rule_positions_def len by (rule filter_cong) (auto simp: auth)
      moreover have "ls' ! r = ls ! r" if "r \<in> set (rule_positions (\<lambda>l. \<not> is_auth_rule l) ls)" for r
      proof (rule same)
        show "r \<notin> (\<lambda>i. ?P ! i) ` {0..<f}"
        proof
          assume "r \<in> (\<lambda>i. ?P ! i) ` {0..<f}"
          then have "r \<in> set ?P" using f by (auto simp: length_rule_positions)
          with that show False by (auto simp: rule_positions_def)
        qed
      qed
      ultimately show ?thesis by simp
    qed
    then show ?thesis by (simp add: map_rule_positions)
  qed
  show RL: "length R' = length R"
    unfolding R_def R'_def by (simp add: length_rule_positions [symmetric] pos)
  have nth: "R ! i = ls ! (?P ! i)" "R' ! i = ls' ! (?P ! i)" if "i < length R" for i
    using that RL rule_positions_nth [of i is_auth_rule ls] rule_positions_nth [of i is_auth_rule ls'] pos
    by (simp_all add: R_def R'_def)
  show "raise_line dbg f i (R ! i) = Ok (R' ! i)" if "i < f" for i
    using changed [OF that] nth [of i] that f by (simp add: R_def)
  show "R' ! i = R ! i" if "f \<le> i" "i < length R" for i
  proof -
    have "?P ! i \<notin> (\<lambda>i. ?P ! i) ` {0..<f}"
    proof
      assume "?P ! i \<in> (\<lambda>i. ?P ! i) ` {0..<f}"
      then obtain k where "k < f" "?P ! i = ?P ! k" by auto
      then show False
        using that nth_eq_iff_index_eq [OF distinct_rule_positions [of is_auth_rule ls], of i k] f
        by (simp add: length_rule_positions R_def)
    qed
    with same nth [OF that(2)] show ?thesis by simp
  qed
qed


text \<open>The shape of the result when the \<open>authsucc\<close> rule of \<open>pam_faillock\<close> is not before its \<open>authfail\<close> rule.\<close>

text \<open>Cutting a list of lines at three rules: what becomes of the rules and of the other lines.\<close>

lemma filter_cuts:
  fixes xs :: "'a list"
  assumes "a \<le> b" "b \<le> c" and "filter P (take a xs) = []"
    and "filter P (take b xs) = take f R" "filter P (take c xs) = take t R" "R = filter P xs" "f \<le> t" "t \<le> length R"
    and "P x" "P y" "P z"
  shows "filter P (take a xs @ x # drop a (take b xs) @ y # drop b (take c xs) @ z # drop c xs) =
      x # take f R @ y # drop f (take t R) @ z # drop t R"
    and "filter (\<lambda>l. \<not> P l) (take a xs @ x # drop a (take b xs) @ y # drop b (take c xs) @ z # drop c xs) = filter (\<lambda>l. \<not> P l) xs"
proof -
  have "filter P (drop a (take b xs)) = take f R" "filter P (drop b (take c xs)) = drop f (take t R)"
    "filter P (drop c xs) = drop t R"
    using filter_drop [of P a "take b xs"] filter_drop [of P b "take c xs"] filter_drop [of P c xs] assms
    by (simp_all add: min_def)
  then show "filter P (take a xs @ x # drop a (take b xs) @ y # drop b (take c xs) @ z # drop c xs) =
      x # take f R @ y # drop f (take t R) @ z # drop t R" using assms by simp
  have "take b xs = take a xs @ drop a (take b xs)" "take c xs = take b xs @ drop b (take c xs)"
    using append_take_drop_id [of a "take b xs"] append_take_drop_id [of b "take c xs"] assms(1,2)
    by (simp_all add: min_def)
  then have "xs = take a xs @ drop a (take b xs) @ drop b (take c xs) @ drop c xs"
    by (metis append.assoc append_take_drop_id)
  then have "filter (\<lambda>l. \<not> P l) xs = filter (\<lambda>l. \<not> P l) (take a xs @ drop a (take b xs) @ drop b (take c xs) @ drop c xs)"
    by (rule arg_cong)
  then show "filter (\<lambda>l. \<not> P l) (take a xs @ x # drop a (take b xs) @ y # drop b (take c xs) @ z # drop c xs) =
      filter (\<lambda>l. \<not> P l) xs" using assms by simp
qed

lemma armed_shape:
  assumes run: "arm_pam_stack dbg content = Ok out"
    and R: "R = filter is_auth_rule (text_lines content)"
    and f: "position (is_faillock ''authfail'') R = Some f" and s: "position (is_faillock ''authsucc'') R = Some s"
    and fs: "f \<le> s"
  obtains L R' where "out = join ''\<newline>'' L @ ''\<newline>''"
    and "filter is_auth_rule L =
      preauth_line # take f R' @ authfail_line # drop f (take (Suc s) R') @ authsucc_line # drop (Suc s) R'"
    and "filter (\<lambda>l. \<not> is_auth_rule l) L = filter (\<lambda>l. \<not> is_auth_rule l) (text_lines content)"
    and "length R' = length R" and "\<And>i. i < f \<Longrightarrow> raise_line dbg f i (R ! i) = Ok (R' ! i)"
    and "\<And>i. f \<le> i \<Longrightarrow> i < length R \<Longrightarrow> R' ! i = R ! i"
proof -
  let ?ls = "text_lines content"
  let ?P = "rule_positions is_auth_rule ?ls"
  have len: "f < length R" "s < length R" using position_less [OF f] position_less [OF s] by simp_all
  have RP: "R = map ((!) ?ls) ?P" by (simp add: R map_rule_positions)
  have fP: "position (\<lambda>i. is_faillock ''authfail'' (?ls ! i)) ?P = Some f"
    using f unfolding RP position_map by simp
  have "find (\<lambda>i. is_faillock ''authsucc'' (?ls ! i)) ?P = Some (?P ! s)"
    using s unfolding RP position_map by (simp add: find_position)
  note parts = fP this
  have "?P \<noteq> []" using len by (auto simp: RP)
  obtain ls' where raised: "raise_jumps dbg ?P f [0..<f] ?ls = Ok ls'"
    and out: "out = join ''\<newline>'' (insert_at (hd ?P) preauth_line
      (insert_at ((if ?P ! s \<ge> ?P ! f then ?P ! s + 1 else ?P ! s) + 1) authsucc_line
        (insert_at (?P ! f) authfail_line ls'))) @ ''\<newline>''"
    using run \<open>?P \<noteq> []\<close> unfolding arm_pam_stack_def Let_def parts
    by (auto simp: ok_inv split: if_splits)
  let ?R' = "filter is_auth_rule ls'"
  have flen: "f < length (filter is_auth_rule ?ls)" using len R by simp
  note keep = raised_lines [OF raised flen]
  have ord: "?P ! f \<le> ?P ! s" using rule_positions_mono [OF fs] len R by simp
  have first: "hd ?P = ?P ! 0" "?P ! 0 \<le> ?P ! f"
    using \<open>?P \<noteq> []\<close> rule_positions_mono [of 0 f is_auth_rule ?ls] len R by (simp_all add: hd_conv_nth)
  let ?a = "?P ! 0" and ?b = "?P ! f" and ?c = "Suc (?P ! s)"
  have range: "?P ! s < length ls'" "?P ! f < length ls'"
    using rule_positions_nth [of s is_auth_rule ?ls] rule_positions_nth [of f is_auth_rule ?ls] len R keep(1)
    by simp_all
  have two: "insert_at (Suc ?c) authsucc_line (insert_at ?b authfail_line ls') =
      take ?b ls' @ authfail_line # drop ?b (take ?c ls') @ authsucc_line # drop ?c ls'"
    using ord range by (simp add: insert_at_def min_def drop_take Suc_diff_le)
  have three: "insert_at ?a preauth_line (take ?b ls' @ x) = take ?a ls' @ preauth_line # drop ?a (take ?b ls') @ x" for x
    using first(2) range by (simp add: insert_at_def min_def)
  define L where "L = take ?a ls' @ preauth_line # drop ?a (take ?b ls') @ authfail_line #
      drop ?b (take ?c ls') @ authsucc_line # drop ?c ls'"
  have outL: "out = join ''\<newline>'' L @ ''\<newline>''"
    unfolding out L_def first(1) using ord by (simp add: two three)
  have "R \<noteq> []" using len by auto
  have lenR': "length ?R' = length R" using keep(4) R by simp
  have takes: "filter is_auth_rule (take ?a ls') = []" "filter is_auth_rule (take ?b ls') = take f ?R'"
    "filter is_auth_rule (take ?c ls') = take (Suc s) ?R'"
    using rule_positions_take [of 0 is_auth_rule ls'] rule_positions_take [of f is_auth_rule ls']
      rule_positions_take_Suc [of s is_auth_rule ls'] len lenR' keep(2) \<open>R \<noteq> []\<close> by simp_all
  note cuts = filter_cuts [OF first(2) _ takes(1,2,3) refl _ _ new_rules]
  have filt: "filter is_auth_rule L =
      preauth_line # take f ?R' @ authfail_line # drop f (take (Suc s) ?R') @ authsucc_line # drop (Suc s) ?R'"
    and rest: "filter (\<lambda>l. \<not> is_auth_rule l) L = filter (\<lambda>l. \<not> is_auth_rule l) ls'"
    unfolding L_def by (rule cuts; use ord fs len lenR' in simp)+
  show thesis
    by (rule that [OF outL filt]) (use rest keep lenR' R in simp_all)
qed


text \<open>A release build accepts exactly the layouts it knows.\<close>

lemma raise_line_release: "\<exists>l. raise_line False f i line = Ok l"
proof (cases "success_jump line")
  case (Some j)
  then show ?thesis using replaced_jump [OF Some, of "j + 1"] by (auto simp: raise_line_def add_checked_def)
qed (simp add: raise_line_def)

lemma raise_jumps_release: "\<exists>ls'. raise_jumps False P f is ls = Ok ls'"
proof (induction "is" arbitrary: ls)
  case (Cons i "is")
  obtain l where "raise_line False f i (ls ! (P ! i)) = Ok l" using raise_line_release by blast
  then show ?case using Cons.IH by (simp add: Let_def)
qed simp

lemma arm_pam_stack_accepts:
  assumes R: "R = filter is_auth_rule (text_lines content)" and "\<not> contains content ARM_MARKER"
    and u: "position (\<lambda>l. contains l ''pam_unix.so'') R = Some u" and f: "position (is_faillock ''authfail'') R = Some f"
    and s: "position (is_faillock ''authsucc'') R = Some s" and "u < f"
  shows "\<exists>out. arm_pam_stack False content = Ok out"
proof -
  let ?ls = "text_lines content"
  let ?P = "rule_positions is_auth_rule ?ls"
  have RP: "R = map ((!) ?ls) ?P" by (simp add: R map_rule_positions)
  have "?P \<noteq> []" using position_less [OF u] by (auto simp: RP)
  moreover have "position (\<lambda>i. contains (?ls ! i) ''pam_unix.so'') ?P = Some u"
    "position (\<lambda>i. is_faillock ''authfail'' (?ls ! i)) ?P = Some f"
    "find (\<lambda>i. is_faillock ''authsucc'' (?ls ! i)) ?P = Some (?P ! s)"
    using u f s unfolding RP position_map by (simp_all add: find_position)
  moreover obtain ls' where "raise_jumps False ?P f [0..<f] ?ls = Ok ls'" using raise_jumps_release by blast
  ultimately show ?thesis using assms(2,6) by (simp add: arm_pam_stack_def Let_def del: upt_Suc)
qed

lemma inserted_nth:
  assumes N: "N = x # take f R' @ y # drop f (take (Suc s) R') @ z # drop (Suc s) R'"
    and len: "s < length R'" "f \<le> s"
  shows "length N = length R' + 3" "N ! 0 = x" "N ! (f + 1) = y" "N ! (s + 3) = z"
    and "i < f \<Longrightarrow> N ! (i + 1) = R' ! i"
    and "f \<le> i \<Longrightarrow> i \<le> s \<Longrightarrow> N ! (i + 2) = R' ! i"
    and "s < i \<Longrightarrow> i < length R' \<Longrightarrow> N ! (i + 3) = R' ! i"
proof -
  have "min (length R') (Suc s) = Suc s" "min (length R') f = f" "\<not> Suc s - f < Suc s - f" using len by simp_all
  then show "length N = length R' + 3" "N ! 0 = x" "N ! (f + 1) = y" "N ! (s + 3) = z"
    using len by (simp_all add: N nth_append numeral_3_eq_3)
  show "i < f \<Longrightarrow> N ! (i + 1) = R' ! i" using len by (simp add: N nth_append)
  show "N ! (i + 2) = R' ! i" if "f \<le> i" "i \<le> s"
  proof -
    have "i - f < Suc (s - f)" "i - f < length R' - f" using that len by auto
    then show ?thesis using that len by (simp add: N nth_append min_def Suc_diff_le)
  qed
  show "N ! (i + 3) = R' ! i" if "s < i" "i < length R'"
  proof -
    have "i + 3 - (Suc (Suc f) + (Suc s - f)) = Suc (i - Suc s)" using that len by simp
    moreover have "\<not> Suc i - f < Suc s - f" using that len by auto
    ultimately show ?thesis using that len by (simp add: N nth_append min_def numeral_3_eq_3)
  qed
qed

section \<open>Properties\<close>


text \<open>The stack of a stock Arch system.\<close>

definition arch_system_auth :: "string list" where
  "arch_system_auth =
    [''#%PAM-1.0'',
     ''auth       required                    pam_faillock.so      preauth'',
     ''-auth      [success=2 default=ignore]  pam_systemd_home.so'',
     ''auth       [success=1 default=bad]     pam_unix.so          try_first_pass nullok'',
     ''auth       [default=die]               pam_faillock.so      authfail'',
     ''auth       optional                    pam_permit.so'',
     ''auth       required                    pam_env.so'',
     ''auth       required                    pam_faillock.so      authsucc'',
     ''account    required                    pam_unix.so'']"


lemma arch_rules: "filter is_auth_rule arch_system_auth = tl (butlast arch_system_auth)"
  by code_simp

lemma arch_unix: "position (\<lambda>l. contains l ''pam_unix.so'') (tl (butlast arch_system_auth)) = Some 2"
  by code_simp

lemma arch_authfail: "position (is_faillock ''authfail'') (tl (butlast arch_system_auth)) = Some 3"
  by code_simp

lemma arch_authsucc: "position (is_faillock ''authsucc'') (tl (butlast arch_system_auth)) = Some 6"
  by code_simp

lemma arch_unmarked: "\<not> contains (join ''\<newline>'' arch_system_auth @ ''\<newline>'') ARM_MARKER"
  by code_simp

lemma show_one: "show_word (1 :: u64) = ''1''"
proof -
  have "char_of (49 :: nat) = CHR ''1''" by code_simp
  then show ?thesis by (simp add: show_word_def show_nat_small digit_char_def)
qed


end
