(* ===== verification/Arm.thy ===== *)
theory Arm
  imports Ctl_State Pam_Stack
begin

text \<open>
  \<open>dsctl arm\<close> and \<open>dsctl disarm\<close>: the checks before arming, the transaction that writes the state on the
  ESP, the marker, the initramfs and, last, the PAM stack, and the rollback of both when a step fails.
\<close>

section \<open>Places\<close>

definition SYSTEM_AUTH :: string where "SYSTEM_AUTH = ''/etc/pam.d/system-auth''"

abbreviation auth_path :: path where "auth_path \<equiv> components SYSTEM_AUTH"
abbreviation backup_path :: path where "backup_path \<equiv> components (SYSTEM_AUTH @ ''.deathstr0ke.bak'')"
abbreviation marker_path :: path where "marker_path \<equiv> components ARMED_MARKER"
abbreviation esp_path :: "string \<Rightarrow> path" where "esp_path name \<equiv> components ESP_STATE_DIR @ [name]"

section \<open>State on the ESP\<close>

definition sync_esp_state :: "string \<Rightarrow> policy \<Rightarrow> u8 \<Rightarrow> u8 \<Rightarrow> ('x, unit) io" where
  "sync_esp_state verifier cfg daily recovery =
    bnd (ctx ''create'' (create_dir_all (components ESP_STATE_DIR))) (\<lambda>_.
    bnd (atomic_write (esp_path ''duress.hash'') verifier 384) (\<lambda>_.
    bnd (atomic_write (esp_path ''config'') (policy_text cfg) 384) (\<lambda>_.
    bnd (atomic_write (esp_path ''counter'') ''0\<newline>'' 384) (\<lambda>_.
    bnd (atomic_write (esp_path ''daily.slot'') (show_word daily @ ''\<newline>'') 384) (\<lambda>_.
    atomic_write (esp_path ''recovery.slot'') (show_word recovery @ ''\<newline>'') 384)))))"

fun snapshot :: "path list \<Rightarrow> ('x, (path \<times> string option) list) io" where
  "snapshot [] = ret []"
| "snapshot (p # ps) =
    bnd (attempt (fs_read p)) (\<lambda>r.
    bnd (case r of
        Inr data \<Rightarrow> ret (Some data)
      | Inl e \<Rightarrow> if e = NotFound then ret None else bail ''snapshot'') (\<lambda>old.
    bnd (snapshot ps) (\<lambda>rest. ret ((p, old) # rest))))"

definition esp_names :: "string list" where
  "esp_names = [''duress.hash'', ''config'', ''counter'', ''daily.slot'', ''recovery.slot'', ''armed'']"

definition restore_entry :: "path \<times> string option \<Rightarrow> ('x, unit) io" where
  "restore_entry e =
    (case e of (p, Some data) \<Rightarrow> atomic_write p data 384 | (p, None) \<Rightarrow> remove_if_exists p)"

text \<open>The steps of a rollback: each is tried whatever became of the others, and failures are counted.\<close>

fun try_all :: "('x, unit) io list \<Rightarrow> ('x, nat) io" where
  "try_all [] = ret 0"
| "try_all (m # ms) =
    bnd (attempt m) (\<lambda>r.
    bnd (try_all ms) (\<lambda>n. ret (case r of Inl _ \<Rightarrow> Suc n | Inr _ \<Rightarrow> n)))"

section \<open>Arming\<close>

definition audit_slots :: "string \<Rightarrow> u8 \<Rightarrow> u8 \<Rightarrow> ('x, unit) io" where
  "audit_slots target daily_slot recovery_slot =
    bnd (luks_keyslots target) (\<lambda>slots.
    bnd (require (daily_slot \<in> slots \<and> recovery_slot \<in> slots) ''recorded daily/recovery slots are not both active'') (\<lambda>_.
    bnd read_known_slots (\<lambda>known.
    bnd (if daily_slot \<notin> known \<or> recovery_slot \<notin> known then
           bnd (write_known_slots (known \<union> {daily_slot, recovery_slot})) (\<lambda>_. ret (known \<union> {daily_slot, recovery_slot}))
         else ret known) (\<lambda>known.
    require (slots - known = {}) ''refusing to arm: active keyslots NOT recorded by dsctl''))))"

definition arm_commit :: "string \<Rightarrow> policy \<Rightarrow> u8 \<Rightarrow> u8 \<Rightarrow> string \<Rightarrow> nat \<Rightarrow> ('x, unit) io" where
  "arm_commit verifier cfg daily_slot recovery_slot updated mode =
    bnd (sync_esp_state verifier cfg daily_slot recovery_slot) (\<lambda>_.
    bnd (atomic_write marker_path ''armed=1\<newline>'' 384) (\<lambda>_.
    bnd ensure_deathstroke_hook_before_encrypt (\<lambda>_.
    bnd (run_checked ''mkinitcpio'' [''-P'']) (\<lambda>_.
    bnd (atomic_write (esp_path ''armed'') ''armed=1\<newline>'' 384) (\<lambda>_.
    atomic_write auth_path updated mode)))))"

definition restore_mkinitcpio :: "string \<Rightarrow> ('x, unit) io" where
  "restore_mkinitcpio original =
    bnd (attempt (metadata MKINITCPIO_CONF)) (\<lambda>m.
    atomic_write MKINITCPIO_CONF original (case m of Inr n \<Rightarrow> mode_bits n | Inl _ \<Rightarrow> 420))"

definition arm_rollback :: "string \<Rightarrow> nat \<Rightarrow> string \<Rightarrow> (path \<times> string option) list \<Rightarrow> ('x, nat) io" where
  "arm_rollback content mode mkinit_original esp_snapshot =
    try_all ([atomic_write auth_path content mode, restore_mkinitcpio mkinit_original, remove_if_exists marker_path] @
      map restore_entry esp_snapshot @ [run_checked ''mkinitcpio'' [''-P'']])"

definition reseal_boot_best_effort :: "('x, unit) io" where
  "reseal_boot_best_effort =
    bnd (path_is_file (components ''/usr/lib/arxos/deathstroke/ds-seal-boot'')) (\<lambda>a.
    bnd (if a then ret ''/usr/lib/arxos/deathstroke/ds-seal-boot''
         else
           bnd (path_is_file (components ''/usr/local/bin/ds-seal-boot'')) (\<lambda>b.
           ret (if b then ''/usr/local/bin/ds-seal-boot'' else ''ds-seal-boot''))) (\<lambda>sealer.
    bnd (run_cmd ''ukify'' [''--version''] []) (\<lambda>c.
    if \<not> cmd_success c then ret ()
    else bnd (run_cmd sealer [''--reseal-only''] []) (\<lambda>_. ret ()))))"

text \<open>What follows the checks: backup, snapshots, transaction, rollback, seal.\<close>

definition arm_transaction :: "string \<Rightarrow> policy \<Rightarrow> u8 \<Rightarrow> u8 \<Rightarrow> string \<Rightarrow> ('x, unit) io" where
  "arm_transaction verifier cfg daily_slot recovery_slot content =
    bnd (ask w_debug) (\<lambda>dbg.
    bnd (lift (arm_pam_stack dbg content)) (\<lambda>updated.
    bnd (metadata auth_path) (\<lambda>meta.
    let mode = mode_bits meta in
    bnd (atomic_write backup_path content mode) (\<lambda>_.
    bnd (ctx ''snapshot mkinitcpio.conf'' (fs_read MKINITCPIO_CONF)) (\<lambda>mkinit_original.
    bnd (snapshot (map esp_path esp_names)) (\<lambda>esp_snapshot.
    bnd (attempt (arm_commit verifier cfg daily_slot recovery_slot updated mode)) (\<lambda>result.
    case result of
      Inr _ \<Rightarrow> reseal_boot_best_effort
    | Inl e \<Rightarrow>
        bnd (arm_rollback content mode mkinit_original esp_snapshot) (\<lambda>errors.
        if errors > 0 then bail ''arm failed; rollback INCOMPLETE''
        else bail ''arm transaction rolled back''))))))))"

definition arm :: "('x, unit) io" where
  "arm =
    bnd require_root (\<lambda>_.
    bnd guard_disposable (\<lambda>_.
    bnd (path_exists (components PAM_MODULE)) (\<lambda>m.
    bnd (require m ''PAM module not deployed'') (\<lambda>_.
    bnd (ask duress_hash_path) (\<lambda>vp.
    bnd (ctx ''read duress verifier'' (read_to_string vp)) (\<lambda>verifier.
    bnd (ctx ''invalid duress verifier'' (lift (parse_verifier verifier))) (\<lambda>_.
    bnd read_policy (\<lambda>cfg.
    bnd (lift (validate_policy cfg)) (\<lambda>_.
    bnd configured_target (\<lambda>t.
    bnd (lift (some_or ''no verified recovery target; run enroll-recovery'' t)) (\<lambda>target.
    bnd (validate_luks_device target) (\<lambda>_.
    bnd (read_slot ''daily.slot'') (\<lambda>daily_slot.
    bnd (read_slot ''recovery.slot'') (\<lambda>recovery_slot.
    bnd (require (daily_slot \<noteq> recovery_slot) ''daily and recovery slots must differ'') (\<lambda>_.
    bnd (audit_slots target daily_slot recovery_slot) (\<lambda>_.
    bnd (ctx ''read system-auth'' (read_to_string auth_path)) (\<lambda>content.
    bnd (path_is_file marker_path) (\<lambda>local_marker.
    bnd (path_is_file (esp_path ''armed'')) (\<lambda>esp_marker.
    if contains content ARM_MARKER then
      (if local_marker \<and> esp_marker then ret ()
       else bail ''PAM is marked armed but initramfs/ESP authorization markers are inconsistent'')
    else if local_marker \<or> esp_marker then bail ''authorization marker exists while PAM is unarmed''
    else arm_transaction verifier cfg daily_slot recovery_slot content)))))))))))))))))))"

section \<open>Disarming\<close>

definition disarm_commit :: "string option \<Rightarrow> nat \<Rightarrow> ('x, unit) io" where
  "disarm_commit backup mode =
    bnd (case backup of Some original \<Rightarrow> atomic_write auth_path original mode | None \<Rightarrow> ret ()) (\<lambda>_.
    bnd (remove_if_exists marker_path) (\<lambda>_.
    bnd (remove_if_exists (esp_path ''armed'')) (\<lambda>_.
    bnd remove_deathstroke_hook (\<lambda>_.
    run_checked ''mkinitcpio'' [''-P'']))))"

definition disarm_rollback ::
  "string \<Rightarrow> nat \<Rightarrow> string \<Rightarrow> nat \<Rightarrow> bool \<Rightarrow> bool \<Rightarrow> bool \<Rightarrow> ('x, nat) io" where
  "disarm_rollback content mode mkinit_original mkinit_mode local_was_armed esp_was_armed with_backup =
    try_all ([atomic_write MKINITCPIO_CONF mkinit_original mkinit_mode] @
      (if local_was_armed then [atomic_write marker_path ''armed=1\<newline>'' 384] else []) @
      (if esp_was_armed then [atomic_write (esp_path ''armed'') ''armed=1\<newline>'' 384] else []) @
      (if with_backup then [atomic_write auth_path content mode] else []) @
      [run_checked ''mkinitcpio'' [''-P'']])"

definition disarm :: "('x, unit) io" where
  "disarm =
    bnd require_root (\<lambda>_.
    bnd (ctx ''read system-auth'' (read_to_string auth_path)) (\<lambda>content.
    bnd (if contains content ARM_MARKER
         then bnd (ctx ''PAM backup missing; refusing a partial disarm'' (read_to_string backup_path)) (\<lambda>b. ret (Some b))
         else ret None) (\<lambda>backup.
    bnd (metadata auth_path) (\<lambda>meta.
    let mode = mode_bits meta in
    bnd (ctx ''snapshot mkinitcpio.conf'' (fs_read MKINITCPIO_CONF)) (\<lambda>mkinit_original.
    bnd (metadata MKINITCPIO_CONF) (\<lambda>mkinit_meta.
    bnd (path_is_file marker_path) (\<lambda>local_was_armed.
    bnd (path_is_file (esp_path ''armed'')) (\<lambda>esp_was_armed.
    bnd (attempt (disarm_commit backup mode)) (\<lambda>result.
    case result of
      Inr _ \<Rightarrow>
        (if backup \<noteq> None then ctx ''remove PAM backup'' (remove_file backup_path) else ret ())
    | Inl e \<Rightarrow>
        bnd (disarm_rollback content mode mkinit_original (mode_bits mkinit_meta) local_was_armed esp_was_armed
          (backup \<noteq> None)) (\<lambda>errors.
        if errors > 0 then bail ''disarm failed; rollback INCOMPLETE''
        else bail ''disarm failed; armed PAM, markers, and initramfs restored''))))))))))"

end
