(* ===== verification/Artefacts.thy ===== *)
theory Artefacts
  imports Arm
begin

text \<open>
  The files that make a machine armed, seen as a small map from paths to contents. The locale states
  what the transactions of \<open>dsctl\<close> ask of it: writing and removing one entry, which may fail and then
  leaves the other entries alone; the rollback is proved once inside it, and \<open>atomic_write\<close> and
  \<open>remove_if_exists\<close> on the nine files of \<open>arm\<close> are an interpretation.
\<close>

section \<open>The interface\<close>

locale artefact_store =
  fixes inv :: "'x world \<Rightarrow> bool" and data :: "'x world \<Rightarrow> path \<rightharpoonup> string" and places :: "path set"
    and put :: "path \<Rightarrow> string \<Rightarrow> nat \<Rightarrow> ('x, unit) io" and del :: "path \<Rightarrow> ('x, unit) io"
  assumes put: "p \<in> places \<Longrightarrow> inv w \<Longrightarrow>
      wp (put p text md) (\<lambda>r w'. inv w' \<and> (\<forall>q. q \<noteq> p \<longrightarrow> data w' q = data w q) \<and>
        (r = Ok () \<longrightarrow> data w' p = Some text)) w"
    and del: "p \<in> places \<Longrightarrow> inv w \<Longrightarrow>
      wp (del p) (\<lambda>r w'. inv w' \<and> (\<forall>q. q \<noteq> p \<longrightarrow> data w' q = data w q) \<and>
        (r = Ok () \<longrightarrow> data w' p = None) \<and> data w' p \<in> {None, data w p}) w"
    and inv_sched: "inv w \<Longrightarrow> inv (w\<lparr>w_sched := ss\<rparr>)"
    and data_sched: "data (w\<lparr>w_sched := ss\<rparr>) = data w"
begin

text \<open>
  An operation that may change the entries in \<open>ps\<close> only and, when it succeeds, has changed the map as
  \<open>F\<close> does.
\<close>

definition makes :: "path set \<Rightarrow> ((path \<rightharpoonup> string) \<Rightarrow> path \<rightharpoonup> string) \<Rightarrow> ('x, unit) io \<Rightarrow> bool" where
  "makes ps F m \<longleftrightarrow> (\<forall>w. inv w \<longrightarrow>
    wp m (\<lambda>r w'. inv w' \<and> (\<forall>q. q \<notin> ps \<longrightarrow> data w' q = data w q) \<and> (r = Ok () \<longrightarrow> data w' = F (data w))) w)"

lemma makesD:
  "makes ps F m \<Longrightarrow> inv w \<Longrightarrow>
    wp m (\<lambda>r w'. inv w' \<and> (\<forall>q. q \<notin> ps \<longrightarrow> data w' q = data w q) \<and> (r = Ok () \<longrightarrow> data w' = F (data w))) w"
  by (simp add: makes_def)

lemma makes_weaken: "makes ps F m \<Longrightarrow> ps \<subseteq> qs \<Longrightarrow> (\<And>d. F d = G d) \<Longrightarrow> makes qs G m"
  unfolding makes_def by (intro allI impI) (rule wp_mono, blast, auto)

lemma makes_put: "p \<in> places \<Longrightarrow> makes {p} (\<lambda>d. d(p \<mapsto> text)) (put p text md)"
  unfolding makes_def by (intro allI impI) (rule wp_mono [OF put], auto)

lemma makes_del: "p \<in> places \<Longrightarrow> makes {p} (\<lambda>d. d(p := None)) (del p)"
  unfolding makes_def by (intro allI impI) (rule wp_mono [OF del], auto)

lemma makes_ret: "makes {} (\<lambda>d. d) (ret ())"
  by (simp add: makes_def wp_rules)

lemma makes_bnd:
  assumes m: "makes ps F m" and n: "makes qs G n"
  shows "makes (ps \<union> qs) (\<lambda>d. G (F d)) (bnd m (\<lambda>_. n))"
  unfolding makes_def
proof (intro allI impI)
  fix w assume "inv w"
  from makesD [OF m this]
  show "wp (bnd m (\<lambda>_. n)) (\<lambda>r w'. inv w' \<and> (\<forall>q. q \<notin> ps \<union> qs \<longrightarrow> data w' q = data w q) \<and>
      (r = Ok () \<longrightarrow> data w' = G (F (data w)))) w"
    by (rule wp_bndI) (rule wp_mono [OF makesD [OF n]], auto)
qed

text \<open>An operation that changes the entries in \<open>ps\<close> by removing them only, also when it fails.\<close>

definition shrinks :: "path set \<Rightarrow> ('x, unit) io \<Rightarrow> bool" where
  "shrinks ps m \<longleftrightarrow> (\<forall>w. inv w \<longrightarrow> wp m (\<lambda>r w'. inv w' \<and> (\<forall>q\<in>ps. data w' q \<in> {None, data w q})) w)"

lemma shrinks_makes: "makes ps F m \<Longrightarrow> ps \<inter> qs = {} \<Longrightarrow> shrinks qs m"
  unfolding shrinks_def by (intro allI impI) (rule wp_mono [OF makesD], assumption+, blast)

lemma shrinks_del:
  assumes "p \<in> places"
  shows "shrinks qs (del p)"
  unfolding shrinks_def
proof (intro allI impI)
  fix w assume "inv w"
  from del [OF assms this] show "wp (del p) (\<lambda>r w'. inv w' \<and> (\<forall>q\<in>qs. data w' q \<in> {None, data w q})) w"
    by (rule wp_mono) (metis insertCI)
qed

lemma shrinks_bnd:
  assumes m: "shrinks ps m" and n: "shrinks ps n"
  shows "shrinks ps (bnd m (\<lambda>_. n))"
  unfolding shrinks_def
proof (intro allI impI)
  fix w assume "inv w"
  with m have "wp m (\<lambda>r w'. inv w' \<and> (\<forall>q\<in>ps. data w' q \<in> {None, data w q})) w" by (simp add: shrinks_def)
  then show "wp (bnd m (\<lambda>_. n)) (\<lambda>r w'. inv w' \<and> (\<forall>q\<in>ps. data w' q \<in> {None, data w q})) w"
  proof (rule wp_bndI)
    fix a and v :: "'x world" assume v: "inv v \<and> (\<forall>q\<in>ps. data v q \<in> {None, data w q})"
    with n have "wp n (\<lambda>r w'. inv w' \<and> (\<forall>q\<in>ps. data w' q \<in> {None, data v q})) v" by (simp add: shrinks_def)
    then show "wp n (\<lambda>r w'. inv w' \<and> (\<forall>q\<in>ps. data w' q \<in> {None, data w q})) v"
      by (rule wp_mono) (use v in \<open>fastforce\<close>)
  qed (use assms in auto)
qed

lemma makes_after_reading:
  assumes "keeps only_sched m" and "\<And>a. makes ps F (f a)"
  shows "makes ps F (bnd m f)"
  unfolding makes_def
proof (intro allI impI)
  fix w assume w: "inv w"
  show "wp (bnd m f) (\<lambda>r w'. inv w' \<and> (\<forall>q. q \<notin> ps \<longrightarrow> data w' q = data w q) \<and> (r = Ok () \<longrightarrow> data w' = F (data w))) w"
    by (rule wp_bnd_reading [OF assms(1)])
      (use makesD [OF assms(2) inv_sched [OF w]] in \<open>simp_all add: data_sched inv_sched w\<close>)
qed

text \<open>
  A rollback is a list of steps, each about one entry and with the value the entry has to get. When no
  step reported an error, every entry has its value.
\<close>

definition resets :: "(path \<times> string option) \<times> ('x, unit) io \<Rightarrow> bool" where
  "resets z \<longleftrightarrow> makes {fst (fst z)} (\<lambda>d. d(fst (fst z) := snd (fst z))) (snd z)"

lemma resets_put: "p \<in> places \<Longrightarrow> resets ((p, Some text), put p text md)"
  by (simp add: resets_def makes_put)

lemma resets_del: "p \<in> places \<Longrightarrow> resets ((p, None), del p)"
  by (simp add: resets_def makes_del)

lemma try_all_resets:
  "\<forall>z\<in>set zs. resets z \<Longrightarrow> distinct (map (fst \<circ> fst) zs) \<Longrightarrow> inv w \<Longrightarrow>
    wp (try_all (map snd zs)) (\<lambda>r w'. inv w' \<and> (\<forall>e. r \<noteq> Err e) \<and>
      (\<forall>q. q \<notin> set (map (fst \<circ> fst) zs) \<longrightarrow> data w' q = data w q) \<and>
      (r = Ok 0 \<longrightarrow> (\<forall>((p, x), m)\<in>set zs. data w' p = x))) w"
proof (induction zs arbitrary: w)
  case Nil
  then show ?case by (simp add: wp_rules)
next
  case (Cons z zs)
  obtain p x m where z: "z = ((p, x), m)" by (cases z) auto
  have m: "wp m (\<lambda>r w'. inv w' \<and> (\<forall>q. q \<noteq> p \<longrightarrow> data w' q = data w q) \<and> (r = Ok () \<longrightarrow> data w' p = x)) w"
    using Cons.prems(1,3) by (auto simp: resets_def z intro!: wp_mono [OF makesD])
  have rest: "wp (try_all (map snd zs)) (\<lambda>r w'. inv w' \<and> (\<forall>e. r \<noteq> Err e) \<and>
      (\<forall>q. q \<notin> set (map (fst \<circ> fst) zs) \<longrightarrow> data w' q = data v q) \<and>
      (r = Ok 0 \<longrightarrow> (\<forall>((p, x), m)\<in>set zs. data w' p = x))) v" if "inv v" for v
    by (rule Cons.IH) (use Cons.prems that in auto)
  have p: "p \<notin> set (map (fst \<circ> fst) zs)" using Cons.prems(2) by (simp add: z)
  let ?Q = "\<lambda>r w'. inv w' \<and> (\<forall>e. r \<noteq> Err e) \<and> (\<forall>q. q \<notin> set (map (fst \<circ> fst) (((p, x), m) # zs)) \<longrightarrow> data w' q = data w q) \<and>
      (r = Ok 0 \<longrightarrow> (\<forall>((p, x), m)\<in>set (((p, x), m) # zs). data w' p = x))"
  have after: "wp (bnd (try_all (map snd zs)) (\<lambda>n. ret (case s of Inl _ \<Rightarrow> Suc n | Inr _ \<Rightarrow> n))) ?Q v"
    if v: "inv v" "\<forall>q. q \<noteq> p \<longrightarrow> data v q = data w q" and s: "s = Inr () \<Longrightarrow> data v p = x" for s :: "err + unit" and v
  proof (rule wp_bndI [OF rest [OF v(1)]])
    fix n :: nat and u :: "'x world"
    assume u: "inv u \<and> (\<forall>e. Ok n \<noteq> Err e) \<and> (\<forall>q. q \<notin> set (map (fst \<circ> fst) zs) \<longrightarrow> data u q = data v q) \<and>
      (Ok n = Ok 0 \<longrightarrow> (\<forall>((p, x), m)\<in>set zs. data u p = x))"
    have "data u p = x" if "s = Inr k" for k using u s that p by simp
    then show "wp (ret (case s of Inl _ \<Rightarrow> Suc n | Inr _ \<Rightarrow> n)) ?Q u"
      using u v(2) by (cases s) (auto simp: wp_rules)
  qed (use v in auto)
  have "wp (try_all (m # map snd zs)) ?Q w"
    unfolding try_all.simps wp_bnd wp_attempt
  proof (rule wp_mono [OF m])
    fix r and v :: "'x world"
    assume v: "inv v \<and> (\<forall>q. q \<noteq> p \<longrightarrow> data v q = data w q) \<and> (r = Ok () \<longrightarrow> data v p = x)"
    show "attempt_post (then_post (\<lambda>r. bnd (try_all (map snd zs)) (\<lambda>n. ret (case r of Inl _ \<Rightarrow> Suc n | Inr _ \<Rightarrow> n))) ?Q) r v"
    proof (cases r)
      case (Ok k)
      then show ?thesis using after [of v "Inr ()"] v by (simp only: attempt_post_simps then_post_simps unit_eq [of k]) blast
    next
      case (Err e)
      then show ?thesis using after [of v "Inl e"] v by (simp only: attempt_post_simps then_post_simps sum.distinct) blast
    next
      case (Halt h)
      then show ?thesis using v by (auto simp: wp_rules)
    qed
  qed
  then show ?case by (simp only: z list.map snd_conv)
qed

text \<open>
  A transaction: when it does not end with the error that says the rollback is incomplete, it has
  either been carried out or left the map as it was, but for entries that the rollback does not know
  and that may be gone.
\<close>

lemma transaction:
  assumes m: "makes ps F m" "shrinks (ps - set (map (fst \<circ> fst) zs)) m"
    and zs: "\<forall>z\<in>set zs. resets z" "distinct (map (fst \<circ> fst) zs)"
    and before: "\<And>p x n. ((p, x), n) \<in> set zs \<Longrightarrow> x = d p" and w: "inv w" "data w = d"
    and k: "\<And>v. inv v \<Longrightarrow> data v = F d \<Longrightarrow> wp k Q v"
    and incomplete: "\<And>v. Q (Err (Msg A)) v"
    and restored: "\<And>v. \<forall>q. data v q = d q \<or> q \<in> ps - set (map (fst \<circ> fst) zs) \<and> data v q = None \<Longrightarrow> Q (Err (Msg B)) v"
    and halt: "\<And>h v. Q (Halt h) v"
  shows "wp (bnd (attempt m) (\<lambda>r. case r of Inr _ \<Rightarrow> k
    | Inl e \<Rightarrow> bnd (try_all (map snd zs)) (\<lambda>n. if n > 0 then bail A else bail B))) Q w"
  unfolding wp_bnd [of "attempt m"] wp_attempt
proof (rule wpI)
  fix r v assume run: "m w = (r, v)"
  let ?ks = "set (map (fst \<circ> fst) zs)"
  have v: "inv v" "\<forall>q. q \<notin> ps \<longrightarrow> data v q = d q" "r = Ok () \<longrightarrow> data v = F d"
    using wpD [OF makesD [OF m(1) w(1)] run] w(2) by auto
  have gone: "\<forall>q\<in>ps - ?ks. data v q \<in> {None, d q}"
    using wpD [OF m(2) [unfolded shrinks_def, rule_format, OF w(1)] run] w(2) by auto
  have roll: "wp (bnd (try_all (map snd zs)) (\<lambda>n. if n > 0 then bail A else bail B)) Q v"
  proof (rule wp_bndI [OF try_all_resets [OF zs v(1)]])
    fix n :: nat and u :: "'x world"
    assume u: "inv u \<and> (\<forall>e. Ok n \<noteq> Err e) \<and> (\<forall>q. q \<notin> ?ks \<longrightarrow> data u q = data v q) \<and>
      (Ok n = Ok 0 \<longrightarrow> (\<forall>((p, x), m)\<in>set zs. data u p = x))"
    have "data u q = d q \<or> q \<in> ps - ?ks \<and> data u q = None" if n: "n = 0" for q
    proof (cases "q \<in> ?ks")
      case True
      then obtain x y where "((q, x), y) \<in> set zs" by auto
      then show ?thesis using before u n by fastforce
    next
      case False
      then have "data u q = data v q" using u by blast
      moreover have "data v q = d q \<or> q \<in> ps - ?ks \<and> data v q = None"
        using v(2) gone False by (cases "q \<in> ps") blast+
      ultimately show ?thesis by simp
    qed
    then show "wp (if n > 0 then bail A else bail B) Q u"
      using incomplete restored by (cases n) (auto simp: wp_rules)
  qed (use halt in auto)
  show "attempt_post (then_post (\<lambda>r. case r of Inr _ \<Rightarrow> k
      | Inl e \<Rightarrow> bnd (try_all (map snd zs)) (\<lambda>n. if n > 0 then bail A else bail B)) Q) r v"
    using roll k v halt by (cases r) (simp_all add: attempt_post_simps then_post_simps)
qed

end

section \<open>The files of an armed machine\<close>

definition artefacts :: "path set" where
  "artefacts = {auth_path, MKINITCPIO_CONF, marker_path} \<union> set (map esp_path esp_names)"

text \<open>What the artefacts hold: a map from paths to contents.\<close>

definition data_at :: "'x world \<Rightarrow> path \<Rightarrow> string option" where
  "data_at w p = (case fs_get (w_vis w) p of Some (File d m s) \<Rightarrow> Some d | _ \<Rightarrow> None)"

definition armed_state :: "'x world \<Rightarrow> path \<rightharpoonup> string" where
  "armed_state w = data_at w |` artefacts"

definition regular :: "'x world \<Rightarrow> path \<Rightarrow> bool" where
  "regular w p \<longleftrightarrow> fs_get (w_vis w) p = None \<or> (\<exists>d m s. fs_get (w_vis w) p = Some (File d m s))"

text \<open>
  What \<open>mkinitcpio\<close>, \<open>ukify\<close> and \<open>ds-seal-boot\<close> are relied on for: they write images, and leave the files of
  \<open>arm\<close> and the directories above them alone.
\<close>

definition image_tool :: "string \<Rightarrow> bool" where
  "image_tool prog \<longleftrightarrow> prog \<in> {''mkinitcpio'', ''ukify'', ''/usr/lib/arxos/deathstroke/ds-seal-boot'',
    ''/usr/local/bin/ds-seal-boot'', ''ds-seal-boot''}"

definition images_only :: "'x exec \<Rightarrow> bool" where
  "images_only ex \<longleftrightarrow>
    (\<forall>prog args inp v u x c v' u' x'. ex prog args inp (v, u, x) = (c, v', u', x') \<longrightarrow> image_tool prog \<longrightarrow>
      (\<forall>p\<in>artefacts. \<forall>q. prefix q p \<longrightarrow> fs_get v' q = fs_get v q \<and> fs_get u' q = fs_get u q))"

text \<open>
  The machines considered: an artefact is a regular file or missing, the directories above it exist, and
  the image tools do what they are relied on for.
\<close>

definition armable :: "'x world \<Rightarrow> bool" where
  "armable w \<longleftrightarrow> (\<forall>p\<in>artefacts. anchored w p \<and> regular w p) \<and> images_only (w_exec w)"

text \<open>No artefact, nor a directory above one, has the name of a temporary file.\<close>

definition visible :: "path \<Rightarrow> bool" where
  "visible p \<longleftrightarrow> length p \<ge> 2 \<and> list_all (\<lambda>c. \<not> prefix ''.'' c) p"

lemma artefacts_visible: "p \<in> artefacts \<Longrightarrow> visible p"
proof -
  have "\<forall>p\<in>artefacts. visible p"
    unfolding artefacts_def esp_names_def list.map by code_simp
  then show "p \<in> artefacts \<Longrightarrow> visible p" by blast
qed

lemma visible_prefix:
  assumes "visible p" "prefix q p" "q \<noteq> []"
  shows "\<not> hidden q"
proof -
  have "last q \<in> set p"
    using last_in_set [OF assms(3)] set_mono_prefix [OF assms(2)] by (rule rev_subsetD)
  moreover have "\<forall>c\<in>set p. \<not> prefix ''.'' c"
    using assms(1) unfolding visible_def list_all_iff by (rule conjunct2)
  ultimately have "\<not> prefix ''.'' (last q)" by blast
  then show ?thesis unfolding hidden_def by blast
qed

lemma visible_parent: "visible p \<Longrightarrow> parent_of p = Some (butlast p) \<and> butlast p \<noteq> []"
  by (cases p rule: rev_cases) (auto simp: visible_def parent_of_def)

lemma visible_not_Nil: "visible p \<Longrightarrow> p \<noteq> []"
  by (auto simp: visible_def)

lemma armable_at: "armable w \<Longrightarrow> p \<in> artefacts \<Longrightarrow> anchored w p \<and> regular w p"
  by (simp add: armable_def)

lemma armable_sched: "armable w \<Longrightarrow> armable (w\<lparr>w_sched := ss\<rparr>)"
  by (simp add: armable_def anchored_def regular_def)

lemma armed_state_sched: "armed_state (w\<lparr>w_sched := ss\<rparr>) = armed_state w"
  by (simp add: armed_state_def data_at_def [abs_def] fun_eq_iff restrict_map_def)

lemma armed_state_eqI:
  "(\<And>q. q \<in> artefacts \<Longrightarrow> fs_get (w_vis w') q = fs_get (w_vis w) q) \<Longrightarrow> armed_state w' = armed_state w"
  by (auto simp: armed_state_def data_at_def fun_eq_iff restrict_map_def)

lemma armed_state_read:
  "armable w \<Longrightarrow> p \<in> artefacts \<Longrightarrow>
    look (w_vis w) p = None \<longleftrightarrow> armed_state w p = None"
  "armable w \<Longrightarrow> p \<in> artefacts \<Longrightarrow>
    look (w_vis w) p = Some (File d m s) \<Longrightarrow> armed_state w p = Some d"
  using armable_at [of w p]
  by (auto simp: armed_state_def regular_def data_at_def look_None look_File restrict_map_def)

lemma not_above:
  assumes "armable w" "anchored w p" "q \<in> artefacts"
  shows "\<not> strict_prefix q p"
proof
  assume "strict_prefix q p"
  moreover have "q \<noteq> []" using visible_not_Nil [OF artefacts_visible [OF assms(3)]] .
  ultimately obtain m where "fs_get (w_vis w) q = Some (Dir m)"
    using assms(2) by (auto simp: anchored_def)
  with armable_at [OF assms(1,3)] show False by (auto simp: regular_def)
qed

text \<open>A file next to the artefacts, or one of them: writing it leaves the others, and everything above them, alone.\<close>

definition beside :: "path \<Rightarrow> bool" where
  "beside p \<longleftrightarrow> visible p \<and> (\<forall>q\<in>artefacts. \<not> strict_prefix p q)"

lemma artefact_beside: "armable w \<Longrightarrow> p \<in> artefacts \<Longrightarrow> beside p"
  using not_above [of w] armable_at [of w] artefacts_visible by (auto simp: beside_def)

lemma replaced_entry:
  assumes w: "armable w" and p: "beside p" "anchored w p"
    and tmp: "hidden tmp" "parent_of tmp = Some d" and d: "parent_of p = Some d"
    and post: "replace_post d tmp p (File text md True) w r w'"
  shows "armable w' \<and> (\<forall>q. q \<noteq> p \<longrightarrow> armed_state w' q = armed_state w q) \<and>
    (r = Ok () \<longrightarrow> p \<in> artefacts \<longrightarrow> armed_state w' p = Some text)"
proof -
  have fr: "frame d tmp p w w'" and env: "w_exec w' = w_exec w"
    using post by (auto simp: replace_post_def frame_def same_env_def)
  have dd: "d \<noteq> []" "strict_prefix d p"
    using visible_parent [of p] p(1) d
    by (auto simp: beside_def strict_prefix_def) (metis append_butlast_last_id butlast.simps(1) prefixI parent_of_neq)+
  have same: "fs_get (w_vis w') q = fs_get (w_vis w) q" if "q \<in> artefacts" "q \<noteq> p" for q
  proof -
    have "q \<noteq> tmp" using artefacts_visible [OF that(1)] tmp(1) visible_prefix [of q q] by (auto simp: hidden_def)
    moreover have "q \<noteq> d" using not_above [OF w p(2) that(1)] dd(2) by blast
    ultimately show ?thesis using fr that(2) by (simp add: frame_def)
  qed
  have "anchored w' q" if q: "q \<in> artefacts" for q
    unfolding anchored_def
  proof (intro allI impI)
    fix x assume x: "strict_prefix x q \<and> x \<noteq> []"
    then have n: "x \<noteq> tmp" using visible_prefix [OF artefacts_visible [OF q], of x] tmp(1) by (auto simp: strict_prefix_def)
    have "x \<noteq> p" using p(1) q x by (auto simp: beside_def)
    have old: "\<exists>m. fs_get (w_vis w) x = Some (Dir m)" "\<exists>m. fs_get (w_dur w) x = Some (Dir m)"
      using armable_at [OF w q] x by (auto simp: anchored_def)
    have "\<exists>m. fs_get (w_vis w') x = Some (Dir m)"
      using fr old(1) n \<open>x \<noteq> p\<close> by (cases "x = d") (auto simp: frame_def)
    moreover have "\<exists>m. fs_get (w_dur w') x = Some (Dir m)"
      using fr old n \<open>x \<noteq> p\<close> unfolding frame_def by metis
    ultimately show "(\<exists>m. fs_get (w_vis w') x = Some (Dir m)) \<and> (\<exists>m. fs_get (w_dur w') x = Some (Dir m))" by blast
  qed
  moreover have "regular w' q" if "q \<in> artefacts" for q
    using armable_at [OF w that] same [OF that] post
    by (cases "q = p") (auto simp: regular_def replace_post_def)
  ultimately show ?thesis
    using w env same post by (auto simp: armable_def armed_state_def data_at_def replace_post_def restrict_map_def)
qed

lemma wp_put_beside:
  assumes "beside p" "anchored w p" "armable w"
  shows "wp (atomic_write p text md) (\<lambda>r w'. armable w' \<and> (\<forall>q. q \<noteq> p \<longrightarrow> armed_state w' q = armed_state w q) \<and>
    (r = Ok () \<longrightarrow> p \<in> artefacts \<longrightarrow> armed_state w' p = Some text)) w"
proof -
  have d: "parent_of p = Some (butlast p)" "butlast p \<noteq> []"
    using visible_parent [of p] assms(1) by (auto simp: beside_def)
  from wp_atomic_write_hidden [OF assms(2) d] show ?thesis
    by (rule wp_mono) (use replaced_entry [OF assms(3,1,2)] d in blast)
qed

lemma wp_put_artefact:
  assumes "p \<in> artefacts" "armable w"
  shows "wp (atomic_write p text md) (\<lambda>r w'. armable w' \<and> (\<forall>q. q \<noteq> p \<longrightarrow> armed_state w' q = armed_state w q) \<and>
    (r = Ok () \<longrightarrow> armed_state w' p = Some text)) w"
  by (rule wp_mono [OF wp_put_beside [OF artefact_beside]]) (use assms armable_at in auto)

lemma wp_remove_if_exists:
  assumes "\<And>m ss. Q (Err (Msg m)) (w\<lparr>w_sched := ss\<rparr>)" "\<And>ss. Q (Halt PowerLoss) (w\<lparr>w_sched := ss\<rparr>)"
    and "\<And>ss. fs_get (w_vis w) p = None \<Longrightarrow> Q (Ok ()) (w\<lparr>w_sched := ss\<rparr>)"
    and "\<And>ss n. fs_get (w_vis w) p = Some n \<Longrightarrow> Q (Ok ()) (w\<lparr>w_sched := ss, w_vis := fs_del p (w_vis w)\<rparr>)"
  shows "wp (remove_if_exists p) Q w"
  unfolding remove_if_exists_def remove_file_def wp_bnd wp_attempt
  by (rule wp_sysI) (use assms in \<open>auto simp: wp_rules split: option.splits node.splits\<close>)

lemma wp_del_artefact:
  assumes "p \<in> artefacts" "armable w"
  shows "wp (remove_if_exists p) (\<lambda>r w'. armable w' \<and> (\<forall>q. q \<noteq> p \<longrightarrow> armed_state w' q = armed_state w q) \<and>
    (r = Ok () \<longrightarrow> armed_state w' p = None) \<and> armed_state w' p \<in> {None, armed_state w p}) w"
proof (rule wp_remove_if_exists)
  fix ss
  let ?w = "w\<lparr>w_sched := ss, w_vis := fs_del p (w_vis w)\<rparr>"
  have "anchored ?w q" if "q \<in> artefacts" for q
    using armable_at [OF assms(2) that] not_above [OF assms(2) _ assms(1), of q] by (auto simp: anchored_def)
  then show "armable ?w \<and> (\<forall>q. q \<noteq> p \<longrightarrow> armed_state ?w q = armed_state w q) \<and>
      (Ok () = Ok () \<longrightarrow> armed_state ?w p = None) \<and> armed_state ?w p \<in> {None, armed_state w p}"
    using assms by (auto simp: armable_def regular_def data_at_def armed_state_def restrict_map_def)
qed (use assms in \<open>auto simp: armable_sched armed_state_sched armed_state_def data_at_def restrict_map_def\<close>)

interpretation armed_files: artefact_store armable armed_state artefacts atomic_write remove_if_exists
  by unfold_locales (use wp_put_artefact wp_del_artefact armable_sched armed_state_sched in \<open>blast | simp\<close>)+

section \<open>Sample machines\<close>

text \<open>Whether a path has its directories and is a file or missing, as a computation.\<close>

definition placed :: "fs \<Rightarrow> path \<Rightarrow> bool" where
  "placed f p \<longleftrightarrow>
    list_all (\<lambda>q. q = [] \<or> q = p \<or> (case fs_get f q of Some n \<Rightarrow> is_dir_node n | None \<Rightarrow> False)) (prefixes p) \<and>
    (case fs_get f p of Some n \<Rightarrow> is_file_node n | None \<Rightarrow> True)"

lemma armable_machine:
  fixes x :: 'x
  assumes "\<forall>p\<in>artefacts. placed f p"
  shows "armable (machine f x)"
proof -
  have dir: "\<exists>m. fs_get f q = Some (Dir m)" if "p \<in> artefacts" "strict_prefix q p" "q \<noteq> []" for p q
  proof -
    have q: "q \<in> set (prefixes p)" "q \<noteq> p" using that(2) by auto
    have "\<forall>q\<in>set (prefixes p). q = [] \<or> q = p \<or> (case fs_get f q of Some n \<Rightarrow> is_dir_node n | None \<Rightarrow> False)"
      using assms that(1) unfolding placed_def list_all_iff by blast
    with q that(3) have "case fs_get f q of Some n \<Rightarrow> is_dir_node n | None \<Rightarrow> False" by blast
    then show ?thesis by (auto simp: is_dir_node_def split: option.splits node.splits)
  qed
  moreover have "regular (machine f x) p" if "p \<in> artefacts" for p
  proof -
    have "case fs_get f p of Some n \<Rightarrow> is_file_node n | None \<Rightarrow> True" using assms that unfolding placed_def by blast
    then show ?thesis by (cases "fs_get f p"; cases "the (fs_get f p)") (auto simp: regular_def is_file_node_def)
  qed
  ultimately show ?thesis by (auto simp: armable_def anchored_def images_only_def machine_def)
qed

definition unarmed_root :: fs where
  "unarmed_root = map (\<lambda>d. (components d, Dir 493)) [''/'', ''/etc'', ''/etc/pam.d'', ''/etc/arxos'', ''/etc/arxos/deathstroke'',
      ''/boot'', ''/boot/efi'', ''/boot/efi/deathstroke''] @
    [(auth_path, File ''auth required pam_unix.so'' 420 True), (MKINITCPIO_CONF, File ''HOOKS=(base encrypt)'' 420 True)]"

definition armed_root :: fs where
  "armed_root = unarmed_root @
    [(marker_path, File ''armed=1\<newline>'' 384 True), (esp_path ''armed'', File ''armed=1\<newline>'' 384 True)]"

lemma unarmed_root_ok: "\<forall>p\<in>artefacts. placed unarmed_root p"
  unfolding artefacts_def esp_names_def list.map by code_simp

lemma armed_root_ok: "\<forall>p\<in>artefacts. placed armed_root p"
  unfolding artefacts_def esp_names_def list.map by code_simp

lemma unarmed_root_at:
  "fs_get unarmed_root auth_path = Some (File ''auth required pam_unix.so'' 420 True)"
  "fs_get unarmed_root marker_path = None"
  by code_simp+

lemma armed_root_at:
  "fs_get armed_root marker_path = Some (File ''armed=1\<newline>'' 384 True)"
  "fs_get armed_root (esp_path ''armed'') = Some (File ''armed=1\<newline>'' 384 True)"
  by code_simp+

end
