(* ===== verification/Smooth_Runs.thy ===== *)
theory Smooth_Runs
  imports Artefacts
begin

text \<open>
  The files of \<open>arm\<close> and \<open>disarm\<close> on a machine where nothing fails: what the readers see there, which steps
  succeed, and that a rollback does. The rewriting of \<open>mkinitcpio.conf\<close> that both commands do, and the
  backup of the PAM stack, are here too.
\<close>

section \<open>Paths and texts\<close>

lemma artefact_paths:
  "auth_path \<in> artefacts" "MKINITCPIO_CONF \<in> artefacts" "marker_path \<in> artefacts"
  "n \<in> set esp_names \<Longrightarrow> esp_path n \<in> artefacts"
  by (simp_all add: artefacts_def)

lemma esp_names_members:
  "''duress.hash'' \<in> set esp_names" "''config'' \<in> set esp_names" "''counter'' \<in> set esp_names"
  "''daily.slot'' \<in> set esp_names" "''recovery.slot'' \<in> set esp_names" "''armed'' \<in> set esp_names"
  by (simp_all add: esp_names_def)

lemma paths_distinct: "distinct (auth_path # MKINITCPIO_CONF # marker_path # [] # map esp_path esp_names)"
  unfolding esp_names_def by code_simp

text \<open>
  What \<open>arm\<close> and \<open>disarm\<close> make of \<open>mkinitcpio.conf\<close>: both read it, rewrite the text and write it when it
  changed.
\<close>

definition rewrite_conf :: "(string \<Rightarrow> (string \<times> bool) res) \<Rightarrow> ('x, unit) io" where
  "rewrite_conf f =
    bnd (ctx ''read /etc/mkinitcpio.conf'' (read_to_string MKINITCPIO_CONF)) (\<lambda>original.
    bnd (lift (f original)) (\<lambda>(updated, changed).
    if changed then
      bnd (metadata MKINITCPIO_CONF) (\<lambda>meta. atomic_write MKINITCPIO_CONF updated (mode_bits meta))
    else ret ()))"

definition with_deathstroke_hook :: "string \<Rightarrow> (string \<times> bool) res" where
  "with_deathstroke_hook original =
    rbind (ensure_hook_lines (text_lines original)) (\<lambda>(out, changed, saw_hooks).
    if \<not> saw_hooks then Err (Msg ''mkinitcpio.conf has no HOOKS line'')
    else Ok (join ''\<newline>'' out @ ''\<newline>'', changed))"

definition rewritten :: "(string \<Rightarrow> (string \<times> bool) res) \<Rightarrow> string \<Rightarrow> string" where
  "rewritten f t = (case f t of Ok (u, changed) \<Rightarrow> if changed then u else t | _ \<Rightarrow> t)"

lemma ensure_step:
  "bnd (lift (ensure_hook_lines (text_lines t))) (\<lambda>(out, changed, saw_hooks).
      bnd (require saw_hooks ''mkinitcpio.conf has no HOOKS line'') (\<lambda>_.
      if changed then bnd (metadata MKINITCPIO_CONF) (\<lambda>meta. atomic_write MKINITCPIO_CONF (join ''\<newline>'' out @ ''\<newline>'') (mode_bits meta))
      else ret ())) =
    bnd (lift (with_deathstroke_hook t)) (\<lambda>(updated, changed).
      if changed then bnd (metadata MKINITCPIO_CONF) (\<lambda>meta. atomic_write MKINITCPIO_CONF updated (mode_bits meta))
      else ret ())"
  proof (cases "ensure_hook_lines (text_lines t)")
    case (Ok z)
    obtain out changed saw where "z = (out, changed, saw)" by (cases z)
    with Ok show ?thesis
      by (cases saw) (simp_all add: with_deathstroke_hook_def require_def bail_def fail_def ret_def bnd_def lift_def fun_eq_iff)
  next
    case (Halt h)
    then show ?thesis by (simp add: with_deathstroke_hook_def fun_eq_iff bnd_def lift_def)
  qed (simp add: with_deathstroke_hook_def)

lemma ensure_rewrites: "ensure_deathstroke_hook_before_encrypt = rewrite_conf with_deathstroke_hook"
  unfolding ensure_deathstroke_hook_before_encrypt_def rewrite_conf_def ensure_step ..

lemma remove_rewrites: "remove_deathstroke_hook = rewrite_conf without_deathstroke_hook"
  by (simp add: remove_deathstroke_hook_def rewrite_conf_def)

lemma backup_beside: "beside backup_path"
proof -
  have "visible backup_path" by code_simp
  moreover have "\<forall>q\<in>artefacts. \<not> strict_prefix backup_path q"
    unfolding artefacts_def esp_names_def list.map by code_simp
  ultimately show ?thesis by (simp add: beside_def)
qed

lemma backup_not_artefact: "backup_path \<notin> artefacts"
  unfolding artefacts_def esp_names_def list.map by code_simp

lemma only_backup:
  assumes "\<forall>q. q \<noteq> backup_path \<longrightarrow> armed_state v q = armed_state w q"
  shows "armed_state v = armed_state w"
proof (rule ext)
  fix q show "armed_state v q = armed_state w q"
    using assms backup_not_artefact by (cases "q = backup_path") (simp_all add: armed_state_def)
qed

lemma anchored_sibling:
  assumes "anchored w p" "butlast q = butlast p" "p \<noteq> []" "q \<noteq> []"
  shows "anchored w q"
proof -
  have below: "strict_prefix x r \<longleftrightarrow> prefix x (butlast r)" if "r \<noteq> []" for x r :: path
    using that by (cases r rule: rev_cases) (auto simp: strict_prefix_def prefix_snoc)
  show ?thesis
    using assms(1) unfolding anchored_def below [OF assms(3)] below [OF assms(4)] assms(2) .
qed

lemma backup_anchored: "armable w \<Longrightarrow> anchored w backup_path"
proof -
  have "butlast backup_path = butlast auth_path" "auth_path \<noteq> []" "backup_path \<noteq> []" by code_simp+
  then show "armable w \<Longrightarrow> anchored w backup_path"
    using anchored_sibling armable_at [OF _ artefact_paths(1)] by blast
qed

lemma armed_state_file:
  assumes "armable w" "armed_state w p = Some d"
  shows "\<exists>m s. look (w_vis w) p = Some (File d m s)"
proof -
  have "data_at w p = Some d" using assms(2) by (auto simp: armed_state_def restrict_map_def split: if_splits)
  then show ?thesis by (auto simp: data_at_def look_File split: option.splits node.splits)
qed

section \<open>Steps that succeed\<close>

text \<open>
  A machine on which nothing fails: no faults, image tools that succeed and leave the files alone, and no
  left-over temporary file next to an artefact.
\<close>

definition tools_succeed :: "'x exec \<Rightarrow> bool" where
  "tools_succeed ex \<longleftrightarrow> (\<forall>prog args inp v u x. image_tool prog \<longrightarrow> (\<exists>out x'. ex prog args inp (v, u, x) = (Exited True out, v, u, x')))"

definition temp_of :: "'x world \<Rightarrow> path \<Rightarrow> path" where
  "temp_of w p = butlast p @ [temp_name (last p) (w_pid w)]"

definition smooth :: "'x world \<Rightarrow> bool" where
  "smooth w \<longleftrightarrow> armable w \<and> w_sched w = [] \<and> tools_succeed (w_exec w) \<and>
    (\<forall>p\<in>insert backup_path artefacts. fs_get (w_vis w) (temp_of w p) = None) \<and> regular w backup_path"

lemma place_ok: "p \<in> insert backup_path artefacts \<Longrightarrow> visible p \<and> last p \<notin> {''/'', ''.'', ''..''} \<and> utf8_valid (last p)"
proof -
  have "\<forall>p\<in>insert backup_path artefacts. last p \<notin> {''/'', ''.'', ''..''} \<and> is_ascii (last p)"
    unfolding artefacts_def esp_names_def list.map by code_simp
  moreover have "visible backup_path" using backup_beside by (simp add: beside_def)
  ultimately show "p \<in> insert backup_path artefacts \<Longrightarrow> visible p \<and> last p \<notin> {''/'', ''.'', ''..''} \<and> utf8_valid (last p)"
    using artefacts_visible ascii_utf8_valid by blast
qed

lemma temp_hidden: "p \<in> insert backup_path artefacts \<Longrightarrow> hidden (temp_of w p)"
  by (simp add: temp_of_def hidden_def temp_name_def)

text \<open>One file is written.\<close>

lemma smooth_put:
  assumes w: "smooth w" and p: "p \<in> insert backup_path artefacts"
  shows "\<exists>w'. atomic_write p text md w = (Ok (), w') \<and> smooth w' \<and> (\<forall>q. q \<noteq> p \<longrightarrow> armed_state w' q = armed_state w q) \<and>
    w_debug w' = w_debug w"
proof -
  have a: "armable w" and sched: "w_sched w = []" using w by (simp_all add: smooth_def)
  have vis: "visible p" and name: "last p \<notin> {''/'', ''.'', ''..''}" "utf8_valid (last p)" using place_ok [OF p] by blast+
  have pd: "parent_of p = Some (butlast p)" "butlast p \<noteq> []" "p \<noteq> []"
    using visible_parent [OF vis] visible_not_Nil [OF vis] by auto
  have reg: "regular w p" and anc: "anchored w p"
    using p w armable_at [OF a] backup_anchored [OF a] by (auto simp: smooth_def)
  have "strict_prefix (butlast p) p" using pd(3) by (metis append_butlast_last_id prefixI prefix_order.less_le parent_of_neq pd(1))
  then obtain m where dir: "fs_get (w_vis w) (butlast p) = Some (Dir m)" using anc pd(2) by (auto simp: anchored_def)
  have fn: "file_name p = Some (last p)" using name(1) pd(3) by (simp add: file_name_def)
  have fresh: "fs_get (w_vis w) (butlast p @ [temp_name (last p) (w_pid w)]) = None"
    using w p by (auto simp: smooth_def temp_of_def)
  obtain r w' where run: "atomic_write p text md w = (r, w')" by fastforce
  have calm: "r = Ok ()" "same_env w w'" "w_sched w' = []"
    "\<And>q. fs_get (w_vis w') q = (if q = p then Some (File text md True) else fs_get (w_vis w) q)"
    using wpD [OF wp_atomic_write_calm [OF sched pd(1,2) fn name(2) dir reg [unfolded regular_def] fresh] run] by auto
  have b: "beside p" using p artefact_beside [OF a] backup_beside by blast
  have post: "armable w'" "\<forall>q. q \<noteq> p \<longrightarrow> armed_state w' q = armed_state w q"
    using wpD [OF wp_put_beside [OF b anc a] run] by auto
  have env: "w_pid w' = w_pid w" "w_exec w' = w_exec w" "w_debug w' = w_debug w" using calm(2) by (simp_all add: same_env_def)
  have "fs_get (w_vis w') (temp_of w' q) = None" if q: "q \<in> insert backup_path artefacts" for q
  proof -
    have "temp_of w q \<noteq> p" using temp_hidden [OF q, of w] visible_prefix [OF vis, of p] pd(3) by auto
    then show ?thesis using w q by (auto simp: smooth_def calm(4) temp_of_def env)
  qed
  moreover have "regular w' backup_path" using w by (auto simp: smooth_def regular_def calm(4))
  ultimately have "smooth w'" using post(1) calm(3) w by (auto simp: smooth_def env)
  then show ?thesis using run calm(1) post(2) env(3) by blast
qed

text \<open>One file is removed.\<close>

lemma smooth_del:
  assumes w: "smooth w" and p: "p \<in> artefacts"
  shows "\<exists>w'. remove_if_exists p w = (Ok (), w') \<and> smooth w' \<and> (\<forall>q. q \<noteq> p \<longrightarrow> armed_state w' q = armed_state w q)"
proof -
  have a: "armable w" and sched: "w_sched w = []" using w by (simp_all add: smooth_def)
  let ?v = "w\<lparr>w_vis := fs_del p (w_vis w)\<rparr>"
  have "remove_if_exists p w = (Ok (), if fs_get (w_vis w) p = None then w else ?v)"
    using sched armable_at [OF a p]
    by (auto simp: remove_if_exists_def bnd_def attempt_def remove_file_def sys_def ret_def regular_def)
  moreover have "smooth ?v \<and> (\<forall>q. q \<noteq> p \<longrightarrow> armed_state ?v q = armed_state w q)"
  proof -
    have "wp (remove_if_exists p) (\<lambda>r w'. armable w' \<and> (\<forall>q. q \<noteq> p \<longrightarrow> armed_state w' q = armed_state w q)) w"
      by (rule wp_mono [OF wp_del_artefact [OF p a]]) simp
    from wpD [OF this calculation] have post: "armable (if fs_get (w_vis w) p = None then w else ?v)"
      "\<forall>q. q \<noteq> p \<longrightarrow> armed_state (if fs_get (w_vis w) p = None then w else ?v) q = armed_state w q" by auto
    have same: "?v = w" if "fs_get (w_vis w) p = None"
      using that by (simp add: delete_id [of p "w_vis w"] map_of_eq_None_iff)
    show ?thesis using post same w
      by (cases "fs_get (w_vis w) p = None") (auto simp: smooth_def temp_of_def regular_def)
  qed
  ultimately show ?thesis using w by (cases "fs_get (w_vis w) p = None") auto
qed

text \<open>Steps that succeed, with what they need and leave of the map.\<close>

definition completes :: "((path \<rightharpoonup> string) \<Rightarrow> bool) \<Rightarrow> ((path \<rightharpoonup> string) \<Rightarrow> bool) \<Rightarrow> ('x, unit) io \<Rightarrow> bool" where
  "completes I J m \<longleftrightarrow> (\<forall>w. smooth w \<longrightarrow> I (armed_state w) \<longrightarrow> (\<exists>w'. m w = (Ok (), w') \<and> smooth w' \<and> J (armed_state w')))"

lemma completes_bnd: "completes I J m \<Longrightarrow> completes J K n \<Longrightarrow> completes I K (bnd m (\<lambda>_. n))"
  unfolding completes_def bnd_def by fastforce

lemma completes_wp: "completes I J m \<Longrightarrow> smooth w \<Longrightarrow> I (armed_state w) \<Longrightarrow> \<exists>w'. m w = (Ok (), w') \<and> smooth w' \<and> J (armed_state w')"
  unfolding completes_def by blast

abbreviation conf_is :: "string \<Rightarrow> (path \<rightharpoonup> string) \<Rightarrow> bool" where
  "conf_is c \<equiv> \<lambda>S. S MKINITCPIO_CONF = Some c"

lemma completes_put:
  "p \<in> artefacts \<Longrightarrow> p \<noteq> MKINITCPIO_CONF \<Longrightarrow> completes (conf_is c) (conf_is c) (atomic_write p text md)"
  "p \<in> artefacts \<Longrightarrow> completes I (\<lambda>_. True) (atomic_write p text md)"
  using smooth_put unfolding completes_def by (metis insertCI)+

lemma smooth_run:
  assumes w: "smooth w" and tool: "image_tool prog"
  shows "\<exists>out w'. run_cmd prog args [] w = (Ok (Exited True out), w') \<and> smooth w' \<and> armed_state w' = armed_state w \<and> w_debug w' = w_debug w"
proof -
  obtain out x' where ex: "w_exec w prog args [] (w_vis w, w_dur w, w_ext w) = (Exited True out, w_vis w, w_dur w, x')"
    using w tool unfolding smooth_def tools_succeed_def by blast
  let ?w = "w\<lparr>w_ext := x', w_log := w_log w @ [(prog, args, [])]\<rparr>"
  have "run_cmd prog args [] w = (Ok (Exited True out), ?w)"
    using ex w by (simp add: run_cmd_def probe_def bnd_def smooth_def)
  moreover have "armed_state ?w = armed_state w" by (rule armed_state_eqI) simp
  moreover have "armable ?w" using w by (simp add: smooth_def armable_def anchored_def regular_def)
  then have "smooth ?w" using w by (simp add: smooth_def temp_of_def regular_def)
  ultimately show ?thesis by (intro exI [of _ out] exI [of _ ?w]) simp
qed

lemma completes_run: "image_tool prog \<Longrightarrow> completes I I (run_checked prog args)"
  unfolding completes_def
proof (intro allI impI)
  fix w :: "'a world" assume tool: "image_tool prog" and w: "smooth w" "I (armed_state w)"
  obtain out w' where "run_cmd prog args [] w = (Ok (Exited True out), w')" "smooth w'" "armed_state w' = armed_state w"
    using smooth_run [OF w(1) tool] by blast
  then show "\<exists>w'. run_checked prog args w = (Ok (), w') \<and> smooth w' \<and> I (armed_state w')"
    using w(2) by (simp add: run_checked_def bnd_def lift_def cmd_status_def require_def ret_def)
qed

lemma completes_create: "completes I I (ctx ''create'' (create_dir_all (components ESP_STATE_DIR)))"
  unfolding completes_def
proof (intro allI impI)
  fix w :: "'a world" assume w: "smooth w" "I (armed_state w)"
  have "\<exists>m. fs_get (w_vis w) q = Some (Dir m)" if "prefix q (components ESP_STATE_DIR)" "q \<noteq> []" for q
  proof -
    have "strict_prefix q (esp_path ''armed'')" using that by (auto simp: strict_prefix_def prefix_def)
    then show ?thesis
      using armable_at [OF _ artefact_paths(4) [OF esp_names_members(6)]] w(1) that(2) by (auto simp: smooth_def anchored_def)
  qed
  then have "make_dirs (filter (\<lambda>q. q \<noteq> []) (prefixes (components ESP_STATE_DIR))) (w_vis w) = Ok (w_vis w)"
    by (intro make_dirs_no_change) (auto dest!: look_Dir)
  then show "\<exists>w'. ctx ''create'' (create_dir_all (components ESP_STATE_DIR)) w = (Ok (), w') \<and> smooth w' \<and> I (armed_state w')"
    using w by (simp add: ctx_def create_dir_all_def sys_def smooth_def)
qed

lemma smooth_read:
  assumes "smooth w" "p \<in> artefacts" "armed_state w p = Some d" "utf8_valid d"
  shows "read_to_string p w = (Ok d, w)" "fs_read p w = (Ok d, w)" "\<exists>n. metadata p w = (Ok n, w)"
proof -
  have "armable w" using assms(1) by (simp add: smooth_def)
  then obtain m s where "look (w_vis w) p = Some (File d m s)" using armed_state_file [OF _ assms(3)] by blast
  then show "read_to_string p w = (Ok d, w)" "fs_read p w = (Ok d, w)" "\<exists>n. metadata p w = (Ok n, w)"
    using assms(1,4) by (simp_all add: smooth_def read_to_string_def fs_read_def metadata_def sys_def read_result_def)
qed

lemma completes_del: "p \<in> artefacts \<Longrightarrow> completes I (\<lambda>_. True) (remove_if_exists p)"
  using smooth_del unfolding completes_def by metis

lemma completes_del_other:
  "p \<in> artefacts \<Longrightarrow> p \<noteq> MKINITCPIO_CONF \<Longrightarrow> completes (conf_is c) (conf_is c) (remove_if_exists p)"
  using smooth_del unfolding completes_def by metis

lemma completes_restore: "fst e \<in> artefacts \<Longrightarrow> completes I (\<lambda>_. True) (restore_entry e)"
  by (cases e; cases "snd e") (simp_all add: restore_entry_def completes_del completes_put)

lemma completes_restore_conf: "completes I (\<lambda>_. True) (restore_mkinitcpio original)"
  unfolding completes_def
proof (intro allI impI)
  fix w :: "'a world" assume w: "smooth w"
  obtain m where m: "attempt (metadata MKINITCPIO_CONF) w = (Ok m, w)"
    using w by (cases "look (w_vis w) MKINITCPIO_CONF") (auto simp: attempt_def metadata_def sys_def smooth_def)
  show "\<exists>w'. restore_mkinitcpio original w = (Ok (), w') \<and> smooth w' \<and> True"
    using completes_wp [OF completes_put(2) [OF artefact_paths(2), of "\<lambda>_. True"] w]
    by (simp add: restore_mkinitcpio_def bnd_def m)
qed

text \<open>A rollback on such a machine leaves no error.\<close>

lemma smooth_rollback:
  "\<forall>m\<in>set ms. completes (\<lambda>_. True) (\<lambda>_. True) m \<Longrightarrow> smooth w \<Longrightarrow> \<exists>w'. try_all ms w = (Ok 0, w') \<and> smooth w'"
proof (induction ms arbitrary: w)
  case (Cons m ms)
  obtain v where v: "m w = (Ok (), v)" "smooth v" using Cons.prems unfolding completes_def by auto
  obtain w' where "try_all ms v = (Ok 0, w')" "smooth w'" using Cons.IH [OF _ v(2)] Cons.prems(1) by auto
  then show ?case by (simp add: bnd_def attempt_def v(1) ret_def)
qed (simp add: ret_def)

text \<open>Snapshots of files that are there.\<close>

lemma snapshot_calm:
  assumes w: "smooth w"
  shows "set ps \<subseteq> artefacts \<Longrightarrow> \<exists>z. snapshot ps w = (Ok z, w) \<and> fst ` set z \<subseteq> artefacts"
proof (induction ps)
  case Nil
  then show ?case by (simp add: ret_def)
next
  case (Cons p ps)
  then obtain z where z: "snapshot ps w = (Ok z, w)" "fst ` set z \<subseteq> artefacts" by auto
  have reg: "regular w p" and sched: "w_sched w = []" using Cons.prems w by (auto simp: smooth_def dest: armable_at)
  have read: "fs_read p w = (read_result (w_vis w) p, w)" using sched by (simp add: fs_read_def sys_def)
  have "\<exists>old. read_result (w_vis w) p = Ok old \<or> read_result (w_vis w) p = Err NotFound"
    using reg by (auto simp: regular_def read_result_def look_File look_None)
  then show ?case using z Cons.prems by (auto simp: read bnd_def attempt_def ret_def)
qed

section \<open>A stock machine\<close>

text \<open>A machine without faults whose image tools succeed.\<close>

definition calm_machine :: "fs \<Rightarrow> unit world" where
  "calm_machine f = (machine f ())\<lparr>w_exec := \<lambda>prog args inp st. (Exited True [], st)\<rparr>"

lemma calm_machine_fields [simp]:
  "w_vis (calm_machine f) = f" "w_sched (calm_machine f) = []" "w_debug (calm_machine f) = False"
  by (simp_all add: calm_machine_def)

lemma calm_machine_smooth:
  assumes placed: "\<forall>p\<in>artefacts. placed f p" and hid: "list_all (\<lambda>(q, _). \<not> hidden q) f"
    and backup: "\<forall>n. fs_get f backup_path = Some n \<longrightarrow> is_file_node n"
  shows "smooth (calm_machine f)"
proof -
  have "armable (machine f ())" by (rule armable_machine [OF placed])
  then have "armable (calm_machine f)"
    by (simp add: calm_machine_def armable_def anchored_def regular_def images_only_def)
  moreover have "fs_get f q = None" if "hidden q" for q
    using hid that by (auto simp: list_all_iff map_of_eq_None_iff)
  then have "\<forall>p\<in>insert backup_path artefacts. fs_get f (temp_of (calm_machine f) p) = None"
    using temp_hidden by metis
  moreover have "tools_succeed (w_exec (calm_machine f))" by (simp add: calm_machine_def tools_succeed_def)
  moreover have "regular (calm_machine f) backup_path"
    using backup by (cases "fs_get f backup_path") (auto simp: regular_def is_file_node_def split: node.splits)
  ultimately show ?thesis by (simp add: smooth_def)
qed

lemma calm_machine_file:
  "p \<in> artefacts \<Longrightarrow> armed_state (calm_machine f) p = (case fs_get f p of Some (File d m s) \<Rightarrow> Some d | _ \<Rightarrow> None)"
  by (simp add: armed_state_def data_at_def)

text \<open>A stock machine.\<close>

definition stock_auth :: string where
  "stock_auth = join ''\<newline>'' arch_system_auth @ ''\<newline>''"

definition stock_root :: fs where
  "stock_root = map (\<lambda>d. (components d, Dir 493)) [''/'', ''/etc'', ''/etc/pam.d'', ''/etc/arxos'', ''/etc/arxos/deathstroke'',
      ''/boot'', ''/boot/efi'', ''/boot/efi/deathstroke''] @
    [(auth_path, File stock_auth 420 True), (MKINITCPIO_CONF, File ''HOOKS=(base encrypt)'' 420 True)]"

definition stock_machine :: "unit world" where
  "stock_machine = calm_machine stock_root"

lemma stock_root_facts:
  "\<forall>p\<in>artefacts. placed stock_root p" "list_all (\<lambda>(q, _). \<not> hidden q) stock_root"
  "fs_get stock_root auth_path = Some (File stock_auth 420 True)"
  "fs_get stock_root MKINITCPIO_CONF = Some (File ''HOOKS=(base encrypt)'' 420 True)"
  "fs_get stock_root marker_path = None" "fs_get stock_root backup_path = None" "is_ascii stock_auth"
  unfolding artefacts_def esp_names_def list.map by code_simp+

lemma stock_auth_armed: "\<exists>out. arm_pam_stack False stock_auth = Ok out"
proof -
  have "list_all is_line arch_system_auth" by code_simp
  then have ls: "text_lines stock_auth = arch_system_auth"
    unfolding stock_auth_def by (rule text_lines_join) (simp add: arch_system_auth_def)
  have R: "tl (butlast arch_system_auth) = filter is_auth_rule (text_lines stock_auth)" by (simp only: ls arch_rules)
  show ?thesis
    using arm_pam_stack_accepts [OF R _ arch_unix arch_authfail arch_authsucc] arch_unmarked by (simp add: stock_auth_def)
qed

lemma stock_machine_smooth: "smooth stock_machine"
  unfolding stock_machine_def
  by (rule calm_machine_smooth [OF stock_root_facts(1,2)]) (simp add: stock_root_facts(6))

lemma stock_files:
  "armed_state stock_machine auth_path = Some stock_auth" "armed_state stock_machine marker_path = None"
  "armed_state stock_machine MKINITCPIO_CONF = Some ''HOOKS=(base encrypt)''" "utf8_valid stock_auth"
  using stock_root_facts(3-5) artefact_paths(1-3) ascii_utf8_valid [OF stock_root_facts(7)]
  by (simp_all add: stock_machine_def calm_machine_file)

section \<open>Transactions that fail half-way\<close>

text \<open>
  When \<open>mkinitcpio.conf\<close> cannot be rewritten both transactions fail after their first files have changed,
  and nothing stands in the way of their rollbacks.
\<close>

lemma arm_rolls_back:
  assumes w: "smooth w" and auth: "armed_state w auth_path = Some content" "utf8_valid content"
    and updated: "arm_pam_stack (w_debug w) content = Ok updated"
    and conf: "armed_state w MKINITCPIO_CONF = Some c" "with_deathstroke_hook c = Err e" "utf8_valid c"
  shows "\<exists>w'. arm_transaction verifier cfg daily_slot recovery_slot content w = (Err (Msg ''arm transaction rolled back''), w')"
proof -
  obtain meta where meta: "metadata auth_path w = (Ok meta, w)"
    using smooth_read(3) [OF w artefact_paths(1) auth] by blast
  obtain v where v: "atomic_write backup_path content (mode_bits meta) w = (Ok (), v)" "smooth v"
    "\<And>q. q \<noteq> backup_path \<Longrightarrow> armed_state v q = armed_state w q"
    using smooth_put [OF w insertI1] by blast
  have "MKINITCPIO_CONF \<noteq> backup_path" using artefact_paths(2) backup_not_artefact by metis
  then have c: "armed_state v MKINITCPIO_CONF = Some c" using v(3) conf(1) by simp
  have read: "fs_read MKINITCPIO_CONF v = (Ok c, v)" by (rule smooth_read(2) [OF v(2) artefact_paths(2) c conf(3)])
  have "set (map esp_path esp_names) \<subseteq> artefacts" using artefact_paths(4) by auto
  then obtain z where z: "snapshot (map esp_path esp_names) v = (Ok z, v)" and zs: "fst ` set z \<subseteq> artefacts"
    using snapshot_calm [OF v(2)] by blast
  have n: "MKINITCPIO_CONF \<noteq> marker_path" "x \<in> set esp_names \<Longrightarrow> esp_path x \<noteq> MKINITCPIO_CONF" for x
    using paths_distinct by (auto dest: not_sym)
  have "completes (conf_is c) (conf_is c) (bnd (sync_esp_state verifier cfg daily_slot recovery_slot)
      (\<lambda>_. atomic_write marker_path ''armed=1\<newline>'' 384))"
    unfolding sync_esp_state_def
    by (rule completes_bnd completes_create completes_put artefact_paths esp_names_members n not_sym [OF n(1)])+
  then obtain u where u: "bnd (sync_esp_state verifier cfg daily_slot recovery_slot)
      (\<lambda>_. atomic_write marker_path ''armed=1\<newline>'' 384) v = (Ok (), u)" "smooth u" "conf_is c (armed_state u)"
    using v(2) c unfolding completes_def by blast
  have hook: "ensure_deathstroke_hook_before_encrypt u = (Err e, u)"
    unfolding ensure_rewrites rewrite_conf_def
    by (simp add: bnd_def ctx_def smooth_read(1) [OF u(2) artefact_paths(2) u(3) conf(3)] lift_def conf(2) fail_def)
  obtain s1 where "sync_esp_state verifier cfg daily_slot recovery_slot v = (Ok (), s1)"
    "atomic_write marker_path ''armed=1\<newline>'' 384 s1 = (Ok (), u)"
    using u(1) by (elim bnd_OkE) auto
  then have commit: "arm_commit verifier cfg daily_slot recovery_slot updated (mode_bits meta) v = (Err e, u)"
    by (simp add: arm_commit_def bnd_def hook)
  have tool: "image_tool ''mkinitcpio''" by (simp add: image_tool_def)
  have "\<exists>w'. arm_rollback content (mode_bits meta) c z u = (Ok 0, w') \<and> smooth w'"
    unfolding arm_rollback_def
    by (rule smooth_rollback [OF _ u(2)])
      (use zs in \<open>auto intro!: completes_put(2) completes_del completes_restore completes_restore_conf completes_run [OF tool] artefact_paths\<close>)
  then show ?thesis
    by (auto simp: arm_transaction_def bnd_def ask_def lift_def updated meta v(1) ctx_def read z attempt_def commit Let_def
        bail_def fail_def)
qed

text \<open>A stock machine whose \<open>mkinitcpio.conf\<close> has no \<open>HOOKS=\<close> line.\<close>

definition bare_root :: fs where
  "bare_root = (MKINITCPIO_CONF, File ''x'' 420 True) # stock_root"

definition bare_machine :: "unit world" where
  "bare_machine = calm_machine bare_root"

lemma bare_root_facts:
  "\<forall>p\<in>artefacts. placed bare_root p" "fs_get bare_root auth_path = Some (File stock_auth 420 True)"
  "fs_get bare_root MKINITCPIO_CONF = Some (File ''x'' 420 True)" "\<not> hidden MKINITCPIO_CONF"
  "fs_get bare_root marker_path = None" "fs_get bare_root backup_path = None"
  unfolding artefacts_def esp_names_def list.map by code_simp+

lemma bare_smooth: "smooth bare_machine"
  unfolding bare_machine_def
  by (rule calm_machine_smooth [OF bare_root_facts(1)])
    (use stock_root_facts(2) bare_root_facts(4,6) in \<open>simp_all add: bare_root_def\<close>)

lemma bare_files:
  "armed_state bare_machine auth_path = Some stock_auth" "armed_state bare_machine marker_path = None"
  "armed_state bare_machine MKINITCPIO_CONF = Some ''x''"
  using bare_root_facts artefact_paths(1-3) by (simp_all add: bare_machine_def calm_machine_file)

lemma bare_conf: "with_deathstroke_hook ''x'' = Err (Msg ''mkinitcpio.conf has no HOOKS line'')" "utf8_valid ''x''"
  by code_simp+

lemma bare_machine_rolls_back:
  "\<exists>w'. arm_transaction verifier cfg daily recovery stock_auth bare_machine = (Err (Msg ''arm transaction rolled back''), w')"
proof -
  obtain out where "arm_pam_stack (w_debug bare_machine) stock_auth = Ok out"
    using stock_auth_armed by (auto simp: bare_machine_def)
  from arm_rolls_back [OF bare_smooth bare_files(1) stock_files(4) this bare_files(3) bare_conf] show ?thesis .
qed

end
