(* ===== verification/Arm_Safety.thy ===== *)
theory Arm_Safety
  imports Smooth_Runs
begin

text \<open>
  Arming and disarming as transactions on the map of artefacts: what each step makes of the map, what
  the rollback restores, and the two properties that follow from \<open>armed_files.transaction\<close>.
\<close>

section \<open>The steps\<close>

text \<open>Running an image tool, whatever comes of it, is no step on the map.\<close>

lemma image_tool_keeps:
  assumes "armable w" "image_tool prog" "w_exec w prog args inp (w_vis w, w_dur w, w_ext w) = (c, v, u, x)"
  shows "armable (w\<lparr>w_sched := ss, w_vis := v, w_dur := u, w_ext := x, w_log := l\<rparr>) \<and>
    armed_state (w\<lparr>w_sched := ss, w_vis := v, w_dur := u, w_ext := x, w_log := l\<rparr>) = armed_state w"
proof -
  have same: "fs_get v q = fs_get (w_vis w) q \<and> fs_get u q = fs_get (w_dur w) q"
    if "p \<in> artefacts" "prefix q p" for p q
    using assms that unfolding armable_def images_only_def by blast
  have "anchored (w\<lparr>w_sched := ss, w_vis := v, w_dur := u, w_ext := x, w_log := l\<rparr>) p" if "p \<in> artefacts" for p
    using armable_at [OF assms(1) that] same [OF that] by (simp add: anchored_def strict_prefix_def)
  moreover have "regular (w\<lparr>w_sched := ss, w_vis := v, w_dur := u, w_ext := x, w_log := l\<rparr>) p" if "p \<in> artefacts" for p
    using armable_at [OF assms(1) that] same [OF that] by (simp add: regular_def)
  ultimately show ?thesis
    using assms(1) same by (auto simp: armable_def intro!: armed_state_eqI)
qed

lemma makes_run_cmd:
  assumes "image_tool prog" "armable w" "armed_state w = S"
  shows "wp (run_cmd prog args inp) (\<lambda>r w'. armable w' \<and> armed_state w' = S \<and> \<not> is_err r) w"
proof (rule wp_run_cmd)
  fix ss c v u x
  assume "w_exec w prog args inp (w_vis w, w_dur w, w_ext w) = (c, v, u, x)"
  from image_tool_keeps [OF assms(2,1) this] assms(3)
  show "armable (w\<lparr>w_sched := ss, w_vis := v, w_dur := u, w_ext := x, w_log := w_log w @ [(prog, args, inp)]\<rparr>) \<and>
      armed_state (w\<lparr>w_sched := ss, w_vis := v, w_dur := u, w_ext := x, w_log := w_log w @ [(prog, args, inp)]\<rparr>) = S \<and>
      \<not> is_err (Ok c)"
    by simp
qed (use assms(2,3) in \<open>simp_all add: armable_sched armed_state_sched\<close>)

lemma makes_run_checked:
  assumes "image_tool prog"
  shows "armed_files.makes {} (\<lambda>S. S) (run_checked prog args)"
  unfolding armed_files.makes_def run_checked_def
proof (intro allI impI)
  fix w :: "'a world" assume w: "armable w"
  from makes_run_cmd [OF assms w refl]
  show "wp (bnd (run_cmd prog args []) (\<lambda>c. bnd (lift (cmd_status ''run'' c)) (\<lambda>ok. require ok ''command failed'')))
      (\<lambda>r w'. armable w' \<and> (\<forall>q. q \<notin> {} \<longrightarrow> armed_state w' q = armed_state w q) \<and>
        (r = Ok () \<longrightarrow> armed_state w' = armed_state w)) w"
    by (rule wp_bndI) (auto simp: wp_rules cmd_status_def split: cmd.splits)
qed

lemma makes_create_esp:
  "armed_files.makes {} (\<lambda>S. S) (ctx ''create'' (create_dir_all (components ESP_STATE_DIR)))"
  unfolding armed_files.makes_def wp_ctx
proof (intro allI impI)
  fix w :: "'a world" assume w: "armable w"
  show "wp (create_dir_all (components ESP_STATE_DIR))
      (\<lambda>r w'. armable w' \<and> (\<forall>q. q \<notin> {} \<longrightarrow> armed_state w' q = armed_state w q) \<and>
        (rctx ''create'' r = Ok () \<longrightarrow> armed_state w' = armed_state w)) w"
  proof (rule wp_create_dir_all_present)
    fix q :: path assume "prefix q (components ESP_STATE_DIR)" "q \<noteq> []"
    then have "strict_prefix q (esp_path ''armed'')" by (auto simp: strict_prefix_def prefix_def)
    then show "\<exists>m. fs_get (w_vis w) q = Some (Dir m)"
      using armable_at [OF w artefact_paths(4) [OF esp_names_members(6)]] \<open>q \<noteq> []\<close> by (auto simp: anchored_def)
  qed (simp_all add: w armable_sched armed_state_sched)
qed

lemma makes_rewrite:
  "armed_files.makes {MKINITCPIO_CONF} (\<lambda>S. S(MKINITCPIO_CONF := map_option (rewritten f) (S MKINITCPIO_CONF))) (rewrite_conf f)"
  unfolding armed_files.makes_def
proof (intro allI impI)
  fix w :: "'a world" assume w: "armable w"
  let ?Q = "\<lambda>r w'. armable w' \<and> (\<forall>q. q \<notin> {MKINITCPIO_CONF} \<longrightarrow> armed_state w' q = armed_state w q) \<and>
    (r = Ok () \<longrightarrow> armed_state w' =
      (armed_state w)(MKINITCPIO_CONF := map_option (rewritten f) (armed_state w MKINITCPIO_CONF)))"
  have body: "wp (if changed
      then bnd (metadata MKINITCPIO_CONF) (\<lambda>meta. atomic_write MKINITCPIO_CONF updated (mode_bits meta))
      else ret ()) ?Q (w\<lparr>w_sched := ss\<rparr>)"
    if conf: "armed_state w MKINITCPIO_CONF = Some d" and f: "f d = Ok (updated, changed)" for d updated changed ss
  proof (rule wp_ifI)
    assume changed
    with f conf have new: "map_option (rewritten f) (armed_state w MKINITCPIO_CONF) = Some updated" by (simp add: rewritten_def)
    have "armed_files.makes {MKINITCPIO_CONF} (\<lambda>S. S(MKINITCPIO_CONF \<mapsto> updated))
        (bnd (metadata MKINITCPIO_CONF) (\<lambda>meta. atomic_write MKINITCPIO_CONF updated (mode_bits meta)))"
      by (rule armed_files.makes_after_reading [OF reading.keeps_readers(2) armed_files.makes_put [OF artefact_paths(2)]])
    from armed_files.makesD [OF this armable_sched [OF w]] show "wp (bnd (metadata MKINITCPIO_CONF) (\<lambda>meta. atomic_write MKINITCPIO_CONF updated (mode_bits meta))) ?Q (w\<lparr>w_sched := ss\<rparr>)"
      unfolding new armed_state_sched by simp
  next
    assume "\<not> changed"
    with f conf have "(armed_state w)(MKINITCPIO_CONF := map_option (rewritten f) (armed_state w MKINITCPIO_CONF)) = armed_state w"
      by (auto simp: rewritten_def)
    then show "wp (ret ()) ?Q (w\<lparr>w_sched := ss\<rparr>)"
      by (simp only: wp_ret armed_state_sched armable_sched [OF w] simp_thms)
  qed
  show "wp (rewrite_conf f) ?Q w"
    unfolding rewrite_conf_def wp_bnd [of "ctx _ _"] wp_ctx
  proof (rule wp_read_to_string, unfold rctx_simps then_post_simps, goal_cases)
    case (4 ss d m s)
    note conf = armed_state_read(2) [OF w artefact_paths(2) 4(1)]
    show ?case
      by (rule wp_bnd_lift) (use body [OF conf] in \<open>auto simp: w armable_sched armed_state_sched split: prod.splits\<close>)
  qed (simp_all add: w armable_sched armed_state_sched)
qed

section \<open>Arming\<close>

lemma no_artefact_Nil: "[] \<notin> artefacts"
  using artefacts_visible [of "[]"] visible_not_Nil by blast

text \<open>The map that arming aims at, from the map there was.\<close>

definition armed_image ::
  "string \<Rightarrow> policy \<Rightarrow> u8 \<Rightarrow> u8 \<Rightarrow> string \<Rightarrow> (path \<rightharpoonup> string) \<Rightarrow> path \<rightharpoonup> string" where
  "armed_image verifier cfg daily_slot recovery_slot updated S =
    S(esp_path ''duress.hash'' \<mapsto> verifier, esp_path ''config'' \<mapsto> policy_text cfg, esp_path ''counter'' \<mapsto> ''0\<newline>'',
      esp_path ''daily.slot'' \<mapsto> show_word daily_slot @ ''\<newline>'', esp_path ''recovery.slot'' \<mapsto> show_word recovery_slot @ ''\<newline>'',
      marker_path \<mapsto> ''armed=1\<newline>'', MKINITCPIO_CONF := map_option (rewritten with_deathstroke_hook) (S MKINITCPIO_CONF),
      esp_path ''armed'' \<mapsto> ''armed=1\<newline>'', auth_path \<mapsto> updated)"

lemma makes_arm_commit:
  "armed_files.makes artefacts (armed_image verifier cfg daily_slot recovery_slot updated)
    (arm_commit verifier cfg daily_slot recovery_slot updated mode)"
proof -
  note put = armed_files.makes_put and seq = armed_files.makes_bnd
  note esp = artefact_paths(4) [OF esp_names_members(1)] artefact_paths(4) [OF esp_names_members(2)]
    artefact_paths(4) [OF esp_names_members(3)] artefact_paths(4) [OF esp_names_members(4)]
    artefact_paths(4) [OF esp_names_members(5)] artefact_paths(4) [OF esp_names_members(6)]
  note sync = seq [OF makes_create_esp seq [OF put [OF esp(1)] seq [OF put [OF esp(2)] seq [OF put [OF esp(3)]
    seq [OF put [OF esp(4)] put [OF esp(5)]]]]]]
  have tool: "image_tool ''mkinitcpio''" by (simp add: image_tool_def)
  note all = seq [OF sync seq [OF put [OF artefact_paths(3)] seq [OF makes_rewrite [of with_deathstroke_hook]
    seq [OF makes_run_checked [OF tool] seq [OF put [OF esp(6)] put [OF artefact_paths(1)]]]]]]
  have n: "MKINITCPIO_CONF \<noteq> marker_path" "x \<in> set esp_names \<Longrightarrow> MKINITCPIO_CONF \<noteq> esp_path x" for x
    using paths_distinct by auto
  show ?thesis
    unfolding arm_commit_def sync_esp_state_def ensure_rewrites
  proof (rule armed_files.makes_weaken [OF all])
    show "{} \<union> ({esp_path ''duress.hash''} \<union> ({esp_path ''config''} \<union> ({esp_path ''counter''} \<union>
        ({esp_path ''daily.slot''} \<union> {esp_path ''recovery.slot''})))) \<union>
      ({marker_path} \<union> ({MKINITCPIO_CONF} \<union> ({} \<union> ({esp_path ''armed''} \<union> {auth_path})))) \<subseteq> artefacts"
      using esp artefact_paths(1-3) by blast
  qed (use n esp_names_members in \<open>simp only: armed_image_def fun_upd_other not_False_eq_True\<close>)
qed

text \<open>A snapshot holds what the files hold.\<close>

lemma wp_snapshot:
  "set ps \<subseteq> artefacts \<Longrightarrow> armable w \<Longrightarrow>
    wp (snapshot ps) (\<lambda>r w'. only_sched w w' \<and> (\<forall>z. r = Ok z \<longrightarrow> z = map (\<lambda>p. (p, armed_state w p)) ps)) w"
proof (induction ps arbitrary: w)
  case Nil
  then show ?case by (simp add: wp_rules reading.refl)
next
  case (Cons p ps)
  have p: "p \<in> artefacts" using Cons.prems(1) by simp
  let ?Q = "\<lambda>r w'. only_sched w w' \<and> (\<forall>z. r = Ok z \<longrightarrow> z = map (\<lambda>p. (p, armed_state w p)) (p # ps))"
  have rest: "wp (bnd (snapshot ps) (\<lambda>rest. ret ((p, old) # rest))) ?Q (w\<lparr>w_sched := ss\<rparr>)"
    if old: "old = armed_state w p" for old ss
  proof (rule wp_bndI [OF Cons.IH])
    show "set ps \<subseteq> artefacts" "armable (w\<lparr>w_sched := ss\<rparr>)" using Cons.prems by (simp_all add: armable_sched)
  next
    fix rest w'
    assume "only_sched (w\<lparr>w_sched := ss\<rparr>) w' \<and> (\<forall>z. Ok rest = Ok z \<longrightarrow> z = map (\<lambda>p. (p, armed_state (w\<lparr>w_sched := ss\<rparr>) p)) ps)"
    then show "wp (ret ((p, old) # rest)) ?Q w'"
      using old by (auto simp: wp_rules armed_state_sched only_sched_def)
  qed (auto simp: only_sched_def)
  have stay: "only_sched w (w\<lparr>w_sched := ss\<rparr>)" for ss by (auto simp: only_sched_def)
  show ?case
    unfolding snapshot.simps wp_bnd [of "attempt _"] wp_attempt
  proof (rule wp_fs_read, unfold attempt_post_simps then_post_simps sum.case)
    fix ss d m s assume "look (w_vis w) p = Some (File d m s)"
    then have "armed_state w p = Some d" using armed_state_read(2) [OF Cons.prems(2) p] by blast
    then show "wp (bnd (ret (Some d)) (\<lambda>old. bnd (snapshot ps) (\<lambda>rest. ret ((p, old) # rest)))) ?Q (w\<lparr>w_sched := ss\<rparr>)"
      using rest by (simp add: wp_bnd wp_ret then_post_simps)
  next
    fix ss assume "look (w_vis w) p = None"
    then have "armed_state w p = None" using armed_state_read(1) [OF Cons.prems(2) p] by blast
    then show "wp (bnd (if NotFound = NotFound then ret None else bail ''snapshot'')
        (\<lambda>old. bnd (snapshot ps) (\<lambda>rest. ret ((p, old) # rest)))) ?Q (w\<lparr>w_sched := ss\<rparr>)"
      using rest by (simp add: wp_bnd wp_ret then_post_simps)
  qed (simp_all add: wp_rules stay)
qed

lemma resets_restore: "p \<in> artefacts \<Longrightarrow> armed_files.resets ((p, x), restore_entry (p, x))"
  by (cases x) (simp_all add: restore_entry_def armed_files.resets_put armed_files.resets_del)

lemma resets_mkinitcpio: "armed_files.resets ((MKINITCPIO_CONF, Some original), restore_mkinitcpio original)"
  unfolding armed_files.resets_def restore_mkinitcpio_def fst_conv snd_conv
  by (rule armed_files.makes_after_reading [OF reading.keeps_attempt [OF reading.keeps_readers(2)]
        armed_files.makes_put [OF artefact_paths(2)]])

text \<open>A command among the steps of a rollback stands for the entry of no file.\<close>

lemma wp_reseal:
  assumes "armable w" "armed_state w = S" and "\<And>r w'. armable w' \<Longrightarrow> armed_state w' = S \<Longrightarrow> \<not> is_err r \<Longrightarrow> Q r w'"
  shows "wp reseal_boot_best_effort Q w"
proof -
  let ?R = "\<lambda>r w'. armable w' \<and> armed_state w' = S \<and> \<not> is_err r"
  have tool: "image_tool ''ukify''" "image_tool ''/usr/lib/arxos/deathstroke/ds-seal-boot''"
    "image_tool ''/usr/local/bin/ds-seal-boot''" "image_tool ''ds-seal-boot''"
    by (simp_all add: image_tool_def)
  have again: "wp (bnd (run_cmd sealer [''--reseal-only''] []) (\<lambda>_. ret ())) ?R v"
    if "armable v" "armed_state v = S" "image_tool sealer" for v :: "'a world" and sealer
    by (rule wp_bndI [OF makes_run_cmd [OF that(3,1,2)]]) (simp_all add: wp_ret is_err_def)
  have run: "wp (bnd (run_cmd ''ukify'' [''--version''] []) (\<lambda>c.
      if \<not> cmd_success c then ret () else bnd (run_cmd sealer [''--reseal-only''] []) (\<lambda>_. ret ()))) ?R v"
    if "armable v" "armed_state v = S" "image_tool sealer" for v :: "'a world" and sealer
    by (rule wp_bndI [OF makes_run_cmd [OF tool(1) that(1,2)]], rule wp_ifI)
      (use again that(3) in \<open>simp_all add: wp_ret is_err_def\<close>)
  have seal: "wp (path_is_file p) (\<lambda>r w'. armable w' \<and> armed_state w' = S \<and> \<not> is_err r) v"
    if "armable v" "armed_state v = S" for v :: "'a world" and p
    unfolding path_is_file_def
    by (rule wp_probe) (use that in \<open>simp_all add: armable_sched armed_state_sched is_err_def\<close>)
  have "wp reseal_boot_best_effort ?R w"
    unfolding reseal_boot_best_effort_def
    apply (rule wp_bndI [OF seal [OF assms(1,2)]])
      apply (rule wp_bndI [where R = "\<lambda>r w'. armable w' \<and> armed_state w' = S \<and> \<not> is_err r \<and> (\<forall>a. r = Ok a \<longrightarrow> image_tool a)"])
         apply (rule wp_ifI)
          apply (simp add: wp_ret tool is_err_def)
         apply (rule wp_bndI [OF seal])
           apply (use tool run in \<open>simp_all add: wp_ret is_err_def\<close>)
    done
  then show ?thesis by (rule wp_mono) (use assms(3) in blast)
qed

text \<open>The rollback of \<open>arm\<close>, with the value each step is to restore.\<close>

definition arm_resets ::
  "string \<Rightarrow> nat \<Rightarrow> string \<Rightarrow> (path \<times> string option) list \<Rightarrow> ((path \<times> string option) \<times> ('x, unit) io) list" where
  "arm_resets content mode original esp =
    [((auth_path, Some content), atomic_write auth_path content mode),
     ((MKINITCPIO_CONF, Some original), restore_mkinitcpio original), ((marker_path, None), remove_if_exists marker_path)] @
    map (\<lambda>e. (e, restore_entry e)) esp @ [(([], None), run_checked ''mkinitcpio'' [''-P''])]"

lemma arm_rollback_resets: "arm_rollback content mode original esp = try_all (map snd (arm_resets content mode original esp))"
  by (simp add: arm_rollback_def arm_resets_def comp_def)

lemma resets_run_checked: "image_tool prog \<Longrightarrow> armed_files.resets (([], None), run_checked prog args)"
  unfolding armed_files.resets_def armed_files.makes_def fst_conv snd_conv
proof (intro allI impI)
  fix w :: "'a world" assume "image_tool prog" "armable w"
  moreover have "armed_state w' [] = None" for w' :: "'a world"
    using no_artefact_Nil by (simp add: armed_state_def)
  ultimately show "wp (run_checked prog args) (\<lambda>r w'. armable w' \<and> (\<forall>q. q \<notin> {[]} \<longrightarrow> armed_state w' q = armed_state w q) \<and>
      (r = Ok () \<longrightarrow> armed_state w' = (armed_state w)([] := None))) w"
    by (intro wp_mono [OF armed_files.makesD [OF makes_run_checked]]) (auto simp: fun_eq_iff)
qed

lemma arm_resets_ok:
  assumes "z \<in> set (arm_resets content mode original (map (\<lambda>p. (p, S p)) (map esp_path esp_names)))"
  shows "armed_files.resets z"
proof -
  have tool: "image_tool ''mkinitcpio''" by (simp add: image_tool_def)
  have "armed_files.resets (e, restore_entry e)" if "e \<in> set (map (\<lambda>p. (p, S p)) (map esp_path esp_names))" for e
    using that artefact_paths(4) resets_restore by (auto simp del: map_map)
  then show ?thesis
    using assms artefact_paths(1,3) unfolding arm_resets_def
    by (auto simp: armed_files.resets_put armed_files.resets_del resets_mkinitcpio resets_run_checked [OF tool] simp del: map_map)
qed

lemma arm_resets_keys:
  "map (fst \<circ> fst) (arm_resets content mode original (map (\<lambda>p. (p, S p)) (map esp_path esp_names))) =
    [auth_path, MKINITCPIO_CONF, marker_path] @ map esp_path esp_names @ [[]]"
  by (simp add: arm_resets_def comp_def)

lemma arm_resets_before:
  assumes "((p, x), n) \<in> set (arm_resets content mode original (map (\<lambda>p. (p, S p)) (map esp_path esp_names)))"
    and "S auth_path = Some content" "S MKINITCPIO_CONF = Some original" "S marker_path = None" "S [] = None"
  shows "x = S p"
  using assms by (auto simp: arm_resets_def)

definition arm_post ::
  "string \<Rightarrow> policy \<Rightarrow> u8 \<Rightarrow> u8 \<Rightarrow> string \<Rightarrow> 'x world \<Rightarrow> unit res \<Rightarrow> 'x world \<Rightarrow> bool" where
  "arm_post verifier cfg daily_slot recovery_slot content w r w' \<longleftrightarrow>
    (r = Ok () \<longrightarrow> armable w' \<and> (\<exists>updated. arm_pam_stack (w_debug w) content = Ok updated \<and>
      armed_state w' = armed_image verifier cfg daily_slot recovery_slot updated (armed_state w))) \<and>
    (\<forall>e. r = Err e \<longrightarrow> e \<noteq> Msg ''arm failed; rollback INCOMPLETE'' \<longrightarrow> armed_state w' = armed_state w)"

lemma arm_post_stay:
  "armed_state v = armed_state w \<Longrightarrow> arm_post verifier cfg daily_slot recovery_slot content w (Err e) v"
  "arm_post verifier cfg daily_slot recovery_slot content w (Halt h) v"
  by (simp_all add: arm_post_def)

text \<open>The transaction from the commit on, given what the snapshots hold.\<close>

abbreviation arm_end ::
  "string \<Rightarrow> policy \<Rightarrow> u8 \<Rightarrow> u8 \<Rightarrow> string \<Rightarrow> string \<Rightarrow> nat \<Rightarrow> string \<Rightarrow> (path \<times> string option) list \<Rightarrow> ('x, unit) io" where
  "arm_end verifier cfg daily_slot recovery_slot content updated mode original z \<equiv>
    bnd (attempt (arm_commit verifier cfg daily_slot recovery_slot updated mode)) (\<lambda>result.
    case result of
      Inr _ \<Rightarrow> reseal_boot_best_effort
    | Inl e \<Rightarrow>
        bnd (arm_rollback content mode original z) (\<lambda>errors.
        if errors > 0 then bail ''arm failed; rollback INCOMPLETE''
        else bail ''arm transaction rolled back''))"

lemma wp_arm_end:
  fixes v w :: "'a world"
  assumes before: "armed_state w auth_path = Some content" "armed_state w marker_path = None"
      "armed_state w MKINITCPIO_CONF = Some original"
    and updated: "arm_pam_stack (w_debug w) content = Ok updated" and v: "armable v" "armed_state v = armed_state w"
  shows "wp (arm_end verifier cfg daily_slot recovery_slot content updated mode original
      (map (\<lambda>p. (p, armed_state w p)) (map esp_path esp_names)))
    (arm_post verifier cfg daily_slot recovery_slot content w) v"
  unfolding arm_rollback_resets
proof (rule armed_files.transaction [OF makes_arm_commit, where d = "armed_state w"])
  let ?Q = "arm_post verifier cfg daily_slot recovery_slot content w"
  let ?zs = "arm_resets content mode original (map (\<lambda>p. (p, armed_state w p)) (map esp_path esp_names))"
  show "\<forall>z\<in>set ?zs. armed_files.resets z" using arm_resets_ok by blast
  show "distinct (map (fst \<circ> fst) ?zs)" unfolding arm_resets_keys using paths_distinct by auto
  have keys: "artefacts - set (map (fst \<circ> fst) ?zs) = {}" unfolding arm_resets_keys artefacts_def by auto
  show "armed_files.shrinks (artefacts - set (map (fst \<circ> fst) ?zs)) (arm_commit verifier cfg daily_slot recovery_slot updated mode)"
    unfolding keys by (rule armed_files.shrinks_makes [OF makes_arm_commit]) simp
  show "?Q (Err (Msg ''arm transaction rolled back'')) u"
    if "\<forall>q. armed_state u q = armed_state w q \<or> q \<in> artefacts - set (map (fst \<circ> fst) ?zs) \<and> armed_state u q = None" for u
    by (rule arm_post_stay, rule ext) (use that in \<open>simp only: keys empty_iff simp_thms\<close>)
  have "armed_state w [] = None" using no_artefact_Nil by (simp add: armed_state_def)
  then show "x = armed_state w p" if "((p, x), n) \<in> set ?zs" for p x n
    using arm_resets_before that before by blast
  show "wp reseal_boot_best_effort ?Q u"
    if "armable u" "armed_state u = armed_image verifier cfg daily_slot recovery_slot updated (armed_state w)" for u
    by (rule wp_reseal [OF that]) (use updated in \<open>auto simp: arm_post_def is_err_def\<close>)
qed (use v in \<open>simp_all add: arm_post_def\<close>)

lemma wp_arm_snapshot:
  fixes v w :: "'a world"
  assumes before: "armed_state w auth_path = Some content" "armed_state w marker_path = None"
      "armed_state w MKINITCPIO_CONF = Some original"
    and updated: "arm_pam_stack (w_debug w) content = Ok updated" and v: "armable v" "armed_state v = armed_state w"
  shows "wp (bnd (snapshot (map esp_path esp_names)) (\<lambda>esp_snapshot.
      arm_end verifier cfg daily_slot recovery_slot content updated mode original esp_snapshot))
    (arm_post verifier cfg daily_slot recovery_slot content w) v"
proof (rule wp_bndI [OF wp_snapshot [OF _ v(1)]])
  show "set (map esp_path esp_names) \<subseteq> artefacts" using artefact_paths(4) by auto
next
  fix z and v' :: "'a world"
  assume "only_sched v v' \<and> (\<forall>y. Ok z = Ok y \<longrightarrow> y = map (\<lambda>p. (p, armed_state v p)) (map esp_path esp_names))"
  then have z: "z = map (\<lambda>p. (p, armed_state w p)) (map esp_path esp_names)" and v': "armable v'" "armed_state v' = armed_state w"
    using v by (auto simp: only_sched_def armable_sched armed_state_sched)
  show "wp (arm_end verifier cfg daily_slot recovery_slot content updated mode original z)
      (arm_post verifier cfg daily_slot recovery_slot content w) v'"
    unfolding z by (rule wp_arm_end [OF before updated v'])
qed (use v in \<open>auto simp: arm_post_def only_sched_def armed_state_sched\<close>)

lemma wp_arm_transaction:
  fixes w :: "'a world"
  assumes w: "armable w" and before: "armed_state w auth_path = Some content" "armed_state w marker_path = None"
  shows "wp (arm_transaction verifier cfg daily_slot recovery_slot content)
    (arm_post verifier cfg daily_slot recovery_slot content w) w"
  unfolding arm_transaction_def Let_def
proof (intro wp_bnd_ask wp_bnd_lift wp_bnd_reading [OF reading.keeps_readers(2)])
  let ?Q = "arm_post verifier cfg daily_slot recovery_slot content w"
  fix updated meta ss
  assume updated: "arm_pam_stack (w_debug w) content = Ok updated"
  let ?w = "w\<lparr>w_sched := ss\<rparr>"
  have "armable ?w" using armable_sched [OF w] .
  from wp_put_beside [OF backup_beside backup_anchored [OF this] this]
  show "wp (bnd (atomic_write backup_path content (mode_bits meta)) (\<lambda>_.
      bnd (ctx ''snapshot mkinitcpio.conf'' (fs_read MKINITCPIO_CONF)) (\<lambda>mkinit_original.
      bnd (snapshot (map esp_path esp_names)) (\<lambda>esp_snapshot.
      arm_end verifier cfg daily_slot recovery_slot content updated (mode_bits meta) mkinit_original esp_snapshot)))) ?Q ?w"
  proof (rule wp_bndI, goal_cases)
    case (1 u v)
    then have v: "armable v" "armed_state v = armed_state w" using only_backup [of v w] by (auto simp: armed_state_sched)
    show ?case
      unfolding wp_bnd [of "ctx _ _"] wp_ctx
    proof (rule wp_fs_read, unfold rctx_simps then_post_simps, goal_cases)
      case (4 tt d m s)
      then have "armed_state w MKINITCPIO_CONF = Some d" using armed_state_read(2) [OF v(1) artefact_paths(2)] v(2) by simp
      then show ?case
        by (rule wp_arm_snapshot [OF before _ updated]) (simp_all add: v armable_sched armed_state_sched)
    qed (simp_all add: v armed_state_sched arm_post_stay)
  next
    case (2 e v)
    then show ?case using only_backup [of v w] by (auto simp: armed_state_sched intro: arm_post_stay)
  qed (simp add: arm_post_stay)
qed (simp_all add: armed_state_sched arm_post_stay)

text \<open>
  C4. Arming is all or nothing, whatever system calls and commands fail on the way: when the transaction
  succeeds the PAM stack, \<open>mkinitcpio.conf\<close>, the markers and the state on the ESP are exactly the armed
  ones, and when it ends with any error but the one that says so, every one of these files has the
  content it had before, or is missing as before.
\<close>

theorem arm_all_or_nothing:
  assumes w: "armable w" and content: "armed_state w auth_path = Some content"
    and unmarked: "armed_state w marker_path = None"
    and run: "arm_transaction verifier cfg daily_slot recovery_slot content w = (r, w')"
  shows "(r = Ok () \<longrightarrow> (\<exists>updated. arm_pam_stack (w_debug w) content = Ok updated \<and>
      armed_state w' = armed_image verifier cfg daily_slot recovery_slot updated (armed_state w))) \<and>
    (\<forall>e. r = Err e \<longrightarrow> e \<noteq> Msg ''arm failed; rollback INCOMPLETE'' \<longrightarrow> armed_state w' = armed_state w)"
proof -
  from wpD [OF wp_arm_transaction [OF w content unmarked] run] show ?thesis unfolding arm_post_def by blast
qed

text \<open>
  The arming of a stock machine whose \<open>mkinitcpio.conf\<close> has no \<open>HOOKS=\<close> line: it fails after the state on
  the ESP and the marker are written, and is rolled back.
\<close>

theorem arm_all_or_nothing_witness:
  "\<exists>w'. arm_transaction ''v'' default_policy 0 1 stock_auth bare_machine = (Err (Msg ''arm transaction rolled back''), w') \<and>
    armed_state w' = armed_state bare_machine"
proof -
  obtain w' where run: "arm_transaction ''v'' default_policy 0 1 stock_auth bare_machine =
      (Err (Msg ''arm transaction rolled back''), w')"
    using bare_machine_rolls_back by blast
  have "armable bare_machine" using bare_smooth by (simp add: smooth_def)
  from arm_all_or_nothing [OF this bare_files(1,2) run] run show ?thesis by simp
qed

end
