(* ===== verification/Disarm_Safety.thy ===== *)
theory Disarm_Safety
  imports Arm_Safety
begin

text \<open>
  Disarming as a transaction on the map of artefacts: the steps, the rollback, and the property of the
  whole command.
\<close>

section \<open>The steps\<close>

abbreviation esp_marker_path :: path where "esp_marker_path \<equiv> esp_path ''armed''"

lemma esp_marker: "esp_marker_path \<in> artefacts"
  by (rule artefact_paths(4) [OF esp_names_members(6)])

lemma marker_distinct:
  "auth_path \<noteq> marker_path" "auth_path \<noteq> esp_marker_path" "marker_path \<noteq> esp_marker_path"
  "MKINITCPIO_CONF \<noteq> marker_path" "MKINITCPIO_CONF \<noteq> esp_marker_path" "MKINITCPIO_CONF \<noteq> auth_path"
  "[] \<noteq> auth_path" "[] \<noteq> marker_path" "[] \<noteq> esp_marker_path" "[] \<noteq> MKINITCPIO_CONF"
  using paths_distinct esp_names_members(6) by auto

text \<open>The map that disarming aims at; \<open>backup\<close> is the PAM stack saved by \<open>arm\<close>, if it is to be put back.\<close>

definition disarmed_image :: "string option \<Rightarrow> (path \<rightharpoonup> string) \<Rightarrow> path \<rightharpoonup> string" where
  "disarmed_image backup S =
    S(auth_path := (case backup of Some b \<Rightarrow> Some b | None \<Rightarrow> S auth_path),
      marker_path := None, esp_marker_path := None,
      MKINITCPIO_CONF := map_option (rewritten without_deathstroke_hook) (S MKINITCPIO_CONF))"

definition disarm_paths :: "string option \<Rightarrow> path set" where
  "disarm_paths backup = (if backup = None then {} else {auth_path}) \<union> {marker_path, esp_marker_path, MKINITCPIO_CONF}"

lemma makes_put_back:
  "armed_files.makes (if backup = None then {} else {auth_path})
    (\<lambda>S. S(auth_path := (case backup of Some b \<Rightarrow> Some b | None \<Rightarrow> S auth_path)))
    (case backup of Some original \<Rightarrow> atomic_write auth_path original mode | None \<Rightarrow> ret ())"
  using armed_files.makes_put [OF artefact_paths(1)] armed_files.makes_ret by (cases backup) simp_all

lemma tool_mkinitcpio: "image_tool ''mkinitcpio''"
  by (simp add: image_tool_def)

lemma makes_disarm_commit:
  "armed_files.makes (disarm_paths backup) (disarmed_image backup) (disarm_commit backup mode)"
proof -
  note seq = armed_files.makes_bnd and del = armed_files.makes_del
  note all = seq [OF makes_put_back seq [OF del [OF artefact_paths(3)] seq [OF del [OF esp_marker]
    seq [OF makes_rewrite [of without_deathstroke_hook] makes_run_checked [OF tool_mkinitcpio]]]]]
  show ?thesis
    unfolding disarm_commit_def remove_rewrites
    by (rule armed_files.makes_weaken [OF all])
      (use marker_distinct in \<open>auto simp: disarm_paths_def disarmed_image_def fun_upd_twist\<close>)
qed

lemma shrinks_disarm_commit: "armed_files.shrinks {marker_path, esp_marker_path} (disarm_commit backup mode)"
  unfolding disarm_commit_def remove_rewrites
  by (intro armed_files.shrinks_bnd armed_files.shrinks_del artefact_paths(3) esp_marker
      armed_files.shrinks_makes [OF makes_put_back] armed_files.shrinks_makes [OF makes_rewrite]
      armed_files.shrinks_makes [OF makes_run_checked [OF tool_mkinitcpio]])
    (use marker_distinct in auto)

text \<open>The rollback of \<open>disarm\<close>, with the value each step is to restore.\<close>

definition disarm_resets ::
  "string \<Rightarrow> nat \<Rightarrow> string \<Rightarrow> nat \<Rightarrow> bool \<Rightarrow> bool \<Rightarrow> bool \<Rightarrow> ((path \<times> string option) \<times> ('x, unit) io) list" where
  "disarm_resets content mode original conf_mode local_armed esp_armed with_backup =
    [((MKINITCPIO_CONF, Some original), atomic_write MKINITCPIO_CONF original conf_mode)] @
      (if local_armed then [((marker_path, Some ''armed=1\<newline>''), atomic_write marker_path ''armed=1\<newline>'' 384)] else []) @
      (if esp_armed then [((esp_marker_path, Some ''armed=1\<newline>''), atomic_write esp_marker_path ''armed=1\<newline>'' 384)] else []) @
      (if with_backup then [((auth_path, Some content), atomic_write auth_path content mode)] else []) @
      [(([], None), run_checked ''mkinitcpio'' [''-P''])]"

lemma disarm_rollback_resets:
  "disarm_rollback content mode original conf_mode l e b =
    try_all (map snd (disarm_resets content mode original conf_mode l e b))"
  by (simp add: disarm_rollback_def disarm_resets_def)

lemma disarm_resets_ok: "z \<in> set (disarm_resets content mode original conf_mode l e b) \<Longrightarrow> armed_files.resets z"
  using artefact_paths(1-3) esp_marker
  by (auto simp: disarm_resets_def armed_files.resets_put resets_run_checked [OF tool_mkinitcpio] split: if_splits)

lemma disarm_resets_keys:
  "set (map (fst \<circ> fst) (disarm_resets content mode original conf_mode l e b)) =
    {MKINITCPIO_CONF, []} \<union> (if l then {marker_path} else {}) \<union> (if e then {esp_marker_path} else {}) \<union>
    (if b then {auth_path} else {})"
  "distinct (map (fst \<circ> fst) (disarm_resets content mode original conf_mode l e b))"
  using marker_distinct by (auto simp: disarm_resets_def)

lemma disarm_resets_before:
  assumes "((p, x), n) \<in> set (disarm_resets content mode original conf_mode l e b)"
    and "S auth_path = Some content" "S MKINITCPIO_CONF = Some original" "S [] = None"
    and "l \<longrightarrow> S marker_path = Some ''armed=1\<newline>''" "e \<longrightarrow> S esp_marker_path = Some ''armed=1\<newline>''"
  shows "x = S p"
  using assms by (auto simp: disarm_resets_def split: if_splits)

section \<open>The command\<close>

lemma without_backup: "armed_state (w\<lparr>w_sched := ss, w_vis := fs_del backup_path (w_vis w)\<rparr>) = armed_state w"
  by (rule armed_state_eqI) (use backup_not_artefact in auto)

lemma file_probed:
  assumes "\<And>ss. Q (Ok False) (w\<lparr>w_sched := ss\<rparr>)" "\<And>ss. Q (Halt PowerLoss) (w\<lparr>w_sched := ss\<rparr>)"
    and "\<And>ss. armed_state w p \<noteq> None \<Longrightarrow> Q (Ok True) (w\<lparr>w_sched := ss\<rparr>)"
    and "armable w" "p \<in> artefacts"
  shows "wp (path_is_file p) Q w"
  unfolding path_is_file_def
  by (rule wp_probe) (use assms armed_state_read [of w p] in \<open>auto simp: is_file_node_def split: option.splits node.splits\<close>)

text \<open>What is to be put back: the saved stack when \<open>content\<close> is armed, nothing otherwise.\<close>

definition saved_stack :: "'x world \<Rightarrow> string \<Rightarrow> string option \<Rightarrow> bool" where
  "saved_stack w content backup \<longleftrightarrow>
    (if contains content ARM_MARKER then \<exists>b. backup = Some b \<and> read_result (w_vis w) backup_path = Ok b
     else backup = None)"

lemma saved_stack_sched [simp]: "saved_stack (w\<lparr>w_sched := ss\<rparr>) content backup = saved_stack w content backup"
  by (simp add: saved_stack_def)

text \<open>The PAM stack is read back from the backup when it is armed.\<close>

lemma saved_backup:
  "wp (if contains content ARM_MARKER
      then bnd (ctx ''PAM backup missing; refusing a partial disarm'' (read_to_string backup_path)) (\<lambda>b. ret (Some b))
      else ret None)
    (\<lambda>r w'. only_sched w w' \<and> (\<forall>backup. r = Ok backup \<longrightarrow>
      saved_stack w content backup)) w"
proof (rule wp_ifI)
  have s: "only_sched w (w\<lparr>w_sched := ss\<rparr>)" for ss by (auto simp: only_sched_def)
  assume "contains content ARM_MARKER"
  then show "wp (bnd (ctx ''PAM backup missing; refusing a partial disarm'' (read_to_string backup_path)) (\<lambda>b. ret (Some b)))
      (\<lambda>r w'. only_sched w w' \<and> (\<forall>backup. r = Ok backup \<longrightarrow>
        saved_stack w content backup)) w"
    unfolding wp_bnd wp_ctx
    by (intro wp_read_to_string) (use s in \<open>auto simp: wp_ret then_post_simps read_result_def saved_stack_def\<close>)
qed (simp add: wp_ret reading.refl saved_stack_def)

lemma disarm_transaction:
  assumes v: "armable v" "armed_state v = S"
    and before: "S auth_path = Some content" "S MKINITCPIO_CONF = Some original"
      "l \<longrightarrow> S marker_path = Some ''armed=1\<newline>''" "e \<longrightarrow> S esp_marker_path = Some ''armed=1\<newline>''"
    and done_ok: "\<And>v r. armed_state v = disarmed_image backup S \<Longrightarrow> \<not> is_err r \<or> r = Err (Msg ''remove PAM backup'') \<Longrightarrow> Q r v"
    and incomplete: "\<And>v. Q (Err (Msg ''disarm failed; rollback INCOMPLETE'')) v"
    and restored: "\<And>v. \<forall>p. armed_state v p = S p \<or>
        (p = marker_path \<and> \<not> l \<or> p = esp_marker_path \<and> \<not> e) \<and> armed_state v p = None \<Longrightarrow>
      Q (Err (Msg ''disarm failed; armed PAM, markers, and initramfs restored'')) v"
    and halt: "\<And>h v. Q (Halt h) v"
  shows "wp (bnd (attempt (disarm_commit backup mode)) (\<lambda>result.
    case result of
      Inr _ \<Rightarrow> (if backup \<noteq> None then ctx ''remove PAM backup'' (remove_file backup_path) else ret ())
    | Inl e' \<Rightarrow>
        bnd (disarm_rollback content mode original conf_mode l e (backup \<noteq> None)) (\<lambda>errors.
        if errors > 0 then bail ''disarm failed; rollback INCOMPLETE''
        else bail ''disarm failed; armed PAM, markers, and initramfs restored''))) Q v"
  unfolding disarm_rollback_resets
proof (rule armed_files.transaction [OF makes_disarm_commit, where d = S])
  let ?zs = "disarm_resets content mode original conf_mode l e (backup \<noteq> None) ::
    ((path \<times> string option) \<times> ('a, unit) io) list"
  let ?ks = "set (map (fst \<circ> fst) ?zs)"
  have left: "q = marker_path \<and> \<not> l \<or> q = esp_marker_path \<and> \<not> e" if "q \<in> disarm_paths backup - ?ks" for q
    using that unfolding disarm_resets_keys by (auto simp: disarm_paths_def split: if_splits)
  then have "disarm_paths backup - ?ks \<subseteq> {marker_path, esp_marker_path}" by blast
  then show "armed_files.shrinks (disarm_paths backup - ?ks) (disarm_commit backup mode)"
    using shrinks_disarm_commit unfolding armed_files.shrinks_def by (blast intro: wp_mono)
  show "\<forall>z\<in>set ?zs. armed_files.resets z" using disarm_resets_ok by blast
  show "distinct (map (fst \<circ> fst) ?zs)" by (rule disarm_resets_keys(2))
  have "S [] = None" using v(2) no_artefact_Nil by (auto simp: armed_state_def)
  then show "x = S p" if "((p, x), n) \<in> set ?zs" for p x n
    by (rule disarm_resets_before [where S = S, OF that before(1,2) _ before(3,4)])
  show "Q (Err (Msg ''disarm failed; armed PAM, markers, and initramfs restored'')) u"
    if "\<forall>q. armed_state u q = S q \<or> q \<in> disarm_paths backup - ?ks \<and> armed_state u q = None" for u
    using restored that left by blast
  show "wp (if backup \<noteq> None then ctx ''remove PAM backup'' (remove_file backup_path) else ret ()) Q u"
    if "armable u" "armed_state u = disarmed_image backup S" for u
  proof (rule wp_ifI)
    have "wp (remove_file backup_path) (\<lambda>r w'. armed_state w' = disarmed_image backup S) u"
      by (rule wp_remove_file) (simp_all add: armed_state_sched without_backup that)
    then show "wp (ctx ''remove PAM backup'' (remove_file backup_path)) Q u"
      unfolding wp_ctx by (rule wp_mono) (auto simp: rctx_def is_err_def intro!: done_ok split: res.splits)
    show "wp (ret ()) Q u" by (simp add: wp_ret done_ok that is_err_def)
  qed
qed (use v incomplete halt in simp_all)

section \<open>The command, step by step\<close>

text \<open>What \<open>disarm\<close> reads before it changes anything, and what it does with it.\<close>

record disarm_seen =
  seen_content :: string
  seen_backup :: "string option"
  seen_mode :: nat
  seen_conf :: string
  seen_conf_mode :: nat
  seen_local :: bool
  seen_esp :: bool

definition disarm_snapshot :: "('x, disarm_seen) io" where
  "disarm_snapshot =
    bnd require_root (\<lambda>_.
    bnd (ctx ''read system-auth'' (read_to_string auth_path)) (\<lambda>content.
    bnd (if contains content ARM_MARKER
         then bnd (ctx ''PAM backup missing; refusing a partial disarm'' (read_to_string backup_path)) (\<lambda>b. ret (Some b))
         else ret None) (\<lambda>backup.
    bnd (metadata auth_path) (\<lambda>meta.
    bnd (ctx ''snapshot mkinitcpio.conf'' (fs_read MKINITCPIO_CONF)) (\<lambda>mkinit_original.
    bnd (metadata MKINITCPIO_CONF) (\<lambda>mkinit_meta.
    bnd (path_is_file marker_path) (\<lambda>local_was_armed.
    bnd (path_is_file esp_marker_path) (\<lambda>esp_was_armed.
    ret (\<lparr>seen_content = content, seen_backup = backup, seen_mode = mode_bits meta, seen_conf = mkinit_original,
      seen_conf_mode = mode_bits mkinit_meta, seen_local = local_was_armed, seen_esp = esp_was_armed\<rparr>)))))))))"

definition disarm_apply :: "disarm_seen \<Rightarrow> ('x, unit) io" where
  "disarm_apply s =
    bnd (attempt (disarm_commit (seen_backup s) (seen_mode s))) (\<lambda>result.
    case result of
      Inr _ \<Rightarrow> (if seen_backup s \<noteq> None then ctx ''remove PAM backup'' (remove_file backup_path) else ret ())
    | Inl e \<Rightarrow>
        bnd (disarm_rollback (seen_content s) (seen_mode s) (seen_conf s) (seen_conf_mode s) (seen_local s) (seen_esp s)
          (seen_backup s \<noteq> None)) (\<lambda>errors.
        if errors > 0 then bail ''disarm failed; rollback INCOMPLETE''
        else bail ''disarm failed; armed PAM, markers, and initramfs restored''))"

lemma disarm_parts: "disarm = bnd disarm_snapshot disarm_apply"
  unfolding disarm_def disarm_snapshot_def bnd_assoc bnd_ret disarm_apply_def disarm_seen.simps Let_def ..

text \<open>What was read is what was there, but for a marker that was taken to be absent.\<close>

definition seen_right :: "'x world \<Rightarrow> disarm_seen res \<Rightarrow> 'x world \<Rightarrow> bool" where
  "seen_right w r v \<longleftrightarrow> only_sched w v \<and> (\<forall>s. r = Ok s \<longrightarrow>
    armed_state w auth_path = Some (seen_content s) \<and> saved_stack w (seen_content s) (seen_backup s) \<and>
    armed_state w MKINITCPIO_CONF = Some (seen_conf s) \<and>
    (seen_local s \<longrightarrow> armed_state w marker_path \<noteq> None) \<and> (seen_esp s \<longrightarrow> armed_state w esp_marker_path \<noteq> None))"

lemma seen_right_stay: "seen_right w (Err e) (w\<lparr>w_sched := ss\<rparr>)" "seen_right w (Halt h) (w\<lparr>w_sched := ss\<rparr>)"
  by (auto simp: seen_right_def only_sched_def)

lemma sched_again: "w\<lparr>w_sched := ss, w_sched := tt\<rparr> = w\<lparr>w_sched := tt\<rparr>"
  by simp

lemma wp_probed_mark:
  assumes "armable w" "p \<in> artefacts"
    and "\<And>b ss. b \<longrightarrow> armed_state w p \<noteq> None \<Longrightarrow> wp (f b) (seen_right w) (w\<lparr>w_sched := ss\<rparr>)"
  shows "wp (bnd (path_is_file p) f) (seen_right w) (w\<lparr>w_sched := ss\<rparr>)"
  unfolding wp_bnd
proof (rule file_probed [OF _ _ _ armable_sched [OF assms(1)] assms(2)], unfold then_post_simps sched_again, goal_cases)
  case (1 tt)
  show ?case by (rule assms(3)) simp
next
  case (3 tt)
  then show ?case by (intro assms(3)) (simp add: armed_state_sched)
qed (rule seen_right_stay)

lemma wp_seen_conf:
  assumes w: "armable w"
    and marks: "\<And>original conf_mode l e tt. armed_state w MKINITCPIO_CONF = Some original \<Longrightarrow>
      l \<longrightarrow> armed_state w marker_path \<noteq> None \<Longrightarrow> e \<longrightarrow> armed_state w esp_marker_path \<noteq> None \<Longrightarrow>
      wp (f original conf_mode l e) (seen_right w) (w\<lparr>w_sched := tt\<rparr>)"
  shows "wp (bnd (ctx ''snapshot mkinitcpio.conf'' (fs_read MKINITCPIO_CONF)) (\<lambda>mkinit_original.
    bnd (metadata MKINITCPIO_CONF) (\<lambda>mkinit_meta.
    bnd (path_is_file marker_path) (\<lambda>l. bnd (path_is_file esp_marker_path) (\<lambda>e.
    f mkinit_original (mode_bits mkinit_meta) l e))))) (seen_right w) (w\<lparr>w_sched := ss\<rparr>)"
  unfolding wp_bnd [of "ctx _ _"] wp_ctx
proof (rule wp_fs_read, unfold rctx_simps then_post_simps, goal_cases)
  case (4 tt d m s)
  have conf: "armed_state w MKINITCPIO_CONF = Some d"
    using armed_state_read(2) [OF armable_sched [OF w] artefact_paths(2) 4] by (simp add: armed_state_sched)
  show ?case
  proof (rule wp_bnd_reading [OF reading.keeps_readers(2)], unfold sched_again)
    fix meta uu
    show "wp (bnd (path_is_file marker_path) (\<lambda>l. bnd (path_is_file esp_marker_path) (\<lambda>e.
        f d (mode_bits meta) l e))) (seen_right w) (w\<lparr>w_sched := uu\<rparr>)"
      by (rule wp_probed_mark [OF w artefact_paths(3)], rule wp_probed_mark [OF w esp_marker], rule marks [OF conf])
  qed (rule seen_right_stay)+
qed (simp_all add: seen_right_stay)

lemma wp_disarm_snapshot:
  assumes w: "armable w"
  shows "wp disarm_snapshot (seen_right w) w"
  unfolding disarm_snapshot_def
proof (rule wp_bnd_reading [OF keeps_require_root], unfold wp_bnd [of "ctx _ (read_to_string auth_path)"] wp_ctx, goal_cases)
  case (1 u ss)
  show ?case
  proof (rule wp_read_to_string, unfold rctx_simps then_post_simps, goal_cases)
    case (4 tt content m s)
    have a: "armed_state w auth_path = Some content"
      using armed_state_read(2) [OF armable_sched [OF w(1)] artefact_paths(1) 4(1)] by (simp add: armed_state_sched)
    show ?case
    proof (rule wp_bndI [OF saved_backup], goal_cases)
      case (1 backup v)
      then obtain vv where "v = w\<lparr>w_sched := ss, w_sched := tt, w_sched := vv\<rparr>" unfolding only_sched_def by blast
      then have v: "v = w\<lparr>w_sched := vv\<rparr>" by simp
      from 1 have b: "saved_stack w content backup" by simp
      show ?case
        unfolding v
        by (rule wp_bnd_reading [OF reading.keeps_readers(2)], unfold sched_again, rule wp_seen_conf [OF w])
          (use a b in \<open>auto simp: wp_ret seen_right_def only_sched_def\<close>)
    qed (auto simp: only_sched_def seen_right_stay)
  qed (simp_all add: seen_right_stay)
qed (simp_all add: seen_right_stay)

text \<open>A marker that is there and was taken to be absent; without faults there is none.\<close>

definition mark_unread :: "'x world \<Rightarrow> path \<Rightarrow> bool" where
  "mark_unread w p \<longleftrightarrow> armed_state w p \<noteq> None \<and>
    (\<exists>s v. disarm_snapshot w = (Ok s, v) \<and> (p = marker_path \<and> \<not> seen_local s \<or> p = esp_marker_path \<and> \<not> seen_esp s))"

lemma calm_probe_file:
  assumes "armable w" "w_sched w = []" "p \<in> artefacts" "armed_state w p \<noteq> None"
  shows "path_is_file p w = (Ok True, w)"
proof -
  obtain d where "armed_state w p = Some d" using assms(4) by blast
  then obtain m s where "look (w_vis w) p = Some (File d m s)" using armed_state_file [OF assms(1)] by blast
  then show ?thesis using assms(2) by (simp add: path_is_file_def probe_def is_file_node_def)
qed

lemma idle_root: "idle require_root"
  unfolding require_root_def Let_def
  by (intro idle_bnd idle_basic) (auto simp: idle_def attempt_def read_to_string_def sys_def split: prod.splits res.splits)

lemma mark_read:
  assumes w: "armable w" "w_sched w = []"
  shows "\<not> mark_unread w p"
proof
  assume "mark_unread w p"
  then obtain s v where p: "armed_state w p \<noteq> None" and run: "disarm_snapshot w = (Ok s, v)"
    and missed: "p = marker_path \<and> \<not> seen_local s \<or> p = esp_marker_path \<and> \<not> seen_esp s"
    unfolding mark_unread_def by blast
  have idle: "idle (ctx c (read_to_string q))" "idle (ctx c (fs_read q))" "idle (metadata q)"
    "idle (if b then bnd (ctx c (read_to_string q)) (\<lambda>x. ret (Some x)) else ret None)" for c q b
    by (auto intro!: idle_bnd idle_basic idle_ctx)
  note step = bnd_idle [OF _ w(2)]
  from run have "path_is_file marker_path w = (Ok (seen_local s), w) \<and> path_is_file esp_marker_path w = (Ok (seen_esp s), w)"
    unfolding disarm_snapshot_def
    by (elim step [OF idle_root] step [OF idle(1)] step [OF idle(2)] step [OF idle(3)] step [OF idle(4)] step [OF idle_basic(9)])
      (clarsimp simp: ret_def)
  then show False
    using missed p calm_probe_file [OF w artefact_paths(3)] calm_probe_file [OF w esp_marker] by auto
qed

abbreviation marked_armed :: "'x world \<Rightarrow> path \<Rightarrow> bool" where
  "marked_armed w p \<equiv> armed_state w p \<in> {None, Some ''armed=1\<newline>''}"

lemma wp_disarm_apply:
  assumes "seen_right w (Ok s) v" "armable w"
    and "marked_armed w marker_path" "marked_armed w esp_marker_path"
  shows "wp (disarm_apply s) (\<lambda>r w'.
    (r = Ok () \<longrightarrow> armed_state w' = disarmed_image (seen_backup s) (armed_state w)) \<and>
    (\<forall>x. r = Err x \<longrightarrow> x \<notin> {Msg ''disarm failed; rollback INCOMPLETE'', Msg ''remove PAM backup''} \<longrightarrow>
      (\<forall>p. armed_state w' p = armed_state w p \<or>
        (p = marker_path \<and> \<not> seen_local s \<or> p = esp_marker_path \<and> \<not> seen_esp s) \<and> armed_state w' p = None))) v"
proof -
  obtain ss where v: "v = w\<lparr>w_sched := ss\<rparr>" using assms(1) by (auto simp: seen_right_def only_sched_def)
  have "seen_local s \<longrightarrow> armed_state w marker_path \<noteq> None" "seen_esp s \<longrightarrow> armed_state w esp_marker_path \<noteq> None"
    using assms(1) by (simp_all add: seen_right_def)
  then have marks: "seen_local s \<longrightarrow> armed_state w marker_path = Some ''armed=1\<newline>''"
    "seen_esp s \<longrightarrow> armed_state w esp_marker_path = Some ''armed=1\<newline>''"
    using assms(3,4) by auto
  have files: "armed_state w auth_path = Some (seen_content s)" "armed_state w MKINITCPIO_CONF = Some (seen_conf s)"
    using assms(1) by (simp_all add: seen_right_def)
  show ?thesis
    unfolding v disarm_apply_def
  proof (rule disarm_transaction [where S = "armed_state w" and backup = "seen_backup s" and l = "seen_local s" and e = "seen_esp s",
        OF armable_sched [OF assms(2)] armed_state_sched files marks], goal_cases)
    case (1 u r)
    then show ?case by (auto simp: is_err_def)
  qed simp_all
qed

text \<open>
  C10. So is disarming, as a command: after success the saved PAM stack is back, both markers are gone and
  the hook is out of \<open>mkinitcpio.conf\<close>; after an error other than the two that say what is left to do, the
  machine is armed as it was, every file with the content it had. The one exception is a marker that was
  there and whose presence \<open>disarm\<close> could not read before it began: that one may be gone. Without I/O faults
  there is no such marker.
\<close>

theorem disarm_all_or_nothing:
  assumes w: "armable w" and marks: "\<forall>p\<in>{marker_path, esp_marker_path}. armed_state w p \<in> {None, Some ''armed=1\<newline>''}"
    and run: "disarm w = (r, w')"
  shows "(r = Ok () \<longrightarrow> (\<exists>content backup. armed_state w auth_path = Some content \<and>
      saved_stack w content backup \<and>
      armed_state w' = disarmed_image backup (armed_state w))) \<and>
    (\<forall>e. r = Err e \<longrightarrow> e \<notin> {Msg ''disarm failed; rollback INCOMPLETE'', Msg ''remove PAM backup''} \<longrightarrow>
      (\<forall>p. armed_state w' p = armed_state w p \<or> mark_unread w p \<and> armed_state w' p = None)) \<and>
    (w_sched w = [] \<longrightarrow> (\<forall>p. \<not> mark_unread w p))"
proof -
  obtain x v where snap: "disarm_snapshot w = (x, v)" by fastforce
  have right: "seen_right w x v" by (rule wpD [OF wp_disarm_snapshot [OF w] snap])
  have calm: "w_sched w = [] \<longrightarrow> (\<forall>p. \<not> mark_unread w p)" using mark_read [OF w] by blast
  show ?thesis
  proof (cases x)
    case (Ok s)
    then have "disarm_apply s v = (r, w')" using run snap by (simp add: disarm_parts bnd_def)
    from wpD [OF wp_disarm_apply [OF right [unfolded Ok] w] this] marks right snap Ok calm show ?thesis
      unfolding seen_right_def mark_unread_def by fastforce
  next
    case (Err e)
    then have "r = Err e" "w' = v" using run snap by (auto simp: disarm_parts bnd_def)
    then show ?thesis using right calm by (auto simp: seen_right_def only_sched_def armed_state_sched)
  next
    case (Halt h)
    then have "r = Halt h" using run snap by (auto simp: disarm_parts bnd_def)
    then show ?thesis using calm by simp
  qed
qed

section \<open>A disarming that is rolled back\<close>

lemma disarm_rolls_back:
  assumes w: "smooth w" and conf: "armed_state w MKINITCPIO_CONF = Some c" "without_deathstroke_hook c = Err e" "utf8_valid c"
  shows "\<exists>w'. disarm_apply s w = (Err (Msg ''disarm failed; armed PAM, markers, and initramfs restored''), w')"
proof -
  let ?first = "bnd (case seen_backup s of Some original \<Rightarrow> atomic_write auth_path original (seen_mode s) | None \<Rightarrow> ret ()) (\<lambda>_.
    bnd (remove_if_exists marker_path) (\<lambda>_. remove_if_exists esp_marker_path))"
  have put: "completes (conf_is c) (conf_is c)
      (case seen_backup s of Some original \<Rightarrow> atomic_write auth_path original (seen_mode s) | None \<Rightarrow> ret ())"
    using completes_put(1) [OF artefact_paths(1) not_sym [OF marker_distinct(6)]]
    by (cases "seen_backup s") (simp_all add: completes_def ret_def)
  have "completes (conf_is c) (conf_is c) ?first"
    by (rule completes_bnd put completes_del_other artefact_paths(3) esp_marker marker_distinct(4) [symmetric]
        marker_distinct(5) [symmetric])+
  then obtain u where u: "?first w = (Ok (), u)" "smooth u" "conf_is c (armed_state u)"
    using w conf(1) unfolding completes_def by blast
  have hook: "remove_deathstroke_hook u = (Err e, u)"
    unfolding remove_rewrites rewrite_conf_def
    by (simp add: bnd_def ctx_def smooth_read(1) [OF u(2) artefact_paths(2) u(3) conf(3)] lift_def conf(2) fail_def)
  have "disarm_commit (seen_backup s) (seen_mode s) w =
      bnd ?first (\<lambda>_. bnd remove_deathstroke_hook (\<lambda>_. run_checked ''mkinitcpio'' [''-P''])) w"
    by (simp only: disarm_commit_def bnd_assoc)
  then have commit: "disarm_commit (seen_backup s) (seen_mode s) w = (Err e, u)"
    by (simp only: bnd_run [where m = ?first and w = w, OF u(1)] bnd_err [where m = remove_deathstroke_hook and w = u, OF hook])
  have "\<exists>w'. disarm_rollback (seen_content s) (seen_mode s) (seen_conf s) (seen_conf_mode s) (seen_local s) (seen_esp s)
      (seen_backup s \<noteq> None) u = (Ok 0, w') \<and> smooth w'"
    unfolding disarm_rollback_def
    by (rule smooth_rollback [OF _ u(2)])
      (auto intro!: completes_put(2) completes_run [OF tool_mkinitcpio] artefact_paths esp_marker)
  then show ?thesis
    by (auto simp: disarm_apply_def bnd_def attempt_def commit bail_def fail_def)
qed

text \<open>An armed machine whose \<open>mkinitcpio.conf\<close> has no \<open>HOOKS=\<close> line.\<close>

definition armed_auth :: string where
  "armed_auth = authfail_line @ ''\<newline>''"

definition hooked_root :: fs where
  "hooked_root =
    [(components ''/proc/self/status'', File ''Uid: 0 0 0 0'' 292 True), (MKINITCPIO_CONF, File ''x'' 420 True),
     (auth_path, File armed_auth 420 True), (backup_path, File stock_auth 420 True),
     (marker_path, File ''armed=1\<newline>'' 384 True), (esp_marker_path, File ''armed=1\<newline>'' 384 True)] @ stock_root"

lemma hooked_root_facts:
  "\<forall>p\<in>artefacts. placed hooked_root p" "list_all (\<lambda>(q, _). \<not> hidden q) (take 6 hooked_root)"
  "look hooked_root (components ''/proc/self/status'') = Some (File ''Uid: 0 0 0 0'' 292 True)"
  "fs_get hooked_root MKINITCPIO_CONF = Some (File ''x'' 420 True)"
  "fs_get hooked_root auth_path = Some (File armed_auth 420 True)"
  "fs_get hooked_root backup_path = Some (File stock_auth 420 True)"
  "fs_get hooked_root marker_path = Some (File ''armed=1\<newline>'' 384 True)"
  "fs_get hooked_root esp_marker_path = Some (File ''armed=1\<newline>'' 384 True)"
  "contains armed_auth ARM_MARKER" "is_ascii armed_auth" "is_ascii ''Uid: 0 0 0 0''"
  "find (\<lambda>l. prefix ''Uid:'' l) (text_lines ''Uid: 0 0 0 0'') = Some ''Uid: 0 0 0 0''"
  "split_whitespace (drop 4 ''Uid: 0 0 0 0'') = [''0'', ''0'', ''0'', ''0'']"
  "without_deathstroke_hook ''x'' = Err (Msg ''mkinitcpio.conf has no HOOKS line'')"
  unfolding artefacts_def esp_names_def list.map by code_simp+

abbreviation hooked :: "unit world" where "hooked \<equiv> calm_machine hooked_root"

lemma hooked_smooth: "smooth hooked"
proof (rule calm_machine_smooth [OF hooked_root_facts(1)])
  show "list_all (\<lambda>(q, _). \<not> hidden q) hooked_root"
    using hooked_root_facts(2) stock_root_facts(2) by (simp add: hooked_root_def)
qed (simp add: hooked_root_facts(6) is_file_node_def)

lemma hooked_files:
  "armed_state hooked MKINITCPIO_CONF = Some ''x''" "armed_state hooked auth_path = Some armed_auth"
  "armed_state hooked marker_path = Some ''armed=1\<newline>''" "armed_state hooked esp_marker_path = Some ''armed=1\<newline>''"
  using hooked_root_facts(4-8) artefact_paths(1-3) esp_marker by (simp_all add: calm_machine_file)

lemma hooked_seen: "\<exists>s. disarm_snapshot hooked = (Ok s, hooked)"
proof -
  have arm: "armable hooked" using hooked_smooth by (simp add: smooth_def)
  have "attempt (read_to_string (components ''/proc/self/status'')) hooked = (Ok (Inr ''Uid: 0 0 0 0''), hooked)"
    using ascii_utf8_valid [OF hooked_root_facts(11)]
    by (simp add: attempt_def read_to_string_def sys_def read_result_def hooked_root_facts(3))
  then have root: "require_root hooked = (Ok (), hooked)"
    using hooked_root_facts(13) by (simp add: require_root_def bnd_def hooked_root_facts(12) Let_def require_def ret_def)
  have "look hooked_root backup_path = Some (File stock_auth 420 True)" by (rule look_File) (rule hooked_root_facts(6))
  then have saved: "read_to_string backup_path hooked = (Ok stock_auth, hooked)"
    by (simp add: read_to_string_def sys_def read_result_def stock_files(4))
  note auth = smooth_read [OF hooked_smooth artefact_paths(1) hooked_files(2) ascii_utf8_valid [OF hooked_root_facts(10)]]
  note conf = smooth_read [OF hooked_smooth artefact_paths(2) hooked_files(1) bare_conf(2)]
  note marks = calm_probe_file [OF arm _ artefact_paths(3)] calm_probe_file [OF arm _ esp_marker]
  obtain m n where "metadata auth_path hooked = (Ok m, hooked)" "metadata MKINITCPIO_CONF hooked = (Ok n, hooked)"
    using auth(3) conf(3) by blast
  then show ?thesis
    by (simp add: disarm_snapshot_def bnd_def ctx_def root auth(1) conf(2) saved hooked_root_facts(9) ret_def marks hooked_files)
qed

text \<open>
  Disarming this machine fails after the saved PAM stack is put back and both markers are removed; it is
  rolled back, and every file is as it was.
\<close>

theorem disarm_all_or_nothing_witness:
  "\<exists>w'. disarm hooked = (Err (Msg ''disarm failed; armed PAM, markers, and initramfs restored''), w') \<and>
    armed_state w' = armed_state hooked"
proof -
  obtain s where s: "disarm_snapshot hooked = (Ok s, hooked)" using hooked_seen by blast
  from disarm_rolls_back [OF hooked_smooth hooked_files(1) hooked_root_facts(14) bare_conf(2)] obtain w' where
    run: "disarm hooked = (Err (Msg ''disarm failed; armed PAM, markers, and initramfs restored''), w')"
    by (auto simp: disarm_parts bnd_def s)
  have "armable hooked" using hooked_smooth by (simp add: smooth_def)
  moreover have "\<forall>p\<in>{marker_path, esp_marker_path}. armed_state hooked p \<in> {None, Some ''armed=1\<newline>''}"
    using hooked_files(3,4) by blast
  ultimately show ?thesis using disarm_all_or_nothing [OF _ _ run] run by auto
qed

end
