(* ===== verification/Deadman.thy ===== *)
theory Deadman
  imports Ctl_State
begin

text \<open>
  The dead-man switch of \<open>dsctl\<close>: a window and the time of the last check-in in one file, and the check
  that destroys the daily slot when the window has passed. The sums and products are machine arithmetic.
\<close>

definition deadman_state :: "('x, path) io" where
  "deadman_state = state_file ''deadman''"

definition deadman_text :: "u64 \<Rightarrow> u64 \<Rightarrow> string" where
  "deadman_text window last_checkin =
    ''window_secs='' @ show_word window @ ''\<newline>last_checkin='' @ show_word last_checkin @ ''\<newline>''"

text \<open>\<open>lines().find_map(..)\<close>: the first line with the key whose value parses.\<close>

fun deadman_field :: "string \<Rightarrow> string list \<Rightarrow> u64 option" where
  "deadman_field k [] = None"
| "deadman_field k (l # ls) =
    (case strip_prefix k l of
       None \<Rightarrow> deadman_field k ls
     | Some v \<Rightarrow>
         (case parse_word (trim (dropWhile (\<lambda>c. c = CHR ''='') (trim v))) of
            None \<Rightarrow> deadman_field k ls
          | Some n \<Rightarrow> Some n))"

definition parse_deadman :: "string \<Rightarrow> (u64 \<times> u64) option" where
  "parse_deadman s =
    (case deadman_field ''window_secs'' (text_lines s) of
       None \<Rightarrow> None
     | Some w \<Rightarrow>
         (case deadman_field ''last_checkin'' (text_lines s) of None \<Rightarrow> None | Some l \<Rightarrow> Some (w, l)))"

definition read_deadman :: "('x, (u64 \<times> u64) option) io" where
  "read_deadman =
    bnd deadman_state (\<lambda>p.
    bnd (attempt (read_to_string p)) (\<lambda>r.
    ret (case r of Inr s \<Rightarrow> parse_deadman s | Inl _ \<Rightarrow> None)))"

definition now_unix :: "('x, u64) io" where
  "now_unix = ask w_clock"

definition deadman :: "string list \<Rightarrow> ('x, unit) io" where
  "deadman args =
    bnd require_root (\<lambda>_.
    if length args > 1 then
      (let h = args ! 1 in
       if h = ''off'' \<or> h = ''disable'' then bnd deadman_state remove_if_exists
       else
         bnd (lift (some_or ''deadman <hours> | off'' (parse_word h))) (\<lambda>hours :: u64.
         bnd (require (hours \<noteq> 0) ''window must be > 0 hours'') (\<lambda>_.
         bnd ensure_state_dir (\<lambda>_.
         bnd (ask w_debug) (\<lambda>dbg.
         bnd (lift (mul_checked dbg hours 3600)) (\<lambda>window.
         bnd now_unix (\<lambda>now.
         bnd deadman_state (\<lambda>p. atomic_write p (deadman_text window now) 384))))))))
    else
      bnd read_deadman (\<lambda>state.
      case state of
        None \<Rightarrow> ret ()
      | Some (window, last_checkin) \<Rightarrow>
          bnd (ask w_debug) (\<lambda>dbg.
          bnd (lift (add_checked dbg last_checkin window)) (\<lambda>_. ret ()))))"

definition checkin :: "('x, unit) io" where
  "checkin =
    bnd require_root (\<lambda>_.
    bnd read_deadman (\<lambda>state.
    case state of
      None \<Rightarrow> ret ()
    | Some (window, _) \<Rightarrow>
        bnd now_unix (\<lambda>now.
        bnd deadman_state (\<lambda>p. atomic_write p (deadman_text window now) 384))))"

definition deadman_check :: "('x, nat) io" where
  "deadman_check =
    bnd read_deadman (\<lambda>state.
    case state of
      None \<Rightarrow> ret 0
    | Some (window, last_checkin) \<Rightarrow>
        bnd now_unix (\<lambda>now.
        bnd (ask w_debug) (\<lambda>dbg.
        bnd (lift (add_checked dbg last_checkin window)) (\<lambda>due.
        if \<not> now > due then ret 0
        else
          bnd configured_target (\<lambda>target.
          bnd (lift (some_or ''no target device configured'' target)) (\<lambda>dev.
          bnd find_ds_erase (\<lambda>erase.
          bnd (run_cmd erase [''--fire'', ''--device'', dev] []) (\<lambda>st.
          ret (if cmd_success st then 2 else 1)))))))))"

section \<open>The state file\<close>

lemma strip_prefix_append: "strip_prefix p (p @ x) = Some x"
  by (simp add: strip_prefix_def)

lemma deadman_value:
  "parse_word (trim (dropWhile (\<lambda>c. c = CHR ''='') (trim (CHR ''='' # show_word (n :: u64))))) = Some n"
proof -
  have "trim (CHR ''='' # show_word n) = CHR ''='' # show_word n"
    using show_word_ends(2) [of n] by (intro trim_plain) (simp add: plain_def ascii_space_def)
  moreover have "dropWhile (\<lambda>c. c = CHR ''='') (show_word n) = show_word n"
  proof -
    have "CHR ''='' \<notin> set (show_word n)" by (rule show_word_no) (simp add: is_digit_def)
    then show ?thesis by (cases "show_word n") auto
  qed
  ultimately show ?thesis by simp
qed

lemma parse_deadman_text: "parse_deadman (deadman_text window last_checkin) = Some (window, last_checkin)"
proof -
  let ?a = "''window_secs'' @ CHR ''='' # show_word window" and ?b = "''last_checkin'' @ CHR ''='' # show_word last_checkin"
  have "deadman_text window last_checkin = ?a @ CHR 0x0A # ?b @ CHR 0x0A # []" by (simp add: deadman_text_def)
  moreover have "is_line ?a" "is_line ?b"
    using is_line_kv [of "''window_secs=''" window] is_line_kv [of "''last_checkin=''" last_checkin] by simp_all
  ultimately have lines: "text_lines (deadman_text window last_checkin) = [?a, ?b]"
    by (simp only: text_lines_append text_lines_Nil)
  have "strip_prefix ''last_checkin'' ?a = None" by (simp add: strip_prefix_def)
  then show ?thesis
    by (simp only: parse_deadman_def lines deadman_field.simps strip_prefix_append option.case deadman_value)
qed

lemma deadman_text_ascii: "is_ascii (deadman_text window last_checkin)"
  by (simp add: deadman_text_def)

interpretation deadman_file: text_codec "\<lambda>(w, l). deadman_text w l" "\<lambda>s. case parse_deadman s of Some p \<Rightarrow> Ok p | None \<Rightarrow> Err (Msg [])" "\<lambda>p. True"
  by unfold_locales (auto simp: parse_deadman_text ascii_utf8_valid deadman_text_ascii)

end
