(* ===== verification/Enroll.thy ===== *)
theory Enroll
  imports Ctl_State
begin

text \<open>
  The \<open>dsctl\<close> commands that change the keyslots of a container: the recovery slot, the unlock factors,
  the seal to the TPM and the change of the key derivation. \<open>cryptsetup\<close> and \<open>systemd-cryptenroll\<close> are
  parameters; what is printed is not modelled.
\<close>

definition added_slots :: "u8 set \<Rightarrow> u8 set \<Rightarrow> u8 list" where
  "added_slots after before = sorted_list_of_set (after - before)"

definition enroll_recovery :: "string list \<Rightarrow> ('x, unit) io" where
  "enroll_recovery args =
    bnd require_root (\<lambda>_.
    bnd guard_disposable (\<lambda>_.
    bnd (path_exists (components ARMED_MARKER)) (\<lambda>armed.
    bnd (require (\<not> armed) ''disarm before changing recovery slots'') (\<lambda>_.
    bnd (lift (some_or ''enroll-recovery needs --device <luks-dev>'' (flag args ''--device''))) (\<lambda>device.
    bnd (lift (some_or ''need --existing-keyfile <path>'' (flag args ''--existing-keyfile''))) (\<lambda>existing.
    bnd (lift (some_or ''need --new-keyfile <path>'' (flag args ''--new-keyfile''))) (\<lambda>newkey.
    bnd (validate_luks_device device) (\<lambda>_.
    bnd (matching_keyslots device existing) (\<lambda>daily_matches.
    bnd (require (length daily_matches = 1) ''existing daily credential must match exactly one active slot'') (\<lambda>_.
    bnd (luks_keyslots device) (\<lambda>before.
    bnd (run_cmd ''cryptsetup'' [''luksAddKey'', device, newkey, ''--key-file'', existing] []) (\<lambda>c.
    bnd (lift (cmd_status ''cryptsetup luksAddKey'' c)) (\<lambda>ok.
    bnd (require ok ''luksAddKey failed'') (\<lambda>_.
    bnd (luks_keyslots device) (\<lambda>after.
    let added = added_slots after before in
    bnd (require (length added = 1) ''recovery enrollment did not add exactly one identifiable slot'') (\<lambda>_.
    bnd (matching_keyslots device newkey) (\<lambda>recovery_matches.
    bnd (require (recovery_matches = added) ''new recovery credential did not verify only against the added slot'') (\<lambda>_.
    bnd ensure_state_dir (\<lambda>_.
    bnd (ask (\<lambda>w. components (state_dir w))) (\<lambda>dir.
    bnd (atomic_write (dir @ [''recovery.device'']) (device @ ''\<newline>'') 384) (\<lambda>_.
    bnd (atomic_write (dir @ [''target.device'']) (device @ ''\<newline>'') 384) (\<lambda>_.
    bnd (atomic_write (dir @ [''daily.slot'']) (show_word (daily_matches ! 0) @ ''\<newline>'') 384) (\<lambda>_.
    bnd (atomic_write (dir @ [''recovery.slot'']) (show_word (added ! 0) @ ''\<newline>'') 384) (\<lambda>_.
    write_known_slots {daily_matches ! 0, added ! 0}))))))))))))))))))))))))"

text \<open>The token of the simulation: a stored random secret whose bytes become the key file.\<close>

definition enroll_fido2_simulated :: "string \<Rightarrow> string option \<Rightarrow> ('x, unit) io" where
  "enroll_fido2_simulated device existing_keyfile =
    bnd (ask state_dir) (\<lambda>dir.
    let cred = components (dir @ ''/fido2-sim.cred''); keyfile = dir @ ''/fido2-sim.key'' in
    bnd (path_exists cred) (\<lambda>there.
    bnd (if there then ret ()
         else
           bnd (getrandom 32) (\<lambda>buf.
           bnd (lift (some_or ''csprng'' buf)) (\<lambda>bytes.
           atomic_write cred (map (\<lambda>b. char_of (unat b)) bytes) 384))) (\<lambda>_.
    bnd (fs_read cred) (\<lambda>credential.
    bnd (atomic_write (components keyfile) credential 384) (\<lambda>_.
    let a = [''luksAddKey'', device, keyfile] @
      (case existing_keyfile of None \<Rightarrow> [] | Some ek \<Rightarrow> [''--key-file'', ek]) in
    bnd (record_added_slots device
      (bnd (run_cmd ''cryptsetup'' a []) (\<lambda>c.
       bnd (lift (cmd_status ''cryptsetup luksAddKey (sim)'' c)) (\<lambda>ok.
       require ok ''simulated fido2 luksAddKey failed'')))) (\<lambda>_.
    atomic_write (components (dir @ ''/factor.fido2'')) ''enrolled (simulated)\<newline>'' 384))))))"

definition cryptenroll :: "string list \<Rightarrow> ('x, unit) io" where
  "cryptenroll args =
    bnd (run_cmd ''systemd-cryptenroll'' args []) (\<lambda>c.
    bnd (lift (cmd_status ''systemd-cryptenroll'' c)) (\<lambda>ok.
    require ok ''enroll failed''))"

definition factor_args :: "string \<Rightarrow> bool \<Rightarrow> string list res" where
  "factor_args kind pin =
    (if kind = ''fido2'' then
       Ok [''--fido2-device=auto'', ''--fido2-with-client-pin='' @ (if pin then ''yes'' else ''no'')]
     else if kind = ''tpm2'' then
       Ok ([''--tpm2-device=auto'', ''--tpm2-pcrs=0+2+4+7''] @ (if pin then [''--tpm2-with-pin=yes''] else []))
     else if kind = ''passphrase'' then Ok [''--password'']
     else Err (Msg ''unknown factor''))"

definition enroll_factor :: "string list \<Rightarrow> ('x, unit) io" where
  "enroll_factor args =
    bnd require_root (\<lambda>_.
    bnd guard_disposable (\<lambda>_.
    bnd (lift (some_or ''enroll needs --device <luks-dev>'' (flag args ''--device''))) (\<lambda>device.
    let kind = (if length args > 1 then args ! 1 else []); pin = (''--pin'' \<in> set args) in
    if ''--simulate'' \<in> set args then
      bnd (require (kind = ''fido2'') ''--simulate only applies to fido2'') (\<lambda>_.
      enroll_fido2_simulated device (flag args ''--existing-keyfile''))
    else
      bnd (lift (factor_args kind pin)) (\<lambda>ce.
      bnd (record_added_slots device (cryptenroll (ce @ [device]))) (\<lambda>_.
      bnd ensure_state_dir (\<lambda>_.
      bnd (state_file (''factor.'' @ kind)) (\<lambda>p. atomic_write p ''enrolled\<newline>'' 384)))))))"

definition tpm_present :: "('x, bool) io" where
  "tpm_present =
    bnd (path_exists (components ''/dev/tpmrm0'')) (\<lambda>a.
    if a then ret True else path_exists (components ''/dev/tpm0''))"

definition device_or_target :: "string list \<Rightarrow> ('x, string option) io" where
  "device_or_target args = (case flag args ''--device'' of Some d \<Rightarrow> ret (Some d) | None \<Rightarrow> configured_target)"

definition seal_tpm :: "string list \<Rightarrow> ('x, unit) io" where
  "seal_tpm args =
    bnd require_root (\<lambda>_.
    bnd guard_disposable (\<lambda>_.
    bnd tpm_present (\<lambda>tpm.
    bnd (require tpm ''no TPM device (/dev/tpm*). Seal on a TPM-capable machine/VM.'') (\<lambda>_.
    bnd (device_or_target args) (\<lambda>d.
    bnd (lift (some_or ''seal-tpm needs --device <dev> or a configured target'' d)) (\<lambda>device.
    let pcrs = (case flag args ''--pcrs'' of Some p \<Rightarrow> p | None \<Rightarrow> ''0+2+4+7'');
        with_pin = (''--no-pin'' \<notin> set args);
        ce = [''--tpm2-device=auto'', ''--tpm2-pcrs='' @ pcrs, ''--tpm2-with-pin='' @ (if with_pin then ''yes'' else ''no'')] @
          (case flag args ''--public-key'' of Some pk \<Rightarrow> [''--tpm2-public-key='' @ pk] | None \<Rightarrow> []) @ [device] in
    bnd (record_added_slots device (cryptenroll ce)) (\<lambda>_.
    bnd ensure_state_dir (\<lambda>_.
    bnd (state_file ''factor.tpm2'') (\<lambda>p. atomic_write p (''sealed pcrs='' @ pcrs @ ''\<newline>'') 384)))))))))"

definition harden_text :: string where
  "harden_text =
    ''kernel_cmdline: init_on_free=1 init_on_alloc=1 slab_nomerge lockdown=confidentiality\<newline>'' @
    ''hibernation: disabled (or encrypted swap with a random per-boot key)\<newline>'' @
    ''swap: none, zram, or dm-crypt only (never plaintext)\<newline>''"

definition harden :: "string list \<Rightarrow> ('x, unit) io" where
  "harden args =
    bnd require_root (\<lambda>_.
    bnd guard_disposable (\<lambda>_.
    bnd (device_or_target args) (\<lambda>d.
    bnd (lift (some_or ''harden needs --device <dev> or a configured target'' d)) (\<lambda>device.
    let mem_kib = (case flag args ''--argon-mem'' of Some m \<Rightarrow> m | None \<Rightarrow> ''1048576'');
        iter_ms = (case flag args ''--argon-time'' of Some t \<Rightarrow> t | None \<Rightarrow> ''2000'') in
    bnd (run_cmd ''cryptsetup''
      [''luksConvertKey'', ''--pbkdf'', ''argon2id'', ''--pbkdf-memory'', mem_kib, ''--iter-time'', iter_ms, device] []) (\<lambda>c.
    bnd (lift (cmd_status ''cryptsetup luksConvertKey'' c)) (\<lambda>ok.
    bnd (require ok ''luksConvertKey failed (wrong passphrase, or already at this KDF)'') (\<lambda>_.
    bnd (state_file ''harden.recommend'') (\<lambda>p. atomic_write p harden_text 384))))))))"

end
