(* ===== verification/Reports.thy ===== *)
theory Reports
  imports Arm Enroll
begin

text \<open>
  The four commands of \<open>dsctl\<close> that only report: what they look at and the lines they print. The text is
  the point of these commands, so a report is the list of its lines.
\<close>

definition yesno :: "bool \<Rightarrow> string" where
  "yesno b = (if b then ''yes'' else ''no'')"

definition EXPERIMENTAL :: string where
  "EXPERIMENTAL = ''EXTREMELY EXPERIMENTAL BUILD STILL IN ACTIVE BUILD PHASE, PROCEED WITH UTMOST CAUTION!''"

text \<open>\<open>read_to_string(..).ok()\<close>.\<close>

definition try_read :: "path \<Rightarrow> ('x, string option) io" where
  "try_read p = bnd (attempt (read_to_string p)) (\<lambda>r. ret (case r of Inr s \<Rightarrow> Some s | Inl _ \<Rightarrow> None))"

text \<open>What a command printed (\<open>output()\<close>), whatever its exit status; nothing when it did not start.\<close>

definition cmd_output :: "cmd \<Rightarrow> string" where
  "cmd_output c = (case c of Exited b out \<Rightarrow> out | NoSpawn \<Rightarrow> [])"

section \<open>\<open>status\<close>\<close>

definition armed_line :: "bool \<Rightarrow> string" where
  "armed_line b = ''  armed (in auth path) : '' @ yesno b"

definition inconsistent_line :: string where
  "inconsistent_line =
    ''  integrity             : INCONSISTENT ARMED STATE '' @ [CHR 0xE2, CHR 0x80, CHR 0x94] @
    '' recover/disarm before boot''"

definition status_lines :: "bool \<Rightarrow> bool \<Rightarrow> bool \<Rightarrow> bool \<Rightarrow> string option \<Rightarrow> bool \<Rightarrow> string list" where
  "status_lines enrolled pam_armed local_armed esp_armed recov marker =
    (let armed = (pam_armed \<and> local_armed \<and> esp_armed);
         inconsistent = (pam_armed \<or> local_armed \<or> esp_armed)
     in [''status'', ''  '' @ EXPERIMENTAL,
         ''  duress code enrolled : '' @ yesno enrolled, armed_line armed] @
        (if inconsistent \<and> \<not> armed then [inconsistent_line] else []) @
        [''  recovery keyslot     : '' @ (case recov of Some d \<Rightarrow> ''enrolled on '' @ trim d | None \<Rightarrow> ''none''),
         ''  environment          : '' @
           (if marker then ''disposable (destructive ops permitted)''
            else ''not marked disposable (destructive ops refused)'')])"

definition status :: "('x, string list) io" where
  "status =
    bnd (ask duress_hash_path) (\<lambda>hash.
    bnd (path_exists hash) (\<lambda>enrolled.
    bnd (try_read auth_path) (\<lambda>stack.
    bnd (path_is_file (components ARMED_MARKER)) (\<lambda>local_armed.
    bnd (path_is_file (esp_path ''armed'')) (\<lambda>esp_armed.
    bnd (ask (\<lambda>w. components (state_dir w @ ''/recovery.device''))) (\<lambda>rp.
    bnd (try_read rp) (\<lambda>recov.
    bnd (path_exists (components DISPOSABLE_MARKER)) (\<lambda>marker.
    ret (status_lines enrolled (case stack of Some c \<Rightarrow> contains c ARM_MARKER | None \<Rightarrow> False)
      local_armed esp_armed recov marker)))))))))"

section \<open>\<open>factors\<close>\<close>

definition fido2_query :: string where
  "fido2_query = ''systemd-cryptenroll --fido2-device=list 2>/dev/null | grep -qiE '' @ [CHR 0x27] @ ''/dev|token'' @
    [CHR 0x27] @ '' && echo y''"

definition factors_lines :: "bool \<Rightarrow> bool \<Rightarrow> bool \<Rightarrow> string list" where
  "factors_lines fido2 tpm2 has_tool =
    [''supported unlock factors'',
     ''  passphrase     : yes  (always available; the knowledge fallback)'',
     ''  fido2/yubikey  : '' @ yesno fido2,
     ''  tpm2           : '' @ yesno tpm2,
     ''  duress code    : yes  (dsctl set-duress)'',
     ''  backup yubikey : '' @ yesno fido2 @ ''  (enroll a second fido2 key; replaces a written recovery key)'',
     [],
     ''  systemd-cryptenroll: '' @ yesno has_tool,
     ''  policy (recommended): passphrase + yubikey + backup yubikey + duress code''] @
    (if \<not> fido2
     then [''  note: no FIDO2 token detected right now; plug the key in and re-run `dsctl factors`.''] else [])"

definition factors :: "('x, string list) io" where
  "factors =
    bnd tpm_present (\<lambda>tpm2.
    bnd (run_cmd ''sh'' [''-c'', fido2_query] []) (\<lambda>c.
    bnd (path_exists (components ''/usr/bin/systemd-cryptenroll'')) (\<lambda>has_tool.
    ret (factors_lines (prefix ''y'' (cmd_output c)) tpm2 has_tool))))"

section \<open>\<open>tpm-check\<close>\<close>

definition tpm_lines :: "bool \<Rightarrow> bool \<Rightarrow> bool \<Rightarrow> (string \<times> string) option \<Rightarrow> string list" where
  "tpm_lines have_tpm has_tool sb target =
    [''TPM measured-boot readiness'',
     ''  tpm device        : '' @ yesno have_tpm,
     ''  cryptenroll       : '' @ yesno has_tool,
     ''  efi/secure-boot   : '' @
       (if sb then ''efivars present (check SB enabled for PCR7 to bind firmware trust)''
        else ''no efivars (BIOS/CSM boot: PCR7 weak)'')] @
    (case target of
       Some (dev, dump) \<Rightarrow>
         [''  tpm keyslot on '' @ dev @ '': '' @
           (if contains dump ''systemd-tpm2'' then ''ENROLLED (measured-boot seal present)''
            else ''not enrolled (run dsctl seal-tpm --device ...)'')]
     | None \<Rightarrow> []) @
    (if \<not> have_tpm
     then [''  note: no TPM here; seal on a TPM-capable machine/VM. This is why the seal is a REQUIREMENT (DEATHSTROKE.md '' @
       [CHR 0xC2, CHR 0xA7] @ ''12.6).'']
     else [])"

text \<open>The recorded target with what \<open>luksDump\<close> prints of it.\<close>

definition target_dump :: "('x, (string \<times> string) option) io" where
  "target_dump =
    bnd configured_target (\<lambda>t.
    case t of
      None \<Rightarrow> ret None
    | Some dev \<Rightarrow>
        bnd (run_cmd ''cryptsetup'' [''luksDump'', dev] []) (\<lambda>c.
        ret (Some (dev, from_utf8_lossy (cmd_output c)))))"

definition tpm_check :: "('x, string list) io" where
  "tpm_check =
    bnd tpm_present (\<lambda>have_tpm.
    bnd (path_exists (components ''/usr/bin/systemd-cryptenroll'')) (\<lambda>has_tool.
    bnd (attempt (read_dir (components ''/sys/firmware/efi/efivars''))) (\<lambda>rd.
    let sb = (case rd of
        Inr entries \<Rightarrow> list_ex (\<lambda>e. prefix ''SecureBoot-'' (from_utf8_lossy (last e))) entries
      | Inl _ \<Rightarrow> False) in
    bnd target_dump (\<lambda>target.
    ret (tpm_lines have_tpm has_tool sb target)))))"

section \<open>\<open>harden-check\<close>\<close>

definition dump_field :: "string \<Rightarrow> string \<Rightarrow> string \<Rightarrow> string" where
  "dump_field k none dump =
    (case find (\<lambda>l. prefix k (trim_start l)) (text_lines dump) of Some l \<Rightarrow> trim l | None \<Rightarrow> none)"

definition kdf_lines :: "(string \<times> string) option \<Rightarrow> string list" where
  "kdf_lines target =
    (case target of
       Some (dev, dump) \<Rightarrow>
         (let pbkdf = dump_field ''PBKDF:'' ''PBKDF: ?'' dump;
              mem = dump_field ''Memory:'' ''Memory: ?'' dump
          in [''  LUKS device       : '' @ dev,
              ''  '' @ pbkdf @ ''  ('' @
                (if contains pbkdf ''argon2id'' then ''argon2id: good'' else ''not argon2id: weak vs offline GPU'') @ '')'',
              ''  '' @ mem])
     | None \<Rightarrow> [''  LUKS device       : (none configured; run enroll-recovery first)''])"

definition init_on_free_text :: "string \<Rightarrow> string" where
  "init_on_free_text cmdline =
    (if contains cmdline ''init_on_free=1'' then ''on (cmdline): good''
     else if contains cmdline ''init_on_free=0'' then ''OFF (cmdline): freed key memory not zeroed''
     else ''not on cmdline (relies on CONFIG_INIT_ON_FREE_DEFAULT_ON; add init_on_free=1 to be sure)'')"

definition plain_swap_line :: "string \<Rightarrow> bool" where
  "plain_swap_line l =
    (let dev = (case split_whitespace l of [] \<Rightarrow> [] | d # _ \<Rightarrow> d)
     in dev \<noteq> [] \<and> \<not> contains dev ''dm-'' \<and> \<not> contains dev ''zram'')"

definition swap_text :: "string \<Rightarrow> string" where
  "swap_text swaps =
    (if length (text_lines swaps) \<le> 1 then ''none active: good''
     else if list_ex plain_swap_line (drop 1 (text_lines swaps)) then ''PLAINTEXT swap active: keys can leak to disk''
     else ''encrypted/zram only: good'')"

definition hibernation_off :: "('x, bool) io" where
  "hibernation_off =
    bnd (path_exists (components ''/sys/power/disk'')) (\<lambda>there.
    if there then
      bnd (try_read (components ''/sys/power/disk'')) (\<lambda>s.
      ret (case s of Some s \<Rightarrow> contains s ''[disabled]'' | None \<Rightarrow> False))
    else ret False)"

definition harden_check :: "('x, string list) io" where
  "harden_check =
    bnd target_dump (\<lambda>target.
    bnd (try_read (components ''/proc/cmdline'')) (\<lambda>cmdline.
    bnd hibernation_off (\<lambda>off.
    bnd (try_read (components ''/proc/swaps'')) (\<lambda>swaps.
    ret ([''offline-hardening audit''] @ kdf_lines target @
      [''  init_on_free      : '' @ init_on_free_text (case cmdline of Some s \<Rightarrow> s | None \<Rightarrow> []),
       ''  hibernation       : '' @
         (if off then ''disabled: good'' else ''check: a swsusp image can leak the key unless swap is encrypted/off''),
       ''  swap              : '' @ swap_text (case swaps of Some s \<Rightarrow> s | None \<Rightarrow> [])])))))"

end
