(* ===== verification/Dsctl.thy ===== *)
theory Dsctl
  imports Deadman Enroll Reports
begin

text \<open>
  \<open>dsctl\<close> itself: setting and checking the duress code, the deliberate trigger, and the dispatch of the
  commands.
\<close>

section \<open>The duress code\<close>

definition set_duress :: "string list \<Rightarrow> ('x, unit) io" where
  "set_duress args =
    bnd require_root (\<lambda>_.
    bnd (path_exists (components ARMED_MARKER)) (\<lambda>armed.
    bnd (require (\<not> armed) ''disarm before changing the duress verifier'') (\<lambda>_.
    bnd (lift (enrollment_policy args)) (\<lambda>cfg.
    bnd read_secret (\<lambda>code.
    bnd read_secret (\<lambda>again.
    bnd (require (code = again) ''codes did not match'') (\<lambda>_.
    bnd (require (\<not> length code < 6) ''duress code too short (min 6 chars)'') (\<lambda>_.
    bnd (lift (validate_iterations DEFAULT_ITERATIONS)) (\<lambda>_.
    bnd (getrandom SALT_LEN) (\<lambda>rnd.
    bnd (ask w_kdf) (\<lambda>kdf.
    bnd (lift (fst (derive_and_zero kdf rnd code DEFAULT_ITERATIONS))) (\<lambda>h.
    bnd (ask duress_hash_path) (\<lambda>path.
    bnd ensure_state_dir (\<lambda>_.
    bnd (state_file ''config'') (\<lambda>config.
    bnd (atomic_write config (policy_text cfg) 384) (\<lambda>_.
    write_0600 path (serialize h)))))))))))))))))"

text \<open>\<open>dsctl verify\<close>: the answer is printed; here it is the result.\<close>

definition verify_code :: "string option \<Rightarrow> ('x, bool) io" where
  "verify_code arg =
    bnd (ask duress_hash_path) (\<lambda>path.
    bnd (ctx ''no duress verifier enrolled'' (read_to_string path)) (\<lambda>stored.
    bnd (lift (parse_verifier stored)) (\<lambda>h.
    bnd (ask test_mode) (\<lambda>tm.
    bnd (case arg of
        Some s \<Rightarrow> if tm then ret s else bail ''passing a secret on argv is disabled''
      | None \<Rightarrow> read_secret) (\<lambda>cand.
    bnd (ask w_kdf) (\<lambda>kdf.
    lift (verify kdf h cand)))))))"

section \<open>The deliberate trigger\<close>

definition panic_eraser :: "('x, string) io" where
  "panic_eraser =
    bnd (ask (\<lambda>w. if test_mode w then w_env w ''DS_ERASE_BIN'' else None)) (\<lambda>given.
    case given of
      Some p \<Rightarrow> ret p
    | None \<Rightarrow> first_existing [''/usr/lib/arxos/deathstroke/ds-erase'', ''/usr/local/bin/ds-erase''])"

definition panic_wipe :: "('x, unit) io" where
  "panic_wipe =
    bnd require_root (\<lambda>_.
    bnd (path_exists (components ARMED_MARKER)) (\<lambda>armed.
    bnd (require armed ''DEATHSTROKE is not armed on this machine; there is nothing to trigger'') (\<lambda>_.
    bnd (ask duress_hash_path) (\<lambda>path.
    bnd (ctx ''no duress verifier enrolled (run dsctl set-duress)'' (read_to_string path)) (\<lambda>stored.
    bnd (lift (parse_verifier stored)) (\<lambda>h.
    bnd read_secret (\<lambda>cand.
    bnd (ask w_kdf) (\<lambda>kdf.
    bnd (lift (verify kdf h cand)) (\<lambda>ok.
    bnd (require ok ''phrase does not match the enrolled duress phrase; no action taken'') (\<lambda>_.
    bnd configured_target (\<lambda>t.
    bnd (lift (some_or ''no target device recorded (run dsctl enroll-recovery --device <luks>)'' t)) (\<lambda>dev.
    bnd panic_eraser (\<lambda>erase.
    bnd (run_cmd erase [''--fire'', ''--device'', dev] []) (\<lambda>c.
    bnd (lift (cmd_status ''spawn ds-erase'' c)) (\<lambda>finished.
    require finished ''ds-erase did not complete successfully'')))))))))))))))"

section \<open>The program\<close>

definition done_ok :: "('x, 'a) io \<Rightarrow> ('x, nat) io" where
  "done_ok m = bnd m (\<lambda>_. ret 0)"

definition dsctl_run :: "string list \<Rightarrow> ('x, nat) io" where
  "dsctl_run args =
    (case args of
       [] \<Rightarrow> ret 2
     | c # rest \<Rightarrow>
         if c = ''set-duress'' then done_ok (set_duress args)
         else if c = ''verify'' then done_ok (verify_code (if rest = [] then None else Some (hd rest)))
         else if c = ''status'' then done_ok status
         else if c = ''enroll-recovery'' then done_ok (enroll_recovery args)
         else if c = ''factors'' then done_ok factors
         else if c = ''enroll'' then done_ok (enroll_factor args)
         else if c = ''harden'' then done_ok (harden args)
         else if c = ''harden-check'' then done_ok harden_check
         else if c = ''seal-tpm'' then done_ok (seal_tpm args)
         else if c = ''tpm-check'' then done_ok tpm_check
         else if c = ''deadman'' then done_ok (deadman args)
         else if c = ''checkin'' then done_ok checkin
         else if c = ''deadman-check'' then deadman_check
         else if c = ''arm'' then done_ok arm
         else if c = ''disarm'' then done_ok disarm
         else if c = ''panic'' then done_ok panic_wipe
         else ret 2)"

definition dsctl_main :: "string list \<Rightarrow> ('x, nat) io" where
  "dsctl_main args =
    bnd (attempt (dsctl_run args)) (\<lambda>r.
    ret (case r of Inl _ \<Rightarrow> 1 | Inr code \<Rightarrow> code))"

end
