(* ===== verification/State_Dir.thy ===== *)
theory State_Dir
  imports Ctl_State
begin

text \<open>
  Writing a file of the state directory when nothing fails: \<open>ensure_state_dir\<close> and \<open>atomic_write\<close>
  leave the file with the new text, and every other file as it was.
\<close>

definition plain_name :: "string \<Rightarrow> bool" where
  "plain_name name \<longleftrightarrow> name \<notin> {''/'', ''.'', ''..''} \<and> utf8_valid name"

text \<open>The directory is there, and the file can be written in it.\<close>

definition state_ready :: "string \<Rightarrow> 'x world \<Rightarrow> bool" where
  "state_ready name w \<longleftrightarrow> w_sched w = [] \<and>
    (let dir = components (state_dir w); p = dir @ [name] in
     dir \<noteq> [] \<and> (\<forall>q. prefix q dir \<longrightarrow> q \<noteq> [] \<longrightarrow> (\<exists>m. fs_get (w_vis w) q = Some (Dir m))) \<and>
     (fs_get (w_vis w) p = None \<or> (\<exists>d m s. fs_get (w_vis w) p = Some (File d m s))) \<and>
     fs_get (w_vis w) (dir @ [temp_name name (w_pid w)]) = None)"

definition dirs_there :: "fs \<Rightarrow> path \<Rightarrow> bool" where
  "dirs_there f dir \<longleftrightarrow> dir \<noteq> [] \<and>
    list_all (\<lambda>q. q = [] \<or> (case fs_get f q of Some n \<Rightarrow> is_dir_node n | None \<Rightarrow> False)) (prefixes dir)"

lemma state_readyI:
  assumes "w_sched w = []" "state_dir w = text" and dir: "dirs_there (w_vis w) (components text)"
    and "fs_get (w_vis w) (components text @ [name]) = None"
    and "fs_get (w_vis w) (components text @ [temp_name name (w_pid w)]) = None"
  shows "state_ready name w"
proof -
  have "\<exists>m. fs_get (w_vis w) q = Some (Dir m)" if "prefix q (components text)" "q \<noteq> []" for q
  proof -
    have "q \<in> set (prefixes (components text))" using that(1) by simp
    then have "case fs_get (w_vis w) q of Some n \<Rightarrow> is_dir_node n | None \<Rightarrow> False"
      using dir that(2) unfolding dirs_there_def list_all_iff by blast
    then show ?thesis by (auto simp: is_dir_node_def split: option.splits node.splits)
  qed
  then show ?thesis using assms by (simp add: state_ready_def dirs_there_def)
qed

definition state_written :: "string \<Rightarrow> string \<Rightarrow> 'x world \<Rightarrow> unit res \<Rightarrow> 'x world \<Rightarrow> bool" where
  "state_written name text w r w' \<longleftrightarrow> r = Ok () \<and> same_env w w' \<and> w_sched w' = [] \<and>
    (let dir = components (state_dir w) in \<forall>q. fs_get (w_vis w') q =
      (if q = dir @ [name] then Some (File text 384 True)
       else if q = dir then Some (Dir 448) else fs_get (w_vis w) q))"

lemma same_state_dir: "same_env w v \<Longrightarrow> state_dir v = state_dir w"
  by (simp add: same_env_def state_dir_def test_mode_def)

lemma state_written_read:
  "state_written name text w r w' \<Longrightarrow>
    state_dir w' = state_dir w \<and> look (w_vis w') (components (state_dir w) @ [name]) = Some (File text 384 True)"
  by (simp add: state_written_def Let_def look_File same_state_dir)

lemma ensure_ready:
  assumes "state_ready name w"
  shows "ensure_state_dir w = (Ok (), w\<lparr>w_vis := fs_put (components (state_dir w)) (Dir 448) (w_vis w)\<rparr>)"
proof -
  let ?dir = "components (state_dir w)"
  have sched: "w_sched w = []" and dir: "?dir \<noteq> []" "\<And>q. prefix q ?dir \<Longrightarrow> q \<noteq> [] \<Longrightarrow> \<exists>m. fs_get (w_vis w) q = Some (Dir m)"
    using assms by (simp_all add: state_ready_def Let_def)
  have "make_dirs (filter (\<lambda>q. q \<noteq> []) (prefixes ?dir)) (w_vis w) = Ok (w_vis w)"
    by (rule make_dirs_no_change) (auto dest!: dir(2) look_Dir)
  then have "create_dir_all ?dir w = (Ok (), w)" by (simp add: create_dir_all_def sys_def sched)
  moreover obtain m where "fs_get (w_vis w) ?dir = Some (Dir m)" using dir by blast
  then have "set_mode ?dir 448 w = (Ok (), w\<lparr>w_vis := fs_put ?dir (Dir 448) (w_vis w)\<rparr>)"
    by (simp add: set_mode_def sys_def sched look_Dir)
  ultimately show ?thesis by (simp add: ensure_state_dir_def bnd_def ask_def ctx_def)
qed

lemma wp_state_put_calm:
  assumes w: "state_ready name w" and name: "plain_name name"
  shows "wp (atomic_write (components (state_dir w) @ [name]) text 384) (state_written name text w)
    (w\<lparr>w_vis := fs_put (components (state_dir w)) (Dir 448) (w_vis w)\<rparr>)"
proof -
  let ?dir = "components (state_dir w)"
  let ?v = "w\<lparr>w_vis := fs_put ?dir (Dir 448) (w_vis w)\<rparr>"
  have sched: "w_sched w = []" and dir: "?dir \<noteq> []"
    and target: "fs_get (w_vis w) (?dir @ [name]) = None \<or> (\<exists>d m s. fs_get (w_vis w) (?dir @ [name]) = Some (File d m s))"
    and fresh: "fs_get (w_vis w) (?dir @ [temp_name name (w_pid w)]) = None"
    using w by (simp_all add: state_ready_def Let_def)
  have fn: "file_name (?dir @ [name]) = Some name" "utf8_valid name" using name by (simp_all add: plain_name_def file_name_def)
  show ?thesis
  proof (rule wp_mono [OF wp_atomic_write_calm [OF _ parent_of_snoc [OF dir] dir fn]])
    show "w_sched ?v = []" "fs_get (w_vis ?v) ?dir = Some (Dir 448)" by (simp_all add: sched)
    show "fs_get (w_vis ?v) (?dir @ [name]) = None \<or> (\<exists>d m s. fs_get (w_vis ?v) (?dir @ [name]) = Some (File d m s))"
      "fs_get (w_vis ?v) (?dir @ [temp_name name (w_pid ?v)]) = None"
      using target fresh by simp_all
  qed (simp add: state_written_def same_env_def)
qed

lemma wp_state_write_calm:
  assumes "state_ready name w" "plain_name name"
  shows "wp (bnd ensure_state_dir (\<lambda>_. bnd (ask (\<lambda>w. components (state_dir w) @ [name])) (\<lambda>p. atomic_write p text 384)))
    (state_written name text w) w"
proof -
  let ?v = "w\<lparr>w_vis := fs_put (components (state_dir w)) (Dir 448) (w_vis w)\<rparr>"
  have "state_dir ?v = state_dir w" by (simp add: state_dir_def test_mode_def)
  then have "bnd ensure_state_dir (\<lambda>_. bnd (ask (\<lambda>w. components (state_dir w) @ [name])) (\<lambda>p. atomic_write p text 384)) w =
      atomic_write (components (state_dir w) @ [name]) text 384 ?v"
    by (simp add: bnd_def ask_def ensure_ready [OF assms(1)] del: fun_upd_apply)
  then show ?thesis using wp_state_put_calm [OF assms] by (simp only: wp_def)
qed

end
