(* ===== verification/Deadman_Window.thy ===== *)
theory Deadman_Window
  imports Deadman State_Dir
begin

text \<open>
  When the dead-man switch fires: setting it and checking it later, with the arithmetic of the
  machine.
\<close>

definition deadman_path :: "'x world \<Rightarrow> path" where
  "deadman_path w = components (state_dir w) @ [''deadman'']"

definition target_path :: "'x world \<Rightarrow> path" where
  "target_path w = components (state_dir w @ ''/target.device'')"

text \<open>The \<open>ds-erase\<close> that is run: the first of the known places where there is one, else the one on the path.\<close>

definition first_there :: "fs \<Rightarrow> string list \<Rightarrow> string" where
  "first_there f ps = (case find (\<lambda>p. look f (components p) \<noteq> None) ps of Some p \<Rightarrow> p | None \<Rightarrow> ''ds-erase'')"

definition eraser_of :: "fs \<Rightarrow> string" where
  "eraser_of f = first_there f [''/usr/lib/arxos/deathstroke/ds-erase'', ''/usr/local/bin/ds-erase'', ''ds-erase'']"

lemma first_existing_calm: "w_sched w = [] \<Longrightarrow> first_existing ps w = (Ok (first_there (w_vis w) ps), w)"
  by (induction ps) (auto simp: first_there_def ret_def bnd_def path_exists_def probe_def)

text \<open>The check of a switch that reads as a window and a time.\<close>

lemma deadman_check_calm:
  assumes sched: "w_sched w = []" and dbg: "\<not> w_debug w"
    and switch: "look (w_vis w) (deadman_path w) = Some (File (deadman_text window last_checkin) md sy)"
    and target: "look (w_vis w) (target_path w) = Some (File d m s)" "utf8_valid d" "trim d \<noteq> []"
  shows "if w_clock w \<le> last_checkin + window then deadman_check w = (Ok 0, w)
    else \<exists>code w'. deadman_check w = (Ok code, w') \<and> code \<noteq> 0 \<and>
      w_log w' = w_log w @ [(eraser_of (w_vis w), [''--fire'', ''--device'', trim d], [])]"
proof -
  have read: "read_deadman w = (Ok (Some (window, last_checkin)), w)"
    using sched switch deadman_text_ascii [of window last_checkin]
    by (simp add: read_deadman_def deadman_state_def state_file_def deadman_path_def bnd_def ask_def attempt_def
        read_to_string_def sys_def read_result_def ret_def ascii_utf8_valid parse_deadman_text)
  have due: "add_checked (w_debug w) last_checkin window = Ok (last_checkin + window)" using dbg by (simp add: add_checked_def)
  have tgt: "configured_target w = (Ok (Some (trim d)), w)"
    using sched target by (simp add: configured_target_def target_path_def bnd_def ask_def attempt_def
        read_to_string_def sys_def read_result_def ret_def)
  let ?e = "eraser_of (w_vis w)"
  have e: "find_ds_erase w = (Ok ?e, w)"
    unfolding find_ds_erase_def eraser_of_def by (rule first_existing_calm [OF sched])
  obtain c v u x where ex: "w_exec w ?e [''--fire'', ''--device'', trim d] [] (w_vis w, w_dur w, w_ext w) = (c, v, u, x)"
    by (metis prod_cases4)
  then have run: "run_cmd ?e [''--fire'', ''--device'', trim d] [] w =
      (Ok c, w\<lparr>w_vis := v, w_dur := u, w_ext := x, w_log := w_log w @ [(?e, [''--fire'', ''--device'', trim d], [])]\<rparr>)"
    using sched by (simp add: run_cmd_def probe_def bnd_def)
  have "deadman_check w = (if w_clock w > last_checkin + window then
      (Ok (if cmd_success c then 2 else 1),
       w\<lparr>w_vis := v, w_dur := u, w_ext := x, w_log := w_log w @ [(?e, [''--fire'', ''--device'', trim d], [])]\<rparr>)
    else (Ok 0, w))"
    by (simp add: deadman_check_def bnd_def read now_unix_def ask_def lift_def due tgt e run ret_def)
  then show ?thesis by (auto simp: not_le)
qed

text \<open>Setting it.\<close>

lemma deadman_set_calm:
  assumes root: "require_root w = (Ok (), w)" and ready: "state_ready ''deadman'' w" and dbg: "\<not> w_debug w"
    and args: "length args > 1" "args ! 1 \<noteq> ''off''" "args ! 1 \<noteq> ''disable''" "parse_word (args ! 1) = Some hours" "hours \<noteq> (0 :: u64)"
  shows "wp (deadman args) (state_written ''deadman'' (deadman_text (hours * 3600) (w_clock w)) w) w"
proof -
  let ?v = "w\<lparr>w_vis := fs_put (components (state_dir w)) (Dir 448) (w_vis w)\<rparr>"
  have v: "w_debug ?v = w_debug w" "w_clock ?v = w_clock w" "state_dir ?v = state_dir w"
    by (simp_all add: state_dir_def test_mode_def)
  have mul: "mul_checked False hours 3600 = Ok (hours * 3600)" by (simp add: mul_checked_def)
  have "plain_name ''deadman''" by code_simp
  from wp_state_put_calm [OF ready this]
  have "wp (atomic_write (components (state_dir w) @ [''deadman'']) (deadman_text (hours * 3600) (w_clock w)) 384)
      (state_written ''deadman'' (deadman_text (hours * 3600) (w_clock w)) w) ?v" .
  moreover have "deadman args w = atomic_write (components (state_dir w) @ [''deadman'']) (deadman_text (hours * 3600) (w_clock w)) 384 ?v"
    unfolding deadman_def bnd_def root prod.case res.case if_P [OF args(1)] Let_def if_not_P [of "_ \<or> _"]
    using args dbg
    by (simp add: ensure_ready [OF ready] lift_def require_def ret_def ask_def mul now_unix_def deadman_state_def state_file_def v
        del: fun_upd_apply)
  ultimately show ?thesis by (simp only: wp_def)
qed

lemma due_unat: "unat (c + hours * 3600 :: u64) = (unat c + unat hours * 3600) mod 2 ^ 64"
proof -
  have "unat (3600 :: u64) = 3600" by simp
  then show ?thesis by (simp only: unat_word_ariths len_num1 len_bit0 mod_simps mult_2) simp
qed

text \<open>
  C18. When the dead-man switch fires, to the second and to the bit: set by root to \<open>hours\<close> at time \<open>c\<close> on a
  release build, with no I/O faults, the check at any time \<open>t\<close> does nothing while \<open>t\<close> is at most
  \<open>(c + hours * 3600) mod 2 ^ 64\<close>, and at any greater \<open>t\<close> runs one command: the installed \<open>ds-erase\<close>, on
  the recorded target. Where the sum wraps around the due time may lie before \<open>c\<close>; the instance below fires
  at the second it is set.
\<close>

theorem deadman_fires_when_due:
  assumes root: "require_root w = (Ok (), w)" and ready: "state_ready ''deadman'' w" and dbg: "\<not> w_debug w"
    and args: "length args > 1" "args ! 1 \<noteq> ''off''" "args ! 1 \<noteq> ''disable''" "parse_word (args ! 1) = Some hours" "hours \<noteq> (0 :: u64)"
    and target: "fs_get (w_vis w) (target_path w) = Some (File d m s)" "utf8_valid d" "trim d \<noteq> []"
  shows "\<exists>w'. deadman args w = (Ok (), w') \<and>
    (\<forall>t. if unat t \<le> (unat (w_clock w) + unat hours * 3600) mod 2 ^ 64
      then deadman_check (w'\<lparr>w_clock := t\<rparr>) = (Ok 0, w'\<lparr>w_clock := t\<rparr>)
      else \<exists>code w''. deadman_check (w'\<lparr>w_clock := t\<rparr>) = (Ok code, w'') \<and> code \<noteq> 0 \<and>
        w_log w'' = w_log w @ [(eraser_of (w_vis w'), [''--fire'', ''--device'', trim d], [])])"
proof -
  obtain r w' where run: "deadman args w = (r, w')" by fastforce
  have post: "state_written ''deadman'' (deadman_text (hours * 3600) (w_clock w)) w r w'"
    by (rule wpD [OF deadman_set_calm [OF root ready dbg args] run])
  have switch: "state_dir w' = state_dir w"
    "look (w_vis w') (components (state_dir w) @ [''deadman'']) = Some (File (deadman_text (hours * 3600) (w_clock w)) 384 True)"
    using state_written_read [OF post] by blast+
  have env: "r = Ok ()" "w_sched w' = []" "w_debug w' = w_debug w" "w_log w' = w_log w"
    using post by (simp_all add: state_written_def same_env_def)
  have dir: "state_dir w = STATE_DIR" using dbg by (simp add: state_dir_def test_mode_def)
  have other: "components (STATE_DIR @ ''/target.device'') \<noteq> components STATE_DIR @ [''deadman'']"
    "components (STATE_DIR @ ''/target.device'') \<noteq> components STATE_DIR"
    by code_simp+
  have tgt: "fs_get (w_vis w') (components (STATE_DIR @ ''/target.device'')) = Some (File d m s)"
    using post target(1) other unfolding state_written_def Let_def dir target_path_def by simp
  have "if t \<le> w_clock w + hours * 3600 then deadman_check (w'\<lparr>w_clock := t\<rparr>) = (Ok 0, w'\<lparr>w_clock := t\<rparr>)
      else \<exists>code w''. deadman_check (w'\<lparr>w_clock := t\<rparr>) = (Ok code, w'') \<and> code \<noteq> 0 \<and>
        w_log w'' = w_log w @ [(eraser_of (w_vis w'), [''--fire'', ''--device'', trim d], [])]" for t
  proof -
    have sd: "state_dir (w'\<lparr>w_clock := t\<rparr>) = STATE_DIR" using dbg env(3) by (simp add: state_dir_def test_mode_def)
    show ?thesis
      using deadman_check_calm [of "w'\<lparr>w_clock := t\<rparr>" "hours * 3600" "w_clock w" 384 True d m s]
        env dbg target switch(2) look_File [OF tgt]
      by (cases "t \<le> w_clock w + hours * 3600") (simp_all add: deadman_path_def target_path_def sd dir)
  qed
  then show ?thesis using run env(1) unfolding word_le_nat_alt due_unat by blast
qed

definition switch_root :: fs where
  "switch_root = map (\<lambda>d. (components d, Dir 493)) [''/'', ''/var'', ''/var/lib'', ''/var/lib/arxos'', STATE_DIR] @
    [(components ''/proc/self/status'', File ''Uid: 0 0 0 0'' 292 True),
     (components (STATE_DIR @ ''/target.device''), File ''/dev/sda'' 384 True)]"

definition switching :: "unit world" where
  "switching = (machine switch_root ())\<lparr>w_clock := 100\<rparr>"

lemma switching_ready: "state_ready ''deadman'' switching"
proof (rule state_readyI)
  show "w_sched switching = []" "state_dir switching = STATE_DIR"
    by (simp_all add: switching_def state_dir_def test_mode_def)
  have p: "w_vis switching = switch_root" "w_pid switching = 1" by (simp_all add: switching_def)
  show "dirs_there (w_vis switching) (components STATE_DIR)" "fs_get (w_vis switching) (components STATE_DIR @ [''deadman'']) = None"
    unfolding p by code_simp+
  show "fs_get (w_vis switching) (components STATE_DIR @ [temp_name ''deadman'' (w_pid switching)]) = None"
    unfolding p by code_simp
qed

lemma root_status:
  assumes "w_sched w = []" "look (w_vis w) (components ''/proc/self/status'') = Some (File ''Uid: 0 0 0 0'' 292 True)"
  shows "require_root w = (Ok (), w)"
proof -
  have "utf8_valid ''Uid: 0 0 0 0''" by code_simp
  then have "attempt (read_to_string (components ''/proc/self/status'')) w = (Ok (Inr ''Uid: 0 0 0 0''), w)"
    using assms by (simp add: attempt_def read_to_string_def sys_def read_result_def)
  moreover have "(case find (\<lambda>l. prefix ''Uid:'' l) (text_lines ''Uid: 0 0 0 0'') of
      None \<Rightarrow> ''1'' | Some l \<Rightarrow> let v = split_whitespace (drop 4 l) in if length v < 2 then ''1'' else v ! 1) = ''0''"
    by code_simp
  ultimately show ?thesis
    unfolding require_root_def bnd_def by (simp add: require_def ret_def del: list.case)
qed

lemma switching_root: "require_root switching = (Ok (), switching)"
proof (rule root_status)
  have "fs_get switch_root (components ''/proc/self/status'') = Some (File ''Uid: 0 0 0 0'' 292 True)" by code_simp
  then show "look (w_vis switching) (components ''/proc/self/status'') = Some (File ''Uid: 0 0 0 0'' 292 True)"
    by (simp add: switching_def look_File)
qed (simp add: switching_def)

text \<open>
  The first number of hours for which the sum wraps around at time 100: the window is \<open>2 ^ 64 - 16\<close> seconds,
  due at 84, and the check at the very second of setting it fires.
\<close>

theorem deadman_fires_when_due_witness:
  "\<exists>w' code w''. deadman [''deadman'', show_word (5124095576030431 :: u64)] switching = (Ok (), w') \<and>
    deadman_check (w'\<lparr>w_clock := 100\<rparr>) = (Ok code, w'') \<and> code \<noteq> 0 \<and>
    w_log w'' = [(eraser_of (w_vis w'), [''--fire'', ''--device'', ''/dev/sda''], [])]"
proof -
  let ?args = "[''deadman'', show_word (5124095576030431 :: u64)]"
  have args: "length ?args > 1" "?args ! 1 \<noteq> ''off''" "?args ! 1 \<noteq> ''disable''"
      "parse_word (?args ! 1) = Some (5124095576030431 :: u64)" "(5124095576030431 :: u64) \<noteq> 0"
    using show_word_no [of "CHR ''o''" "5124095576030431 :: u64"] show_word_no [of "CHR ''d''" "5124095576030431 :: u64"]
    by (auto simp: is_digit_def parse_show_word)
  have target: "fs_get (w_vis switching) (target_path switching) = Some (File ''/dev/sda'' 384 True)"
    unfolding switching_def target_path_def state_dir_def test_mode_def by code_simp
  have dev: "utf8_valid ''/dev/sda''" "trim ''/dev/sda'' = ''/dev/sda''" by code_simp+
  then have "trim ''/dev/sda'' \<noteq> []" by simp
  moreover have rest: "\<not> w_debug switching" "w_log switching = []"
    "\<not> unat (100 :: u64) \<le> (unat (w_clock switching) + unat (5124095576030431 :: u64) * 3600) mod 2 ^ 64"
    by (simp_all add: switching_def)
  ultimately obtain w' where w': "deadman ?args switching = (Ok (), w')"
    "\<exists>code w''. deadman_check (w'\<lparr>w_clock := 100\<rparr>) = (Ok code, w'') \<and> code \<noteq> 0 \<and>
        w_log w'' = w_log switching @ [(eraser_of (w_vis w'), [''--fire'', ''--device'', trim ''/dev/sda''], [])]"
    using deadman_fires_when_due [OF switching_root switching_ready rest(1) args target dev(1)] by meson
  show ?thesis using w' unfolding dev(2) rest(2) append_Nil by blast
qed

end
