(* ===== verification/Registry.thy ===== *)
theory Registry
  imports Enroll State_Dir
begin

text \<open>
  The registry of known keyslots: its text as a codec, what reading and extending it do, and what an
  enrolment records in it.
\<close>

section \<open>The text\<close>

lemma comma_or_space_digit: "is_digit c \<Longrightarrow> comma_or_space (c # t) = 0"
  using is_digit_plain [of c] by (auto simp: comma_or_space_def is_digit_def)

lemma split_slots:
  "split_by comma_or_space (join '','' (map (show_word :: u8 \<Rightarrow> string) (n # ns)) @ ''\<newline>'') = map show_word (n # ns) @ [[]]"
proof (induction ns arbitrary: n)
  case Nil
  have "split_by comma_or_space (show_word n @ CHR 0x0A # []) = show_word n # split_by comma_or_space []"
    by (rule split_by_append)
      (use show_word_plain [of n] show_word_digits [of n] comma_or_space_digit in
        \<open>auto simp: list_all_iff comma_or_space_def ws_len_ascii ascii_space_def\<close>)
  then show ?case by simp
next
  case (Cons m ns)
  have "split_by comma_or_space (show_word n @ CHR '','' # (join '','' (map show_word (m # ns)) @ ''\<newline>'')) =
      show_word n # split_by comma_or_space (join '','' (map show_word (m # ns)) @ ''\<newline>'')"
    by (rule split_by_append)
      (use show_word_plain [of n] show_word_digits [of n] comma_or_space_digit in
        \<open>auto simp: list_all_iff comma_or_space_def\<close>)
  then show ?case using Cons.IH [of m] by simp
qed

lemma map_filter_all: "(\<And>x. x \<in> set xs \<Longrightarrow> f (g x) = Some x) \<Longrightarrow> List.map_filter f (map g xs) = xs"
  by (induction xs) (auto simp: List.map_filter_simps)

lemma known_slots_parse: "parse_known_slots (known_slots_text S) = S"
proof (cases "sorted_list_of_set S")
  case Nil
  have "finite S" by (rule finite)
  then have "S = {}" using Nil by (metis set_sorted_list_of_set list.set(1))
  moreover have "split_by comma_or_space ''\<newline>'' = [[], []]"
    by (simp add: comma_or_space_def ws_len_ascii ascii_space_def)
  moreover have "parse_word [] = (None :: u8 option)" by code_simp
  ultimately show ?thesis
    by (simp add: parse_known_slots_def known_slots_text_def List.map_filter_simps trim_plain)
next
  case (Cons n ns)
  have "parse_word [] = (None :: u8 option)" by code_simp
  moreover have "parse_word (trim (show_word k)) = Some k" for k :: u8
    using show_word_ends [of k] by (simp add: trim_plain parse_show_word)
  ultimately have "parse_known_slots (known_slots_text S) = set (n # ns)"
    unfolding parse_known_slots_def known_slots_text_def Cons split_slots
    using map_filter_all [of "n # ns" "\<lambda>tok. parse_word (trim tok)" show_word]
    by (simp add: List.map_filter_def)
  then show ?thesis using Cons by (metis finite set_sorted_list_of_set)
qed

lemma join_ascii: "is_ascii sep \<Longrightarrow> \<forall>t\<in>set ts. is_ascii t \<Longrightarrow> is_ascii (join sep ts)"
  by (induction sep ts rule: join.induct) auto

interpretation known_slots_file: text_codec known_slots_text "\<lambda>s. Ok (parse_known_slots s)" "\<lambda>_. True"
proof
  fix S
  show "Ok (parse_known_slots (known_slots_text S)) = Ok S" by (simp add: known_slots_parse)
  have "is_ascii (join '','' (map show_word (sorted_list_of_set S)))" by (rule join_ascii) simp_all
  then show "is_ascii (known_slots_text S)" by (simp add: known_slots_text_def)
qed

section \<open>The operations\<close>

lemma luks_keyslots_exact:
  assumes "luks_keyslots d w = (Ok s, w')" "tools_ok slots (w_exec w)"
  shows "s = slots (w_ext w) d"
proof -
  have "wp (active_slot_set d) (\<lambda>r v. \<forall>s. r = Ok s \<longrightarrow> s = slots (w_ext w) d) w"
    by (rule wp_active_slot_set [OF assms(2)]) simp_all
  then have "wp (luks_keyslots d) (\<lambda>r v. \<forall>s. r = Ok s \<longrightarrow> s = slots (w_ext w) d) w"
    unfolding luks_keyslots_def by (rule wp_bndI) (auto simp: wp_rules)
  from wpD [OF this assms(1)] show ?thesis by blast
qed

definition registry :: "'x world \<Rightarrow> u8 set" where
  "registry w = (case read_result (w_vis w) (components (state_dir w) @ [''known.slots'']) of
      Ok d \<Rightarrow> if utf8_valid d then parse_known_slots d else {} | _ \<Rightarrow> {})"

lemma read_known_slots_within:
  assumes "read_known_slots w = (Ok known, w')"
  shows "known \<subseteq> registry w"
proof -
  have "wp read_known_slots (\<lambda>r v. \<forall>known. r = Ok known \<longrightarrow> known \<subseteq> registry w) w"
    unfolding read_known_slots_def known_slots_path_def state_file_def wp_bnd [of "ask _"] wp_ask then_post_simps
      wp_bnd wp_attempt
    by (rule wp_read_to_string) (auto simp: wp_rules registry_def read_result_def)
  from wpD [OF this assms] show ?thesis by blast
qed

lemma read_known_slots_calm:
  assumes "w_sched w = []"
  shows "read_known_slots w = (Ok (registry w), w)"
  using assms
  by (auto simp: read_known_slots_def known_slots_path_def state_file_def bnd_def ask_def attempt_def read_to_string_def
      sys_def ret_def registry_def rbind_def read_result_def split: option.splits node.splits)

lemma wp_write_known_calm:
  assumes w: "state_ready ''known.slots'' w"
  shows "wp (write_known_slots S) (\<lambda>r w'. r = Ok () \<and> registry w' = S \<and> w_ext w' = w_ext w) w"
proof (rule wp_mono)
  have name: "plain_name ''known.slots''" by code_simp
  from wp_state_write_calm [OF w name] show
    "wp (write_known_slots S) (state_written ''known.slots'' (known_slots_text S) w) w"
    unfolding write_known_slots_def known_slots_path_def state_file_def
    by (simp only: wp_bnd wp_ask then_post_simps)
  fix r and w' :: "'a world" assume "state_written ''known.slots'' (known_slots_text S) w r w'"
  then show "r = Ok () \<and> registry w' = S \<and> w_ext w' = w_ext w"
    using state_written_read [of "''known.slots''" "known_slots_text S" w r w']
    by (simp add: state_written_def same_env_def registry_def read_result_def known_slots_file.enc_utf8 known_slots_parse)
qed

lemma wp_add_known_calm:
  assumes "state_ready ''known.slots'' w"
  shows "wp (add_known_slots S) (\<lambda>r w'. r = Ok () \<and> registry w' = registry w \<union> S \<and> w_ext w' = w_ext w) w"
proof (cases "S = {}")
  case False
  have "w_sched w = []" using assms by (simp add: state_ready_def)
  then have "add_known_slots S w = write_known_slots (registry w \<union> S) w"
    by (simp add: add_known_slots_def bnd_def read_known_slots_calm False)
  then show ?thesis using wp_write_known_calm [OF assms, of "registry w \<union> S"] by (simp only: wp_def)
qed (simp add: add_known_slots_def wp_rules)

section \<open>What an enrolment records\<close>

text \<open>
  C23. What an enrolment adds to the registry, without errors of the registry itself: when the second dump
  succeeds, exactly the active slots that the first dump did not show. When the second dump fails, nothing
  is recorded and the enrolment still reports success. A first dump that fails shows no slots, so that then
  every active slot, the enrolled one or not, counts as known, and \<open>arm\<close> no longer objects to any of them.
\<close>

theorem registry_after_enrolment:
  assumes first: "luks_keyslots device w = (b, w1)" "\<forall>h. b \<noteq> Halt h" and op: "op w1 = (Ok (), w2)"
    and second: "luks_keyslots device w2 = (a, w3)" "\<forall>h. a \<noteq> Halt h"
    and tools: "tools_ok slots (w_exec w2)" and ready: "state_ready ''known.slots'' w3"
  shows "\<exists>w'. record_added_slots device op w = (Ok (), w') \<and>
    (\<forall>after. a = Ok after \<longrightarrow>
      registry w' = registry w3 \<union> (slots (w_ext w2) device - (case b of Ok before \<Rightarrow> before | _ \<Rightarrow> {}))) \<and>
    (\<forall>e. a = Err e \<longrightarrow> w' = w3)"
proof (cases a)
  case (Ok after)
  let ?before = "case b of Ok before \<Rightarrow> before | _ \<Rightarrow> {}"
  have a: "after = slots (w_ext w2) device" by (rule luks_keyslots_exact [OF second(1) [unfolded Ok] tools])
  obtain r w' where add: "add_known_slots (after - ?before) w3 = (r, w')" by fastforce
  then have "r = Ok ()" "registry w' = registry w3 \<union> (after - ?before)"
    using wpD [OF wp_add_known_calm [OF ready] add] by auto
  moreover have "record_added_slots device op w = (r, w')"
    using first op second add Ok
    by (cases b) (auto simp: record_added_slots_def bnd_def attempt_def Let_def)
  ultimately show ?thesis using a Ok by blast
next
  case (Err e)
  have "record_added_slots device op w = (Ok (), w3)"
    using first op second(1) Err
    by (cases b) (auto simp: record_added_slots_def bnd_def attempt_def Let_def ret_def)
  then show ?thesis using Err by blast
qed (use second(2) in blast)

definition state_root :: fs where
  "state_root = map (\<lambda>d. (components d, Dir 493)) [''/'', ''/var'', ''/var/lib'', ''/var/lib/arxos'', STATE_DIR]"

definition enrolling :: "(string \<Rightarrow> u8 list) world" where
  "enrolling = (machine state_root (\<lambda>_. [0, 5]))\<lparr>w_exec := working_tools, w_sched := [Fail]\<rparr>"

lemma enrolling_ready: "state_ready ''known.slots'' (enrolling\<lparr>w_sched := [], w_log := l\<rparr>)"
proof (rule state_readyI)
  let ?w = "enrolling\<lparr>w_sched := [], w_log := l\<rparr>"
  have p: "w_vis ?w = state_root" "w_pid ?w = 1" by (simp_all add: enrolling_def)
  show "w_sched ?w = []" "state_dir ?w = STATE_DIR" by (simp_all add: enrolling_def state_dir_def test_mode_def)
  show "dirs_there (w_vis ?w) (components STATE_DIR)" "fs_get (w_vis ?w) (components STATE_DIR @ [''known.slots'']) = None"
    "fs_get (w_vis ?w) (components STATE_DIR @ [temp_name ''known.slots'' (w_pid ?w)]) = None"
    unfolding p by code_simp+
qed

theorem registry_after_enrolment_witness:
  "\<exists>w'. record_added_slots ''/dev/sda'' (cryptenroll [''--password'', ''/dev/sda'']) enrolling = (Ok (), w') \<and>
    registry w' = {0, 5}"
proof -
  let ?w1 = "enrolling\<lparr>w_sched := []\<rparr>"
  let ?w2 = "?w1\<lparr>w_log := [(''systemd-cryptenroll'', [''--password'', ''/dev/sda''], [])]\<rparr>"
  have first: "luks_keyslots ''/dev/sda'' enrolling = (Err (Msg ''cryptsetup luksDump''), ?w1)"
    by (simp add: luks_keyslots_def active_slot_set_def run_cmd_def probe_def bnd_def enrolling_def bail_def fail_def)
  have op: "cryptenroll [''--password'', ''/dev/sda''] ?w1 = (Ok (), ?w2)"
    by (simp add: cryptenroll_def run_cmd_def probe_def bnd_def enrolling_def working_tools_def lift_def cmd_status_def
        require_def ret_def)
  have dump: "slots_of_dump (concat (map (\<lambda>n. luks2_line n @ [CHR 0x0A]) [0, 5])) = {0, 5}"
    using slots_of_dump_shows [OF dump_shows_listed [of "[0, 5]"]] by simp
  have second: "luks_keyslots ''/dev/sda'' ?w2 =
      (Ok {0, 5}, ?w2\<lparr>w_log := w_log ?w2 @ [(''cryptsetup'', [''luksDump'', ''/dev/sda''], [])]\<rparr>)"
    using dump
    by (simp add: luks_keyslots_def active_slot_set_def run_cmd_def probe_def bnd_def enrolling_def working_tools_def ret_def)
  have tools: "tools_ok listed (w_exec ?w2)" by (simp add: enrolling_def working_tools_ok)
  let ?w3 = "?w2\<lparr>w_log := w_log ?w2 @ [(''cryptsetup'', [''luksDump'', ''/dev/sda''], [])]\<rparr>"
  have ready: "state_ready ''known.slots'' ?w3" using enrolling_ready by simp
  have "fs_get (w_vis ?w3) (components (state_dir ?w3) @ [''known.slots'']) = None"
    unfolding enrolling_def state_dir_def test_mode_def by code_simp
  then have "registry ?w3 = {}" by (simp add: registry_def read_result_def look_None)
  moreover have "listed (w_ext ?w2) ''/dev/sda'' = {0, 5}" by (simp add: listed_def enrolling_def)
  ultimately show ?thesis
    using registry_after_enrolment [where op = "cryptenroll [''--password'', ''/dev/sda'']", OF first _ op second _ tools ready] by simp
qed

end
