(* ===== verification/Arm_Audit.thy ===== *)
theory Arm_Audit
  imports Arm_Safety Registry
begin

text \<open>
  What \<open>arm\<close> has made sure of when it returns without error: the two recorded keyslots are different and
  active, and every other active keyslot of the target is in the registry.
\<close>

section \<open>Asking \<open>cryptsetup\<close>\<close>

text \<open>The steps before the transaction read, or ask \<open>cryptsetup\<close>, which changes nothing.\<close>

definition asks :: "('x \<Rightarrow> string \<Rightarrow> u8 set) \<Rightarrow> 'x world \<Rightarrow> 'x world \<Rightarrow> bool" where
  "asks slots w w' \<longleftrightarrow> (tools_ok slots (w_exec w) \<longrightarrow>
    w_vis w' = w_vis w \<and> slots (w_ext w') = slots (w_ext w) \<and> w_exec w' = w_exec w \<and>
    w_env w' = w_env w \<and> w_debug w' = w_debug w)"

interpretation asking: step_relation "asks slots" for slots
  by unfold_locales (auto simp: asks_def)

lemma asks_run_cmd:
  assumes "harmless prog args" "prog \<noteq> ''shred''"
  shows "keeps (asks slots) (run_cmd prog args inp)"
  unfolding keeps_def
proof (intro allI wp_run_cmd)
  fix w :: "'a world" and ss c v u x
  assume ex: "w_exec w prog args inp (w_vis w, w_dur w, w_ext w) = (c, v, u, x)"
  have "slots x = slots (w_ext w) \<and> v = w_vis w" if "tools_ok slots (w_exec w)"
    using that ex assms unfolding tools_ok_def harmless_law_def by blast
  then show "asks slots w (w\<lparr>w_sched := ss, w_vis := v, w_dur := u, w_ext := x, w_log := w_log w @ [(prog, args, inp)]\<rparr>)"
    by (simp add: asks_def)
qed (simp_all add: asks_def)

lemma asks_validate: "keeps (asks slots) (validate_luks_device device)"
  unfolding validate_luks_device_def
  by (intro asking.keeps_bnd asking.keeps_basic asks_run_cmd) (simp_all add: harmless_def)

lemma asks_active_slot_set: "keeps (asks slots) (active_slot_set device)"
  unfolding active_slot_set_def
  by (intro asking.keeps_bnd asks_run_cmd)
    (auto simp: harmless_def asking.keeps_ret asking.keeps_bail split: cmd.splits)

lemma asks_luks_keyslots: "keeps (asks slots) (luks_keyslots device)"
  unfolding luks_keyslots_def
  by (intro asking.keeps_bnd asks_active_slot_set) (simp add: asking.keeps_ret asking.keeps_bail)

section \<open>The audit\<close>

lemma read_known_slots_asks: "keeps (asks slots) read_known_slots"
  unfolding read_known_slots_def known_slots_path_def state_file_def
  by (intro asking.keeps_bnd asking.keeps_basic)

text \<open>The audit lets a target pass only when every active keyslot is accounted for.\<close>

lemma audit_slots_Ok:
  assumes run: "audit_slots target daily_slot recovery_slot w = (Ok (), w')" and tools: "tools_ok slots (w_exec w)"
  shows "{daily_slot, recovery_slot} \<subseteq> slots (w_ext w) target \<and>
    slots (w_ext w) target \<subseteq> registry w \<union> {daily_slot, recovery_slot}"
  using run unfolding audit_slots_def
proof (elim bnd_OkE, goal_cases)
  case (1 s v u v1 known v2 known' v3)
  have s: "s = slots (w_ext w) target" by (rule luks_keyslots_exact [OF 1(1) tools])
  have v: "asks slots w v" by (rule keepsD [OF asks_luks_keyslots 1(1)])
  have both: "daily_slot \<in> s \<and> recovery_slot \<in> s" and v1: "v1 = v" using 1(2) by (auto simp: require_Ok)
  have "registry v = registry w" using v tools by (simp add: asks_def registry_def state_dir_def test_mode_def)
  then have known: "known \<subseteq> registry w" using read_known_slots_within [OF 1(3)] v1 by simp
  have "known' \<subseteq> known \<union> {daily_slot, recovery_slot}"
    using 1(4) by (auto simp: ret_def bnd_def split: if_splits prod.splits res.splits)
  moreover have "s - known' = {}" using 1(5) by (simp add: require_Ok)
  ultimately show ?case using s both known by blast
qed

section \<open>The property\<close>

definition recorded_target :: "string \<Rightarrow> string res" where
  "recorded_target s = (if trim s = [] then Err NotFound else Ok (trim s))"

text \<open>Every way into the recorded target is accounted for.\<close>

definition accounted :: "('x \<Rightarrow> string \<Rightarrow> u8 set) \<Rightarrow> 'x world \<Rightarrow> bool" where
  "accounted slots w \<longleftrightarrow> (\<exists>target daily recovery.
    reads_as w (components (state_dir w @ ''/target.device'')) recorded_target target \<and>
    reads_as w (components (state_dir w) @ [''daily.slot'']) parse_slot daily \<and>
    reads_as w (components (state_dir w) @ [''recovery.slot'']) parse_slot recovery \<and>
    daily \<noteq> recovery \<and> {daily, recovery} \<subseteq> slots (w_ext w) target \<and>
    slots (w_ext w) target \<subseteq> registry w \<union> {daily, recovery})"

lemma read_slot_Ok: "read_slot name w = (Ok n, w') \<Longrightarrow> reads_as w (components (state_dir w) @ [name]) parse_slot n"
proof -
  have "wp (read_slot name) (\<lambda>r v. \<forall>n. r = Ok n \<longrightarrow> reads_as w (components (state_dir w) @ [name]) parse_slot n) w"
    unfolding read_slot_def state_file_def wp_bnd [of "ask _"] wp_ask then_post_simps wp_bnd wp_ctx
    by (rule wp_read_to_string) (auto simp: wp_rules reads_as_def)
  then show "read_slot name w = (Ok n, w') \<Longrightarrow> reads_as w (components (state_dir w) @ [name]) parse_slot n"
    by (blast dest: wpD)
qed

lemma configured_target_Ok:
  "configured_target w = (Ok (Some d), w') \<Longrightarrow> reads_as w (components (state_dir w @ ''/target.device'')) recorded_target d"
proof -
  have "wp configured_target (\<lambda>r v. \<forall>d. r = Ok (Some d) \<longrightarrow>
      reads_as w (components (state_dir w @ ''/target.device'')) recorded_target d) w"
    unfolding configured_target_def wp_bnd [of "ask _"] wp_ask then_post_simps wp_bnd wp_attempt
    by (rule wp_read_to_string) (auto simp: wp_rules reads_as_def recorded_target_def)
  then show "configured_target w = (Ok (Some d), w') \<Longrightarrow>
      reads_as w (components (state_dir w @ ''/target.device'')) recorded_target d"
    by (blast dest: wpD)
qed

lemma asks_readers:
  "keeps (asks slots) require_root" "keeps (asks slots) guard_disposable" "keeps (asks slots) read_policy"
  "keeps (asks slots) configured_target" "keeps (asks slots) (read_slot name)"
  unfolding require_root_def guard_disposable_def read_policy_def configured_target_def read_slot_def state_file_def Let_def
  by (intro asking.keeps_bnd asking.keeps_basic; auto split: sum.splits intro: asking.keeps_basic)+

lemma asks_views:
  assumes "asks slots w v" "tools_ok slots (w_exec w)"
  shows "state_dir v = state_dir w" "registry v = registry w" "slots (w_ext v) = slots (w_ext w)"
    "reads_as v p f a \<longleftrightarrow> reads_as w p f a" "tools_ok slots (w_exec v)"
proof -
  show dir: "state_dir v = state_dir w" using assms by (simp add: asks_def state_dir_def test_mode_def)
  show "registry v = registry w" using assms dir by (simp add: asks_def registry_def)
qed (use assms in \<open>simp_all add: asks_def reads_as_def\<close>)

text \<open>
  C6. No machine is armed past an unknown keyslot: when \<open>arm\<close> returns without error, whatever failed on
  the way, the recorded daily and recovery slots are different, both are active on the recorded target,
  and every other active keyslot of the target was in the registry that \<open>dsctl\<close> keeps.
\<close>

theorem arm_accounts_for_slots:
  assumes run: "arm w = (Ok (), w')" and tools: "tools_ok slots (w_exec w)"
  shows "accounted slots w"
proof -
  have "wp arm (\<lambda>r u. r = Ok () \<longrightarrow> accounted slots w) w"
    unfolding arm_def
  proof ((rule asking.wp_bnd_step [where w = w and slots = slots], (assumption | rule asking.refl),
        (intro asks_readers asks_validate asking.keeps_basic; fail))+, goal_cases)
    case (1 u1 v1 u2 v2 u3 v3 u4 v4 u5 v5 u6 v6 u7 v7 cfg v8 u9 v9 t v10 target v11 u12 v12 daily v13 recovery v14 u15 v15)
    have "t = Some target" using 1(21) by (rule lift_some_Ok)
    then have target: "reads_as w (components (state_dir w @ ''/target.device'')) recorded_target target"
      using configured_target_Ok [of v9 target] 1(19) by (simp add: asks_views [OF 1(18) tools])
    have slots: "reads_as w (components (state_dir w) @ [''daily.slot'']) parse_slot daily"
      "reads_as w (components (state_dir w) @ [''recovery.slot'']) parse_slot recovery"
      using read_slot_Ok [OF 1(25)] read_slot_Ok [OF 1(27)]
      by (simp_all only: asks_views [OF 1(24) tools] asks_views [OF 1(26) tools])
    have "daily \<noteq> recovery" using require_Ok [THEN iffD1, OF 1(29)] by blast
    moreover have "{daily, recovery} \<subseteq> slots (w_ext w) target \<and> slots (w_ext w) target \<subseteq> registry w \<union> {daily, recovery}"
      if "audit_slots target daily recovery v15 = (Ok (), v)" for v
      using audit_slots_Ok [OF that asks_views(5) [OF 1(30) tools]] asks_views(2,3) [OF 1(30) tools] by simp
    ultimately have "audit_slots target daily recovery v15 = (Ok (), v) \<Longrightarrow> accounted slots w" for v
      unfolding accounted_def using target slots by blast
    then show ?case by (auto simp: wp_iff elim!: bnd_OkE)
  qed (simp_all only: res.distinct simp_thms)
  from wpD [OF this run] show ?thesis by simp
qed

section \<open>A machine that passes\<close>

definition system_auth_armed :: string where
  "system_auth_armed = ''# deathstr0ke-arm\<newline>auth required pam_unix.so\<newline>''"

definition audit_root :: fs where
  "audit_root =
    [(components ''/proc/self/status'', File ''Name: dsctl\<newline>Uid: 0 0 0 0\<newline>'' 292 True),
     (components DISPOSABLE_MARKER, File [] 420 True), (components PAM_MODULE, File [] 493 True),
     (components (STATE_DIR @ ''/duress.hash''), File (serialize sample_hash) 384 True),
     (components (STATE_DIR @ ''/target.device''), File ''/dev/sda'' 384 True),
     (components STATE_DIR @ [''daily.slot''], File (show_word (0 :: u8)) 384 True),
     (components STATE_DIR @ [''recovery.slot''], File (show_word (1 :: u8)) 384 True),
     (components STATE_DIR @ [''known.slots''], File (known_slots_text {0, 1}) 384 True),
     (auth_path, File system_auth_armed 420 True), (marker_path, File [] 384 True), (esp_path ''armed'', File [] 384 True),
     (components ''/dev'', Dir 493), (components ''/dev/sda'', BlockDev)]"

lemma audit_root_paths:
  "distinct (map fst audit_root)" "components STATE_DIR @ [''config''] \<notin> set (map fst audit_root)"
  unfolding audit_root_def list.map fst_conv by code_simp+

lemma audit_root_get: "(p, n) \<in> set audit_root \<Longrightarrow> fs_get audit_root p = Some n"
  using audit_root_paths(1) by (simp add: map_of_is_SomeI)

text \<open>A machine on which nothing fails, with two keyslots and that file system.\<close>

definition passing :: "(string \<Rightarrow> u8 list) world \<Rightarrow> bool" where
  "passing w \<longleftrightarrow> w_sched w = [] \<and> w_vis w = audit_root \<and> w_ext w = (\<lambda>_. [0, 1]) \<and> w_exec w = working_tools \<and> \<not> w_debug w"

lemma passing_dir: "passing w \<Longrightarrow> state_dir w = STATE_DIR"
  by (simp add: passing_def state_dir_def test_mode_def)

lemma passing_file:
  assumes "passing w" "(p, File d m s) \<in> set audit_root"
  shows "utf8_valid d \<Longrightarrow> read_to_string p w = (Ok d, w)" "path_is_file p w = (Ok True, w)" "path_exists p w = (Ok True, w)"
proof -
  have "look (w_vis w) p = Some (File d m s)" using assms audit_root_get by (simp add: passing_def look_File)
  then show "utf8_valid d \<Longrightarrow> read_to_string p w = (Ok d, w)" "path_is_file p w = (Ok True, w)" "path_exists p w = (Ok True, w)"
    using assms(1)
    by (simp_all add: passing_def read_to_string_def sys_def read_result_def path_is_file_def path_exists_def probe_def is_file_node_def)
qed

lemma audit_root_files:
  "(components ''/proc/self/status'', File ''Name: dsctl\<newline>Uid: 0 0 0 0\<newline>'' 292 True) \<in> set audit_root"
  "(components DISPOSABLE_MARKER, File [] 420 True) \<in> set audit_root"
  "(components PAM_MODULE, File [] 493 True) \<in> set audit_root"
  "(components (STATE_DIR @ ''/duress.hash''), File (serialize sample_hash) 384 True) \<in> set audit_root"
  "(components (STATE_DIR @ ''/target.device''), File ''/dev/sda'' 384 True) \<in> set audit_root"
  "(components STATE_DIR @ [''daily.slot''], File (show_word (0 :: u8)) 384 True) \<in> set audit_root"
  "(components STATE_DIR @ [''recovery.slot''], File (show_word (1 :: u8)) 384 True) \<in> set audit_root"
  "(components STATE_DIR @ [''known.slots''], File (known_slots_text {0, 1}) 384 True) \<in> set audit_root"
  "(auth_path, File system_auth_armed 420 True) \<in> set audit_root" "(marker_path, File [] 384 True) \<in> set audit_root"
  "(esp_path ''armed'', File [] 384 True) \<in> set audit_root"
  unfolding audit_root_def by (simp_all only: list.set insert_iff simp_thms)

lemma passing_steps:
  assumes w: "passing w"
  shows "require_root w = (Ok (), w)" "guard_disposable w = (Ok (), w)" "read_policy w = (Ok default_policy, w)"
    "configured_target w = (Ok (Some ''/dev/sda''), w)"
    "read_slot ''daily.slot'' w = (Ok 0, w)" "read_slot ''recovery.slot'' w = (Ok 1, w)"
    "read_known_slots w = (Ok {0, 1}, w)"
proof -
  note dir = passing_dir [OF w] and texts = passing_file(1) [OF w] and there = passing_file(2,3) [OF w]
  have sched: "w_sched w = []" using w by (simp add: passing_def)
  have valid: "utf8_valid ''Name: dsctl\<newline>Uid: 0 0 0 0\<newline>''" "utf8_valid ''/dev/sda''" by code_simp+
  have uid: "(case find (\<lambda>l. prefix ''Uid:'' l) (text_lines ''Name: dsctl\<newline>Uid: 0 0 0 0\<newline>'') of
      None \<Rightarrow> ''1'' | Some l \<Rightarrow> let v = split_whitespace (drop 4 l) in if length v < 2 then ''1'' else v ! 1) = ''0''"
    by code_simp
  have "attempt (read_to_string (components ''/proc/self/status'')) w = (Ok (Inr ''Name: dsctl\<newline>Uid: 0 0 0 0\<newline>''), w)"
    unfolding attempt_def texts [OF audit_root_files(1) valid(1)] by simp
  then show "require_root w = (Ok (), w)"
    unfolding require_root_def bnd_def by (simp only: prod.case res.case sum.case Let_def uid [unfolded Let_def]) (simp add: require_def ret_def)
  show "guard_disposable w = (Ok (), w)"
    unfolding guard_disposable_def bnd_def there(2) [OF audit_root_files(2)]
    by (simp add: require_def ret_def)
  have "look (w_vis w) (components STATE_DIR @ [''config'']) = None"
    using w audit_root_paths(2) by (simp add: passing_def look_None map_of_eq_None_iff)
  then show "read_policy w = (Ok default_policy, w)"
    using sched dir by (simp add: read_policy_def state_file_def bnd_def ask_def attempt_def read_to_string_def sys_def
        read_result_def ret_def)
  have "trim ''/dev/sda'' = ''/dev/sda''" by code_simp
  then show "configured_target w = (Ok (Some ''/dev/sda''), w)"
    using texts [OF audit_root_files(5) valid(2)]
    by (simp add: configured_target_def bnd_def ask_def attempt_def ret_def dir)
  have slot: "parse_slot (show_word n) = Ok n" if "n \<le> 31" for n :: u8
    using that show_word_ends [of n] by (simp add: parse_slot_def trim_plain parse_show_word)
  show "read_slot ''daily.slot'' w = (Ok 0, w)" "read_slot ''recovery.slot'' w = (Ok 1, w)"
    using texts [OF audit_root_files(6)] texts [OF audit_root_files(7)] slot [of 0] slot [of 1]
    by (simp_all add: read_slot_def state_file_def bnd_def ask_def ctx_def lift_def dir ascii_utf8_valid)
  show "read_known_slots w = (Ok {0, 1}, w)"
    using texts [OF audit_root_files(8)]
    by (simp add: read_known_slots_def known_slots_path_def state_file_def bnd_def ask_def attempt_def ret_def dir
        known_slots_file.enc_utf8 known_slots_parse)
qed

lemma passing_device:
  assumes w: "passing w"
  shows "\<exists>l. validate_luks_device ''/dev/sda'' w = (Ok (), w\<lparr>w_log := l\<rparr>)"
    and "\<exists>l. luks_keyslots ''/dev/sda'' w = (Ok {0, 1}, w\<lparr>w_log := l\<rparr>)"
proof -
  have env: "w_sched w = []" "w_vis w = audit_root" "w_exec w = working_tools" "w_ext w = (\<lambda>_. [0, 1])"
    using w by (simp_all add: passing_def)
  have canon: "canon 4096 audit_root [''/''] (tl (components ''/dev/sda'')) = Some (components ''/dev/sda'')"
    "is_absolute (components ''/dev/sda'')" "prefix (components ''/dev/'') (components ''/dev/sda'')"
  proof -
    have "(components ''/dev'', Dir 493) \<in> set audit_root" "(components ''/dev/sda'', BlockDev) \<in> set audit_root"
      unfolding audit_root_def by (simp_all only: list.set insert_iff simp_thms)
    moreover have c: "components ''/dev'' = [''/'', ''dev'']" "components ''/dev/sda'' = [''/'', ''dev'', ''sda'']" by code_simp+
    ultimately have "fs_get audit_root [''/'', ''dev''] = Some (Dir 493)" "fs_get audit_root [''/'', ''dev'', ''sda''] = Some BlockDev"
      using audit_root_get by metis+
    then show "canon 4096 audit_root [''/''] (tl (components ''/dev/sda'')) = Some (components ''/dev/sda'')"
      unfolding c by (simp add: eval_nat_numeral)
    show "is_absolute (components ''/dev/sda'')" "prefix (components ''/dev/'') (components ''/dev/sda'')" by code_simp+
  qed
  have dev: "fs_get audit_root (components ''/dev/sda'') = Some BlockDev"
    by (rule audit_root_get) (unfold audit_root_def, simp only: list.set insert_iff simp_thms)
  have ok: "\<not> (''/dev/sda'' = [] \<or> length ''/dev/sda'' > 4096 \<or>
      CHR 0x0A \<in> set ''/dev/sda'' \<or> CHR 0x0D \<in> set ''/dev/sda'' \<or> CHR 0x00 \<in> set ''/dev/sda'')"
    by simp
  have steps: "ctx c (canonicalize (components ''/dev/sda'')) w = (Ok (components ''/dev/sda''), w)"
    "metadata (components ''/dev/sda'') w = (Ok BlockDev, w)" for c
    using env canon dev by (simp_all add: ctx_def canonicalize_def metadata_def sys_def look_plain is_link_def)
  have run: "run_cmd ''cryptsetup'' [''isLuks'', ''/dev/sda''] [] w =
      (Ok (Exited True []), w\<lparr>w_log := w_log w @ [(''cryptsetup'', [''isLuks'', ''/dev/sda''], [])]\<rparr>)"
    using env by (simp add: run_cmd_def probe_def bnd_def working_tools_def)
  have "validate_luks_device ''/dev/sda'' w = (Ok (), w\<lparr>w_log := w_log w @ [(''cryptsetup'', [''isLuks'', ''/dev/sda''], [])]\<rparr>)"
    unfolding validate_luks_device_def bnd_def require_def if_P [OF ok] if_P [OF canon(3)] ret_def steps run prod.case res.case if_P [OF refl]
    by (simp add: lift_def cmd_status_def)
  then show "\<exists>l. validate_luks_device ''/dev/sda'' w = (Ok (), w\<lparr>w_log := l\<rparr>)" by blast
  have dump: "slots_of_dump (concat (map (\<lambda>n. luks2_line n @ [CHR 0x0A]) [0, 1])) = {0, 1}"
    using slots_of_dump_shows [OF dump_shows_listed [of "[0, 1]"]] by simp
  then show "\<exists>l. luks_keyslots ''/dev/sda'' w = (Ok {0, 1}, w\<lparr>w_log := l\<rparr>)"
    using env by (simp add: luks_keyslots_def active_slot_set_def run_cmd_def probe_def bnd_def working_tools_def ret_def)
      (intro exI world.equality; simp)
qed

lemma passing_log: "passing w \<Longrightarrow> passing (w\<lparr>w_log := l\<rparr>)"
  by (simp add: passing_def)

lemma passing_audit:
  assumes w: "passing w"
  shows "\<exists>v. audit_slots ''/dev/sda'' 0 1 w = (Ok (), v) \<and> passing v"
proof -
  obtain l where l: "luks_keyslots ''/dev/sda'' w = (Ok {0, 1}, w\<lparr>w_log := l\<rparr>)" using passing_device(2) [OF w] by blast
  have "audit_slots ''/dev/sda'' 0 1 w = (Ok (), w\<lparr>w_log := l\<rparr>)"
    using l passing_steps(7) [OF passing_log [OF w]]
    by (simp add: audit_slots_def bnd_def require_def ret_def)
  then show ?thesis using passing_log [OF w] by blast
qed

lemma passing_arms:
  assumes w: "passing w"
  shows "\<exists>v. arm w = (Ok (), v)"
proof -
  obtain l where l: "validate_luks_device ''/dev/sda'' w = (Ok (), w\<lparr>w_log := l\<rparr>)" using passing_device(1) [OF w] by blast
  let ?v = "w\<lparr>w_log := l\<rparr>"
  obtain u where u: "audit_slots ''/dev/sda'' 0 1 ?v = (Ok (), u)" "passing u" using passing_audit [OF passing_log [OF w]] by blast
  have hash: "ask duress_hash_path w = (Ok (components (STATE_DIR @ ''/duress.hash'')), w)"
    "ctx c (read_to_string (components (STATE_DIR @ ''/duress.hash''))) w = (Ok (serialize sample_hash), w)"
    "ctx c (lift (parse_verifier (serialize sample_hash))) w = (Ok sample_hash, w)" for c
    using passing_dir [OF w] passing_file(1) [OF w audit_root_files(4)] verifier_file.dec_enc [of sample_hash] sample_hash_ok
    by (simp_all add: ask_def duress_hash_path_def ctx_def lift_def ascii_utf8_valid serialize_ascii)
  have pol: "lift (validate_policy default_policy) w = (Ok default_policy, w)" 
    using validate_policy_sound default_policy_sound by (simp add: lift_def)
  have tgt: "lift (some_or c (Some x)) w = (Ok x, w)" for c and x :: string by (simp add: lift_def)
  have "utf8_valid system_auth_armed" by code_simp
  then have auth: "ctx c (read_to_string auth_path) u = (Ok system_auth_armed, u)" for c
    using passing_file(1) [OF u(2) audit_root_files(9)] by (simp add: ctx_def)
  have marks: "path_is_file marker_path u = (Ok True, u)" "path_is_file (esp_path ''armed'') u = (Ok True, u)"
    using passing_file(2) [OF u(2) audit_root_files(10)] passing_file(2) [OF u(2) audit_root_files(11)] by simp_all
  have marked: "contains system_auth_armed ARM_MARKER" by code_simp
  have "arm w = (Ok (), u)"
    unfolding arm_def bnd_def passing_steps [OF w] prod.case res.case passing_file(3) [OF w audit_root_files(3)]
      require_def if_True ret_def hash pol tgt l passing_steps [OF passing_log [OF w]]
    by (simp only: zero_neq_one not_False_eq_True if_True prod.case res.case u(1) auth marks marked simp_thms)
  then show ?thesis by blast
qed

lemma passing_machine: "passing ((machine audit_root (\<lambda>_. [0, 1]))\<lparr>w_exec := working_tools\<rparr>)"
  by (simp add: passing_def)

theorem arm_accounts_for_slots_witness:
  "accounted listed ((machine audit_root (\<lambda>_. [0, 1]))\<lparr>w_exec := working_tools\<rparr>)"
proof -
  obtain v where "arm ((machine audit_root (\<lambda>_. [0, 1]))\<lparr>w_exec := working_tools\<rparr>) = (Ok (), v)"
    using passing_arms [OF passing_machine] by blast
  then show ?thesis by (rule arm_accounts_for_slots) (simp add: working_tools_ok)
qed

end
