(* ===== verification/Panic_Safety.thy ===== *)
theory Panic_Safety
  imports Disarm_Safety Dsctl Deadman_Window Arm_Audit Pam
begin

text \<open>
  The deliberate trigger, \<open>dsctl panic\<close>: what has to be true before it runs \<open>ds-erase\<close>.
\<close>

section \<open>What the steps keep\<close>

text \<open>Everything but the schedule and the secrets still to be entered.\<close>

definition only_entry :: "'x world \<Rightarrow> 'x world \<Rightarrow> bool" where
  "only_entry w w' \<longleftrightarrow>
    w_vis w' = w_vis w \<and> w_dur w' = w_dur w \<and> w_ext w' = w_ext w \<and> w_exec w' = w_exec w \<and> w_kdf w' = w_kdf w \<and>
    w_debug w' = w_debug w \<and> w_env w' = w_env w \<and> w_log w' = w_log w \<and> w_spawned w' = w_spawned w"

interpretation entering: step_relation only_entry
  by unfold_locales (simp_all add: only_entry_def)

lemma only_entry_same:
  assumes "only_entry w v"
  shows "w_vis v = w_vis w" "w_dur v = w_dur w" "w_ext v = w_ext w" "w_log v = w_log w" "w_kdf v = w_kdf w"
    "w_exec v = w_exec w" "state_dir v = state_dir w" "duress_hash_path v = duress_hash_path w"
    "reads_as v p f a \<longleftrightarrow> reads_as w p f a"
  using assms by (simp_all add: only_entry_def state_dir_def test_mode_def duress_hash_path_def reads_as_def)

lemma entering_secret: "keeps only_entry read_secret"
proof -
  have "keeps only_entry read_line"
    unfolding read_line_def by (rule entering.keeps_sys) (auto simp: only_entry_def Let_def split: option.splits)
  moreover have "keeps only_entry prompt_password"
    unfolding prompt_password_def by (rule entering.keeps_sys) (auto simp: only_entry_def split: list.splits)
  ultimately show ?thesis
    unfolding read_secret_def
    by (intro entering.keeps_bnd entering.keeps_basic)
      (auto split: option.splits intro!: entering.keeps_bnd entering.keeps_ctx entering.keeps_ret)
qed

text \<open>What the user is asked for: the line piped in, or what is typed.\<close>

definition entered :: "'x world \<Rightarrow> string \<Rightarrow> bool" where
  "entered w s \<longleftrightarrow>
    (case w_stdin w of
       Some inp \<Rightarrow> s = trim_newlines (case split_inclusive inp of [] \<Rightarrow> [] | l # ls \<Rightarrow> l)
     | None \<Rightarrow> w_tty w \<noteq> [] \<and> s = hd (w_tty w))"

lemma read_secret_entered: "read_secret w = (Ok s, w') \<Longrightarrow> entered w s"
proof -
  have "wp read_secret (\<lambda>r v. \<forall>s. r = Ok s \<longrightarrow> entered w s) w"
  proof (cases "w_stdin w")
    case None
    have "wp prompt_password (\<lambda>r v. \<forall>s. r = Ok s \<longrightarrow> entered w s) w"
      unfolding prompt_password_def
      by (rule wp_sysI) (use None in \<open>auto simp: entered_def split: list.splits\<close>)
    then show ?thesis
      unfolding read_secret_def wp_bnd wp_ask then_post_simps None option.case wp_ctx by (rule wp_mono) simp
  next
    case (Some inp)
    have "wp read_line (\<lambda>r v. \<forall>l. r = Ok l \<longrightarrow> l = (case split_inclusive inp of [] \<Rightarrow> [] | l # ls \<Rightarrow> l)) w"
      unfolding read_line_def
      by (rule wp_sysI) (use Some in \<open>auto simp: Let_def split: list.splits\<close>)
    then show ?thesis
      unfolding read_secret_def wp_bnd wp_ask then_post_simps Some option.case wp_ctx
      by (rule wp_mono) (auto simp: rctx_def wp_rules entered_def Some split: res.splits)
  qed
  then show "read_secret w = (Ok s, w') \<Longrightarrow> entered w s" by (blast dest: wpD)
qed

section \<open>The property\<close>

text \<open>
  The \<open>ds-erase\<close> that \<open>panic\<close> may run: the one that a test build is given, else an installed one, else the
  one on the path.
\<close>

definition eraser_choice :: "'x world \<Rightarrow> string \<Rightarrow> bool" where
  "eraser_choice w erase \<longleftrightarrow>
    (case if test_mode w then w_env w ''DS_ERASE_BIN'' else None of
       Some p \<Rightarrow> erase = p
     | None \<Rightarrow> erase = ''ds-erase'' \<or>
         erase \<in> {''/usr/lib/arxos/deathstroke/ds-erase'', ''/usr/local/bin/ds-erase''} \<and>
         look (w_vis w) (components erase) \<noteq> None)"

definition trigger_post :: "'x world \<Rightarrow> unit res \<Rightarrow> 'x world \<Rightarrow> bool" where
  "trigger_post w r w' \<longleftrightarrow> only_entry w w' \<and> r \<noteq> Ok () \<or>
    (\<exists>dh s dev erase. look (w_vis w) (components ARMED_MARKER) \<noteq> None \<and>
      reads_as w (duress_hash_path w) parse_verifier dh \<and> entered w s \<and> verify (w_kdf w) dh s = Ok True \<and>
      reads_as w (components (state_dir w @ ''/target.device'')) recorded_target dev \<and>
      eraser_choice w erase \<and> w_log w' = w_log w @ [(erase, [''--fire'', ''--device'', dev], [])])"

lemma only_sched_entry: "only_sched w v \<Longrightarrow> only_entry w v"
  by (auto simp: only_sched_def only_entry_def)

lemma keeps_entry_first: "keeps only_entry (first_existing ps)"
  by (induction ps) (auto intro!: entering.keeps_bnd entering.keeps_basic)

lemma keeps_panic_eraser: "keeps only_entry panic_eraser"
  unfolding panic_eraser_def
  by (intro entering.keeps_bnd entering.keeps_basic)
    (simp only: entering.keeps_ret keeps_entry_first simp_thms split: option.split)

lemma path_exists_Ok: "path_exists p w = (Ok True, w') \<Longrightarrow> look (w_vis w) p \<noteq> None"
proof -
  have "wp (path_exists p) (\<lambda>r v. r = Ok True \<longrightarrow> look (w_vis w) p \<noteq> None) w"
    unfolding path_exists_def by (rule wp_probe) simp_all
  then show "path_exists p w = (Ok True, w') \<Longrightarrow> look (w_vis w) p \<noteq> None" by (blast dest: wpD)
qed

lemma first_existing_Ok: "first_existing ps w = (Ok p, w') \<Longrightarrow> p = ''ds-erase'' \<or> p \<in> set ps \<and> look (w_vis w) (components p) \<noteq> None"
proof (induction ps arbitrary: w)
  case (Cons q ps)
  from Cons.prems obtain there v where q: "path_exists (components q) w = (Ok there, v)"
      "(if there then ret q else first_existing ps) v = (Ok p, w')"
    by (auto elim: bnd_OkE)
  have v: "w_vis v = w_vis w"
    using keepsD [OF reading.keeps_path_exists q(1)] by (auto simp: only_sched_def)
  show ?case
  proof (cases there)
    case True
    then show ?thesis using q path_exists_Ok [of "components q" w v] by (simp add: ret_def)
  next
    case False
    then show ?thesis using q(2) Cons.IH [of v] v by auto
  qed
qed (simp add: ret_def)

lemma panic_eraser_Ok: "panic_eraser w = (Ok erase, w') \<Longrightarrow> eraser_choice w erase"
  using first_existing_Ok [of "[''/usr/lib/arxos/deathstroke/ds-erase'', ''/usr/local/bin/ds-erase'']" w erase w']
  by (auto simp: panic_eraser_def bnd_def ask_def eraser_choice_def ret_def split: option.splits if_splits)

lemma keeps_target: "keeps only_entry configured_target"
  unfolding configured_target_def by (intro entering.keeps_bnd entering.keeps_basic)

lemma only_entry_choice: "only_entry w v \<Longrightarrow> eraser_choice v = eraser_choice w"
proof -
  assume v: "only_entry w v"
  then have "test_mode v = test_mode w" "w_env v = w_env w" "w_vis v = w_vis w"
    by (simp_all add: only_entry_def test_mode_def)
  then show ?thesis by (intro ext) (simp only: eraser_choice_def)
qed

lemma trigger_command:
  assumes v: "only_entry w v" and facts: "look (w_vis w) (components ARMED_MARKER) \<noteq> None"
      "reads_as w (duress_hash_path w) parse_verifier dh" "entered w s" "verify (w_kdf w) dh s = Ok True"
      "reads_as w (components (state_dir w @ ''/target.device'')) recorded_target dev" "eraser_choice w erase"
  shows "wp (bnd (run_cmd erase [''--fire'', ''--device'', dev] []) (\<lambda>c.
    bnd (lift (cmd_status ''spawn ds-erase'' c)) (\<lambda>finished.
    require finished ''ds-erase did not complete successfully''))) (trigger_post w) v"
proof -
  let ?fired = "\<lambda>u. w_log u = w_log w @ [(erase, [''--fire'', ''--device'', dev], [])]"
  have fired: "trigger_post w q u" if "?fired u" for q u
    unfolding trigger_post_def using facts that by blast
  have quiet: "trigger_post w (Err e) u" "trigger_post w (Halt h) u" if "only_entry w u" for e h u
    using that by (simp_all add: trigger_post_def)
  show ?thesis
    unfolding wp_bnd [of "run_cmd _ _ _"]
  proof (rule wp_run_cmd, unfold then_post_simps, goal_cases)
    case (3 ss c vis dur x)
    show ?case by (cases c) (auto simp: wp_rules cmd_status_def only_entry_same(4) [OF v] intro!: fired)
  qed (use v quiet in \<open>simp_all add: wp_rules cmd_status_def only_entry_def\<close>)
qed

lemma read_parse_Ok:
  assumes "ctx c (read_to_string p) w = (Ok d, w')" "lift (f d) v = (Ok a, v')"
  shows "reads_as w p f a"
proof -
  have "wp (ctx c (read_to_string p)) (\<lambda>r v. \<forall>d. r = Ok d \<longrightarrow> utf8_valid d \<and> (\<exists>m s. look (w_vis w) p = Some (File d m s))) w"
    unfolding wp_ctx by (rule wp_read_to_string) auto
  from wpD [OF this assms(1)] assms(2) show ?thesis by (auto simp: reads_as_def lift_def)
qed

text \<open>
  C7. The deliberate trigger needs the phrase: whatever fails, \<open>dsctl panic\<close> either changes nothing and
  reports no success, or the armed marker is there, the secret that was entered verifies against the
  enrolled verifier, and the one command it runs is \<open>ds-erase\<close> on the recorded target.
\<close>

theorem panic_needs_phrase:
  assumes run: "panic_wipe w = (r, w')"
  shows "trigger_post w r w'"
proof -
  have quiet: "only_entry w v \<Longrightarrow> trigger_post w (Err e) v" "only_entry w v \<Longrightarrow> trigger_post w (Halt h) v" for e h v
    by (simp_all add: trigger_post_def)
  have "wp panic_wipe (trigger_post w) w"
    unfolding panic_wipe_def
  proof ((rule reading.wp_bnd_step [where w = w], (assumption | rule reading.refl),
        (intro keeps_require_root reading.keeps_basic; fail))+, goal_cases)
    case (1 u1 v1 armed v2 u3 v3 path v4 stored v5 dh v6)
    have armed: "look (w_vis w) (components ARMED_MARKER) \<noteq> None"
    proof -
      have armed using require_Ok [THEN iffD1, OF 1(5)] ..
      then have "look (w_vis v1) (components ARMED_MARKER) \<noteq> None"
        using 1(3) by (intro path_exists_Ok [of _ v1 v2]) simp
      then show ?thesis by (simp only: only_entry_same(1) [OF only_sched_entry [OF 1(2)]] not_False_eq_True)
    qed
    have path: "path = duress_hash_path w"
      using 1(7) only_entry_same(8) [OF only_sched_entry [OF 1(6)]] by (simp add: ask_def)
    have dh: "reads_as w (duress_hash_path w) parse_verifier dh"
      using read_parse_Ok [where f = parse_verifier, OF 1(9,11)]
      by (simp only: path only_entry_same(9) [OF only_sched_entry [OF 1(8)]])
    have same: "entered v6 s \<longleftrightarrow> entered w s" for s using 1(12) by (auto simp: entered_def only_sched_def split: option.splits)
    show ?case
    proof ((rule entering.wp_bnd_step [where w = w], (assumption | rule only_sched_entry [OF 1(12)]),
        (intro entering_secret keeps_target keeps_panic_eraser entering.keeps_basic; fail))+, goal_cases)
      case (1 s v7 kdf v8 ok v9 u10 v10 t v11 dev v12 erase v13)
      have "entered w s" using read_secret_entered [OF 1(1)] same by blast
      moreover have "verify (w_kdf w) dh s = Ok True"
        using 1(3,5,7) only_entry_same(5) [OF 1(2)] by (simp add: ask_def lift_def require_Ok)
      moreover have "reads_as w (components (state_dir w @ ''/target.device'')) recorded_target dev"
        using configured_target_Ok [of v10 dev] 1(9) lift_some_Ok [OF 1(11)]
        by (simp add: only_entry_same [OF 1(8)])
      moreover have "eraser_choice w erase"
        using panic_eraser_Ok [OF 1(13)] only_entry_choice [OF 1(12)] by simp
      ultimately show ?case by (rule trigger_command [OF 1(14) armed dh])
    qed (simp_all only: quiet)
  qed (simp_all only: quiet only_sched_entry)
  then show ?thesis using run by (rule wpD)
qed

text \<open>An armed machine with a verifier, a recorded target and \<open>ds-erase\<close> installed, and its phrase typed.\<close>

definition panic_root :: fs where
  "panic_root =
    [(components ARMED_MARKER, File ''armed=1\<newline>'' 384 True),
     (components (STATE_DIR @ ''/duress.hash''), File (serialize sample_hash) 384 True),
     (components ''/usr/lib/arxos/deathstroke/ds-erase'', File [] 493 True)] @ switch_root"

definition panicking :: "unit world" where
  "panicking = (calm_machine panic_root)
    \<lparr>w_kdf := (\<lambda>pw salt n. Some (if pw = ''panic1'' then replicate 32 255 else replicate 32 0)), w_tty := [''panic1'']\<rparr>"

lemma panicking_fields:
  "w_vis panicking = panic_root" "w_sched panicking = []" "\<not> w_debug panicking" "w_tty panicking = [''panic1'']"
  "w_stdin panicking = None" "w_log panicking = []" "state_dir panicking = STATE_DIR"
  "duress_hash_path panicking = components (STATE_DIR @ ''/duress.hash'')"
  "w_exec panicking = (\<lambda>prog args inp st. (Exited True [], st))"
  by (simp_all add: panicking_def calm_machine_def state_dir_def test_mode_def duress_hash_path_def)

lemma panic_root_files:
  "look panic_root (components ARMED_MARKER) = Some (File ''armed=1\<newline>'' 384 True)"
  "look panic_root (components (STATE_DIR @ ''/duress.hash'')) = Some (File (serialize sample_hash) 384 True)"
  "look panic_root (components ''/usr/lib/arxos/deathstroke/ds-erase'') = Some (File [] 493 True)"
  "look panic_root (components ''/proc/self/status'') = Some (File ''Uid: 0 0 0 0'' 292 True)"
  "look panic_root (components (STATE_DIR @ ''/target.device'')) = Some (File ''/dev/sda'' 384 True)"
  by (rule look_File, simp add: panic_root_def switch_root_def components_def STATE_DIR_def ARMED_MARKER_def)+

lemma panicking_fires:
  "panic_wipe panicking = (Ok (), panicking\<lparr>w_tty := [],
    w_log := [(''/usr/lib/arxos/deathstroke/ds-erase'', [''--fire'', ''--device'', ''/dev/sda''], [])]\<rparr>)"
proof -
  let ?t = "panicking\<lparr>w_tty := []\<rparr>"
  note w = panicking_fields and f = panic_root_files
  have root: "require_root panicking = (Ok (), panicking)"
    by (rule root_status) (simp_all add: w f)
  have marker: "path_exists (components ARMED_MARKER) panicking = (Ok True, panicking)"
    by (simp add: path_exists_def probe_def w f)
  have hash: "read_to_string (components (STATE_DIR @ ''/duress.hash'')) panicking = (Ok (serialize sample_hash), panicking)"
    by (simp add: read_to_string_def sys_def read_result_def w f ascii_utf8_valid serialize_ascii)
  have parse: "parse_verifier (serialize sample_hash) = Ok sample_hash"
    using verifier_file.dec_enc [of sample_hash] sample_hash_ok by simp
  have typed: "read_secret panicking = (Ok ''panic1'', ?t)"
    by (simp add: read_secret_def bnd_def ask_def prompt_password_def sys_def w ctx_def ret_def)
  have "verify (w_kdf panicking) sample_hash ''panic1'' = Ok True"
    by (simp add: verify_def pbkdf2_sha256_def panicking_def sample_hash_def validate_iterations_def
        MIN_ITERATIONS_def MAX_ITERATIONS_def)
  moreover have "utf8_valid ''/dev/sda''" "trim ''/dev/sda'' = ''/dev/sda''" by code_simp+
  then have "configured_target ?t = (Ok (Some ''/dev/sda''), ?t)"
    by (simp add: configured_target_def bnd_def ask_def attempt_def read_to_string_def sys_def read_result_def w f ret_def
        state_dir_def test_mode_def)
  moreover have "panic_eraser ?t = (Ok ''/usr/lib/arxos/deathstroke/ds-erase'', ?t)"
    by (simp add: panic_eraser_def bnd_def ask_def test_mode_def w path_exists_def probe_def f ret_def)
  ultimately show ?thesis
    by (simp add: panic_wipe_def bnd_def root marker require_def ret_def ask_def w ctx_def hash lift_def parse typed
        some_or_def run_cmd_def probe_def cmd_status_def)
qed

theorem panic_needs_phrase_witness:
  "\<exists>w'. panic_wipe panicking = (Ok (), w') \<and> trigger_post panicking (Ok ()) w' \<and>
    w_log w' = [(''/usr/lib/arxos/deathstroke/ds-erase'', [''--fire'', ''--device'', ''/dev/sda''], [])]"
  using panicking_fires panic_needs_phrase [OF panicking_fires] by simp

end
