(* ===== verification/Handoff.thy ===== *)
theory Handoff
  imports Arm_Safety Unlock_Safety
begin

text \<open>
  From \<open>dsctl\<close> to the next boot: what \<open>arm\<close> has put on the ESP is what \<open>ds-unlock\<close> reads there.
\<close>

text \<open>The readers of \<open>ds-unlock\<close> on a file, when nothing fails.\<close>

lemma readers_calm:
  assumes w: "w_sched w = []"
  shows "look (w_vis w) (esp @ [''config'']) = Some (File d m s) \<Longrightarrow> utf8_valid d \<Longrightarrow> parse_policy d = Ok cfg \<Longrightarrow>
      read_cfg esp w = (Ok cfg, w)"
    and "look (w_vis w) (esp @ [''duress.hash'']) = Some (File d m s) \<Longrightarrow> utf8_valid d \<Longrightarrow> parse_verifier d = Ok dh \<Longrightarrow>
      load_duress esp w = (Ok dh, w)"
    and "look (w_vis w) (counter_path esp) = Some (File d m s) \<Longrightarrow> utf8_valid d \<Longrightarrow> parse_count d = Ok n \<Longrightarrow>
      read_count esp w = (Ok n, w)"
    and "look (w_vis w) (esp @ [''daily.slot'']) = Some (File d m s) \<Longrightarrow> utf8_valid d \<Longrightarrow> parse_slot d = Ok k \<Longrightarrow>
      read_daily_slot esp w = (Ok k, w)"
    and "look (w_vis w) (esp @ [''recovery.slot'']) = Some (File d m s) \<Longrightarrow> utf8_valid d \<Longrightarrow> parse_slot d = Ok k \<Longrightarrow>
      read_recovery_slot esp w = (Ok k, w)"
  using w
  by (auto simp: read_cfg_def load_duress_def read_count_def read_daily_slot_def read_recovery_slot_def bnd_def ctx_def
      read_to_string_def sys_def read_result_def lift_def ret_def parse_slot_def rbind_def some_or_def bail_def fail_def
      split: option.splits if_splits)

section \<open>Arming when nothing fails\<close>

lemma completes_hook:
  assumes c: "with_deathstroke_hook c = Ok u" "utf8_valid c"
  shows "completes (conf_is c) (\<lambda>_. True) ensure_deathstroke_hook_before_encrypt"
  unfolding completes_def ensure_rewrites
proof (intro allI impI)
  fix w :: "'a world" assume w: "smooth w" "conf_is c (armed_state w)"
  obtain t b where u: "u = (t, b)" by (cases u)
  note read = smooth_read [OF w(1) artefact_paths(2) w(2) c(2)]
  obtain n where n: "metadata MKINITCPIO_CONF w = (Ok n, w)" using read(3) by blast
  obtain w' where put: "atomic_write MKINITCPIO_CONF t (mode_bits n) w = (Ok (), w')" "smooth w'"
    using smooth_put [OF w(1), of MKINITCPIO_CONF] artefact_paths(2) by blast
  have "rewrite_conf with_deathstroke_hook w = (Ok (), if b then w' else w)"
    using n put c(1) by (simp add: rewrite_conf_def bnd_def ctx_def read(1) lift_def u ret_def)
  then show "\<exists>w'. rewrite_conf with_deathstroke_hook w = (Ok (), w') \<and> smooth w' \<and> True"
    using put(2) w(1) by (cases b) auto
qed

lemma completes_commit:
  assumes c: "with_deathstroke_hook c = Ok u" "utf8_valid c"
  shows "completes (conf_is c) (\<lambda>_. True) (arm_commit verifier cfg daily_slot recovery_slot updated mode)"
proof -
  have n: "MKINITCPIO_CONF \<noteq> marker_path" using paths_distinct by auto
  have conf: "MKINITCPIO_CONF \<notin> esp_path ` set esp_names" using paths_distinct by auto
  have n2: "x \<in> set esp_names \<Longrightarrow> esp_path x \<noteq> MKINITCPIO_CONF" for x using conf by (metis imageI)
  have tool: "image_tool ''mkinitcpio''" by (simp add: image_tool_def)
  show ?thesis
    unfolding arm_commit_def sync_esp_state_def
    by (rule completes_bnd completes_create completes_hook [OF c] completes_run [OF tool] completes_put
        artefact_paths esp_names_members n2 not_sym [OF n])+
qed

lemma completes_reseal: "completes I I reseal_boot_best_effort"
  unfolding completes_def
proof (intro allI impI)
  fix w :: "'a world" assume w: "smooth w" "I (armed_state w)"
  have tool: "image_tool ''ukify''" "image_tool ''/usr/lib/arxos/deathstroke/ds-seal-boot''"
    "image_tool ''/usr/local/bin/ds-seal-boot''" "image_tool ''ds-seal-boot''"
    by (simp_all add: image_tool_def)
  have sched: "w_sched w = []" using w(1) by (simp add: smooth_def)
  obtain out v where v: "run_cmd ''ukify'' [''--version''] [] w = (Ok (Exited True out), v)" "smooth v" "armed_state v = armed_state w"
    using smooth_run [OF w(1) tool(1)] by blast
  have go: "\<exists>u. bnd (run_cmd ''ukify'' [''--version''] []) (\<lambda>c. if \<not> cmd_success c then ret ()
      else bnd (run_cmd sealer [''--reseal-only''] []) (\<lambda>_. ret ())) w = (Ok (), u) \<and> smooth u \<and> I (armed_state u)"
    if sealer: "image_tool sealer" for sealer
  proof -
    obtain out' u where "run_cmd sealer [''--reseal-only''] [] v = (Ok (Exited True out'), u)" "smooth u" "armed_state u = armed_state v"
      using smooth_run [OF v(2) sealer] by blast
    then show ?thesis using v(1,3) w(2) by (simp add: bnd_def cmd_success_def ret_def)
  qed
  have look: "\<exists>b. path_is_file p w = (Ok b, w)" for p using sched by (simp add: path_is_file_def probe_def)
  obtain a b where ab: "path_is_file (components ''/usr/lib/arxos/deathstroke/ds-seal-boot'') w = (Ok a, w)"
    "path_is_file (components ''/usr/local/bin/ds-seal-boot'') w = (Ok b, w)"
    using look by metis
  have "reseal_boot_best_effort w = bnd (run_cmd ''ukify'' [''--version''] []) (\<lambda>c. if \<not> cmd_success c then ret ()
      else bnd (run_cmd (if a then ''/usr/lib/arxos/deathstroke/ds-seal-boot''
        else if b then ''/usr/local/bin/ds-seal-boot'' else ''ds-seal-boot'') [''--reseal-only''] []) (\<lambda>_. ret ())) w"
    unfolding reseal_boot_best_effort_def bnd_def [of "path_is_file _"] ab bnd_def [of "if _ then _ else _"]
    by (cases a) (simp_all only: ab prod.case res.case if_True if_False bnd_def [of "path_is_file _"] ret_def)
  moreover have "image_tool (if a then ''/usr/lib/arxos/deathstroke/ds-seal-boot''
      else if b then ''/usr/local/bin/ds-seal-boot'' else ''ds-seal-boot'')"
    by (cases a; cases b) (simp_all only: if_True if_False tool)
  ultimately show "\<exists>u. reseal_boot_best_effort w = (Ok (), u) \<and> smooth u \<and> I (armed_state u)"
    using go by simp
qed

lemma arm_transaction_completes:
  assumes w: "smooth w" and auth: "armed_state w auth_path = Some content" "utf8_valid content"
    and updated: "arm_pam_stack (w_debug w) content = Ok updated"
    and conf: "armed_state w MKINITCPIO_CONF = Some c" "with_deathstroke_hook c = Ok u" "utf8_valid c"
  shows "\<exists>w'. arm_transaction verifier cfg daily_slot recovery_slot content w = (Ok (), w') \<and> smooth w'"
proof -
  obtain meta where meta: "metadata auth_path w = (Ok meta, w)"
    using smooth_read(3) [OF w artefact_paths(1) auth] by blast
  obtain v where v: "atomic_write backup_path content (mode_bits meta) w = (Ok (), v)" "smooth v"
    "\<And>q. q \<noteq> backup_path \<Longrightarrow> armed_state v q = armed_state w q"
    using smooth_put [OF w insertI1] by blast
  have "MKINITCPIO_CONF \<noteq> backup_path" using artefact_paths(2) backup_not_artefact by metis
  then have c: "armed_state v MKINITCPIO_CONF = Some c" using v(3) conf(1) by simp
  have read: "fs_read MKINITCPIO_CONF v = (Ok c, v)" by (rule smooth_read(2) [OF v(2) artefact_paths(2) c conf(3)])
  have "set (map esp_path esp_names) \<subseteq> artefacts" using artefact_paths(4) by auto
  then obtain z where z: "snapshot (map esp_path esp_names) v = (Ok z, v)" using snapshot_calm [OF v(2)] by blast
  obtain v' where v': "arm_commit verifier cfg daily_slot recovery_slot updated (mode_bits meta) v = (Ok (), v')" "smooth v'"
    using completes_wp [OF completes_commit [OF conf(2,3)] v(2) c] by blast
  obtain v'' where "reseal_boot_best_effort v' = (Ok (), v'')" "smooth v''"
    using completes_wp [OF completes_reseal v'(2), of "\<lambda>_. True"] by blast
  then show ?thesis
    by (simp add: arm_transaction_def bnd_def ask_def lift_def updated meta v(1) ctx_def read z attempt_def v'(1) Let_def)
qed

section \<open>Property\<close>

text \<open>What the map says after arming, file by file.\<close>

lemma armed_image_at:
  "armed_image verifier cfg daily_slot recovery_slot updated S (esp_path ''duress.hash'') = Some verifier"
  "armed_image verifier cfg daily_slot recovery_slot updated S (esp_path ''config'') = Some (policy_text cfg)"
  "armed_image verifier cfg daily_slot recovery_slot updated S (esp_path ''counter'') = Some ''0\<newline>''"
  "armed_image verifier cfg daily_slot recovery_slot updated S (esp_path ''daily.slot'') = Some (show_word daily_slot @ ''\<newline>'')"
  "armed_image verifier cfg daily_slot recovery_slot updated S (esp_path ''recovery.slot'') = Some (show_word recovery_slot @ ''\<newline>'')"
proof -
  have "auth_path \<notin> esp_path ` set esp_names" "MKINITCPIO_CONF \<notin> esp_path ` set esp_names" "marker_path \<notin> esp_path ` set esp_names"
    using paths_distinct by auto
  then have n: "esp_path x \<noteq> auth_path" "esp_path x \<noteq> MKINITCPIO_CONF" "esp_path x \<noteq> marker_path" if "x \<in> set esp_names" for x
    using that by (metis imageI)+
  note n = n [OF esp_names_members(1)] n [OF esp_names_members(2)] n [OF esp_names_members(3)] n [OF esp_names_members(4)]
    n [OF esp_names_members(5)]
  show "armed_image verifier cfg daily_slot recovery_slot updated S (esp_path ''duress.hash'') = Some verifier"
    "armed_image verifier cfg daily_slot recovery_slot updated S (esp_path ''config'') = Some (policy_text cfg)"
    "armed_image verifier cfg daily_slot recovery_slot updated S (esp_path ''counter'') = Some ''0\<newline>''"
    "armed_image verifier cfg daily_slot recovery_slot updated S (esp_path ''daily.slot'') = Some (show_word daily_slot @ ''\<newline>'')"
    "armed_image verifier cfg daily_slot recovery_slot updated S (esp_path ''recovery.slot'') = Some (show_word recovery_slot @ ''\<newline>'')"
    using n by (simp_all add: armed_image_def)
qed

lemma esp_texts:
  "parse_count ''0\<newline>'' = Ok 0" "utf8_valid ''0\<newline>''"
  "n \<le> 31 \<Longrightarrow> parse_slot (show_word n @ ''\<newline>'') = Ok n" "n \<le> 31 \<Longrightarrow> utf8_valid (show_word n @ ''\<newline>'')"
proof -
  have "char_of (48 :: nat) = CHR ''0''" by code_simp
  then have zero: "''0\<newline>'' = count_text 0" by (simp add: count_text_def show_word_def show_nat_small digit_char_def)
  show "parse_count ''0\<newline>'' = Ok 0" "utf8_valid ''0\<newline>''"
    unfolding zero using count_file.dec_enc count_file.enc_utf8 by simp_all
  show "n \<le> 31 \<Longrightarrow> parse_slot (show_word n @ ''\<newline>'') = Ok n" using slot_file.dec_newline by simp
  show "n \<le> 31 \<Longrightarrow> utf8_valid (show_word n @ ''\<newline>'')" using slot_file.enc_ascii by (simp add: ascii_utf8_valid is_ascii_def)
qed

text \<open>
  C13. What \<open>dsctl arm\<close> writes is what \<open>ds-unlock\<close> reads at the next boot. On a machine where nothing fails
  the transaction of \<open>arm\<close> succeeds; and then the readers of \<open>ds-unlock\<close> get from the ESP the policy, the
  verifier, a counter of zero and the two keyslot numbers that \<open>arm\<close> was given.
\<close>

theorem armed_state_is_read_back:
  assumes w: "smooth w" and auth: "armed_state w auth_path = Some content" "utf8_valid content"
    and marker: "armed_state w marker_path = None" and updated: "arm_pam_stack (w_debug w) content = Ok updated"
    and conf: "armed_state w MKINITCPIO_CONF = Some c" "with_deathstroke_hook c = Ok u" "utf8_valid c"
    and verifier: "parse_verifier verifier = Ok dh" "utf8_valid verifier"
    and cfg: "sound_policy cfg" and slots: "daily \<le> 31" "recovery \<le> 31"
  shows "\<exists>w'. arm_transaction verifier cfg daily recovery content w = (Ok (), w') \<and>
    (let esp = components ESP_STATE_DIR in
      read_cfg esp w' = (Ok cfg, w') \<and> load_duress esp w' = (Ok dh, w') \<and> read_count esp w' = (Ok 0, w') \<and>
      read_daily_slot esp w' = (Ok daily, w') \<and> read_recovery_slot esp w' = (Ok recovery, w'))"
proof -
  obtain w' where run: "arm_transaction verifier cfg daily recovery content w = (Ok (), w')" and w': "smooth w'"
    using arm_transaction_completes [OF w auth updated conf] by blast
  have sched: "w_sched w' = []" and arm: "armable w'" using w' by (simp_all add: smooth_def)
  have "armable w" using w by (simp add: smooth_def)
  from wpD [OF wp_arm_transaction [OF this auth(1) marker] run]
  have image: "armed_state w' = armed_image verifier cfg daily recovery updated (armed_state w)"
    using updated by (simp add: arm_post_def)
  note found = armed_state_file [OF arm, of "esp_path _", unfolded image, OF armed_image_at(1)]
    armed_state_file [OF arm, of "esp_path _", unfolded image, OF armed_image_at(2)]
    armed_state_file [OF arm, of "esp_path _", unfolded image, OF armed_image_at(3)]
    armed_state_file [OF arm, of "esp_path _", unfolded image, OF armed_image_at(4)]
    armed_state_file [OF arm, of "esp_path _", unfolded image, OF armed_image_at(5)]
  have "read_cfg (components ESP_STATE_DIR) w' = (Ok cfg, w')"
    using found(2) readers_calm(1) [OF sched _ policy_file.enc_utf8 policy_file.dec_enc] cfg by blast
  moreover have "load_duress (components ESP_STATE_DIR) w' = (Ok dh, w')"
    using found(1) readers_calm(2) [OF sched _ verifier(2,1)] by blast
  moreover have "read_count (components ESP_STATE_DIR) w' = (Ok 0, w')"
    using found(3) readers_calm(3) [OF sched _ esp_texts(2,1)] unfolding counter_path_def by blast
  moreover have "read_daily_slot (components ESP_STATE_DIR) w' = (Ok daily, w')"
    using found(4) readers_calm(4) [OF sched _ esp_texts(4,3)] slots by blast
  moreover have "read_recovery_slot (components ESP_STATE_DIR) w' = (Ok recovery, w')"
    using found(5) readers_calm(5) [OF sched _ esp_texts(4,3)] slots by blast
  ultimately show ?thesis using run by (auto simp: Let_def)
qed

lemma stock_hook:
  "with_deathstroke_hook ''HOOKS=(base encrypt)'' = Ok (''HOOKS=(base deathstroke encrypt)\<newline>'', True)"
  "utf8_valid ''HOOKS=(base encrypt)''"
  by code_simp+

lemma stock_stack: "\<exists>out. arm_pam_stack (w_debug stock_machine) stock_auth = Ok out"
  using stock_auth_armed by (auto simp: stock_machine_def)

lemma stock_machine_arms:
  "\<exists>w'. arm_transaction verifier cfg daily recovery stock_auth stock_machine = (Ok (), w') \<and> smooth w'"
  using stock_stack arm_transaction_completes [OF stock_machine_smooth stock_files(1,4) _ stock_files(3) stock_hook] by blast

theorem armed_state_is_read_back_witness:
  "\<exists>w'. arm_transaction (serialize sample_hash) default_policy 0 1 stock_auth stock_machine = (Ok (), w') \<and>
    load_duress (components ESP_STATE_DIR) w' = (Ok sample_hash, w') \<and> read_daily_slot (components ESP_STATE_DIR) w' = (Ok 0, w')"
proof -
  obtain out where out: "arm_pam_stack (w_debug stock_machine) stock_auth = Ok out" using stock_stack by blast
  have hash: "parse_verifier (serialize sample_hash) = Ok sample_hash" "utf8_valid (serialize sample_hash)"
    using verifier_file.dec_enc verifier_file.enc_utf8 sample_hash_ok by blast+
  have slots: "(0 :: u8) \<le> 31" "(1 :: u8) \<le> 31" by simp_all
  from armed_state_is_read_back [OF stock_machine_smooth stock_files(1,4,2) out stock_files(3) stock_hook hash
      default_policy_sound slots]
  show ?thesis by (auto simp: Let_def)
qed

end
