(* ===== verification/Utf8.thy ===== *)
theory Utf8
  imports Pam_Stack Hooks
begin

text \<open>
  Text stays text: a Rust \<open>String\<close> is valid UTF-8, and slicing it inside a character is a panic. The
  model has bytes, so that the rewritings only ever cut at the boundary of a character is a theorem.
\<close>

section \<open>Cutting at an ASCII character\<close>

lemma utf8_append: "utf8_valid a \<Longrightarrow> utf8_valid (a @ b) \<longleftrightarrow> utf8_valid b"
  by (induction a rule: utf8_valid.induct) (auto simp: Let_def split: if_splits list.splits)

lemma utf8_cut: "of_char c < (128 :: nat) \<Longrightarrow> utf8_valid (a @ c # b) \<Longrightarrow> utf8_valid a"
proof (induction "length a" arbitrary: a rule: less_induct)
  case less
  have ih: "utf8_valid r" if "length r < length a" "utf8_valid (r @ c # b)" for r
    using less.hyps [OF that(1) less.prems(1) that(2)] .
  show ?case
  proof (cases a)
    case (Cons x s)
    let ?n = "of_char x :: nat"
    have valid: "utf8_valid (x # s @ c # b)" using less.prems(2) Cons by simp
    have c: "\<not> utf8_cont 128 191 c" "\<not> utf8_cont (if q then k else 128) h c" if "128 \<le> k" for q k h
      using less.prems(1) that by (simp_all add: utf8_cont_def)
    consider "?n < 128" | "194 \<le> ?n" "?n \<le> 223" | "224 \<le> ?n" "?n \<le> 239" | "240 \<le> ?n" "?n \<le> 244"
      using valid by (auto simp: Let_def split: if_splits)
    then show ?thesis
    proof cases
      case 1
      then show ?thesis using valid ih [of s] Cons by simp
    next
      case 2
      then show ?thesis using valid Cons c by (cases s) (auto simp: Let_def intro!: ih)
    next
      case 3
      then show ?thesis
        using valid Cons c(1) c(2) [of "160"] by (cases s; cases "tl s") (auto simp: Let_def intro!: ih split: list.splits)
    next
      case 4
      then show ?thesis
        using valid Cons c(1) c(2) [of "144"] by (cases s; cases "tl s"; cases "tl (tl s)") (auto simp: Let_def intro!: ih split: list.splits)
    qed
  qed simp
qed

lemma utf8_join:
  "(\<And>l. l \<in> set ls \<Longrightarrow> utf8_valid l) \<Longrightarrow> utf8_valid sep \<Longrightarrow> utf8_valid (join sep ls)"
  by (induction sep ls rule: join.induct) (simp_all add: utf8_append)

text \<open>So every text splits at an ASCII pattern, and the parts are text.\<close>

lemma utf8_at:
  assumes s: "utf8_valid s" and p: "is_ascii p" "p \<noteq> []" and at: "prefix p (drop i s)" "i \<le> length s"
  shows "utf8_valid (take i s)" "utf8_valid (drop i s)" "utf8_valid (drop (i + length p) s)" "utf8_valid (take (i + length p) s)"
proof -
  obtain r where r: "drop i s = p @ r" using at(1) by (auto simp: prefix_def)
  obtain c cs where c: "p = c # cs" using p(2) by (cases p) auto
  have eq: "s = take i s @ c # cs @ r" using r c by (metis append_Cons append_take_drop_id)
  have "of_char c < (128 :: nat)" using p(1) c by simp
  from utf8_cut [OF this] eq s show a: "utf8_valid (take i s)" by metis
  then have "utf8_valid (p @ r)" using eq s c utf8_append [of "take i s" "p @ r"] by simp
  then show "utf8_valid (drop i s)" by (simp add: r)
  have "drop (i + length p) s = r" using r by (metis add.commute append_eq_conv_conj drop_drop)
  moreover have "utf8_valid r" using \<open>utf8_valid (p @ r)\<close> utf8_append [OF ascii_utf8_valid [OF p(1)]] by simp
  ultimately show "utf8_valid (drop (i + length p) s)" by simp
  have "take (i + length p) s = take i s @ p" using r at(2) by (simp add: take_add)
  then show "utf8_valid (take (i + length p) s)" using a utf8_append ascii_utf8_valid [OF p(1)] by simp
qed

lemma utf8_find:
  assumes "utf8_valid s" "find_sub p s = Some i" "is_ascii p" "p \<noteq> []"
  shows "utf8_valid (take i s)" "utf8_valid (drop i s)" "utf8_valid (drop (i + length p) s)" "utf8_valid (take (i + length p) s)"
  using utf8_at [OF assms(1,3,4)] find_sub_Some [OF assms(2)] by blast+

lemma utf8_split_inclusive: "utf8_valid s \<Longrightarrow> l \<in> set (split_inclusive s) \<Longrightarrow> utf8_valid l"
proof (induction "length s" arbitrary: s rule: less_induct)
  case less
  show ?case
  proof (cases "CHR 0x0A \<in> set s")
    case False
    then have "split_inclusive s = (if s = [] then [] else [s])"
    proof (induction s)
      case (Cons a s)
      then show ?case by (cases s) auto
    qed simp
    then show ?thesis using less.prems by (auto split: if_splits)
  next
    case True
    then obtain u v where uv: "s = u @ CHR 0x0A # v" "CHR 0x0A \<notin> set u" by (meson split_list_first)
    have "split_inclusive s = (u @ [CHR 0x0A]) # split_inclusive v"
      using uv(2) unfolding uv(1) by (induction u) auto
    moreover have u: "utf8_valid u" by (rule utf8_cut [of "CHR 0x0A" u v]) (use less.prems(1) uv(1) in auto)
    moreover have "utf8_valid v" using less.prems(1) utf8_append [OF u] by (simp add: uv(1))
    moreover have "utf8_valid (u @ [CHR 0x0A])" by (simp add: utf8_append [OF u])
    ultimately show ?thesis using less.hyps [of v] less.prems(2) uv(1) by auto
  qed
qed

lemma utf8_butlast: "utf8_valid l \<Longrightarrow> l \<noteq> [] \<Longrightarrow> of_char (last l) < (128 :: nat) \<Longrightarrow> utf8_valid (butlast l)"
  using utf8_cut [of "last l" "butlast l" "[]"] by simp

lemma utf8_strip_eol:
  assumes "utf8_valid l"
  shows "utf8_valid (strip_eol l)"
proof (cases "l \<noteq> [] \<and> last l = CHR 0x0A")
  case True
  then have m: "utf8_valid (butlast l)" using utf8_butlast [OF assms] by simp
  show ?thesis
  proof (cases "butlast l \<noteq> [] \<and> last (butlast l) = CHR 0x0D")
    case cr: True
    then show ?thesis using True utf8_butlast [OF m] by (simp add: strip_eol_def)
  qed (use True m in \<open>auto simp: strip_eol_def Let_def\<close>)
qed (use assms in \<open>simp only: strip_eol_def if_False\<close>)

lemma utf8_text_lines: "utf8_valid s \<Longrightarrow> l \<in> set (text_lines s) \<Longrightarrow> utf8_valid l"
  using utf8_split_inclusive utf8_strip_eol by (auto simp: text_lines_def)

lemma utf8_lines_text: "(\<And>l. l \<in> set ls \<Longrightarrow> utf8_valid l) \<Longrightarrow> utf8_valid (join ''\<newline>'' ls @ ''\<newline>'')"
  using utf8_append [OF utf8_join] by simp

section \<open>The PAM stack\<close>

lemma ascii_prefix_takeWhile: "is_ascii (takeWhile is_digit s)"
  by (auto simp: is_ascii_def list_all_iff is_digit_def dest!: set_takeWhileD)

lemma utf8_replace_jump:
  assumes l: "utf8_valid l" and r: "replace_success_jump l v = Ok l'"
  shows "utf8_valid l'"
proof -
  let ?p = "''success=''"
  obtain i where i: "find_sub ?p l = Some i" using r by (auto simp: replace_success_jump_def ok_inv split: option.splits)
  define start where "start = i + length ?p"
  define ds where "ds = takeWhile is_digit (drop start l)"
  have l': "l' = take start l @ show_word v @ drop (start + length ds) l"
    using r i by (auto simp: replace_success_jump_def ok_inv Let_def start_def ds_def split: if_splits)
  have p: "is_ascii ?p" "?p \<noteq> []" by code_simp+
  have a: "utf8_valid (take start l)" "utf8_valid (drop start l)"
    unfolding start_def using utf8_find [OF l i p] by blast+
  have "drop start l = ds @ drop (start + length ds) l"
    unfolding ds_def by (metis add.commute append_take_drop_id drop_drop takeWhile_eq_take)
  then have "utf8_valid (drop (start + length ds) l)"
    using a(2) utf8_append [OF ascii_utf8_valid [OF ascii_prefix_takeWhile]] unfolding ds_def by metis
  then show ?thesis
    unfolding l' using utf8_append [OF a(1)] utf8_append [OF ascii_utf8_valid] show_word_ascii by simp
qed

lemma utf8_raise_line: "utf8_valid l \<Longrightarrow> raise_line dbg f i l = Ok l' \<Longrightarrow> utf8_valid l'"
  by (auto simp: raise_line_def ok_inv split: option.splits if_splits intro: utf8_replace_jump)

lemma utf8_raise_jumps:
  "(\<And>l. l \<in> set ls \<Longrightarrow> utf8_valid l) \<Longrightarrow> \<forall>i\<in>set P. i < length ls \<Longrightarrow> \<forall>i\<in>set is. i < length P \<Longrightarrow>
    raise_jumps dbg P f is ls = Ok ls' \<Longrightarrow> l \<in> set ls' \<Longrightarrow> utf8_valid l"
proof (induction "is" arbitrary: ls)
  case (Cons i "is")
  obtain l0 where l0: "raise_line dbg f i (ls ! (P ! i)) = Ok l0" "raise_jumps dbg P f is (ls[P ! i := l0]) = Ok ls'"
    using Cons.prems(4) by (auto simp: Let_def ok_inv)
  have "P ! i < length ls" using Cons.prems(2,3) by simp
  then have "utf8_valid l0" using utf8_raise_line [OF _ l0(1)] Cons.prems(1) by simp
  then have "\<And>l. l \<in> set (ls[P ! i := l0]) \<Longrightarrow> utf8_valid l" using Cons.prems(1) by (metis insertE set_update_subset_insert subsetD)
  then show ?case using Cons.IH [OF _ _ _ l0(2) Cons.prems(5)] Cons.prems(2,3) by simp
qed simp

lemma set_insert_at: "set (insert_at n x xs) = insert x (set xs)"
proof -
  have "set (take n xs) \<union> set (drop n xs) = set xs" by (metis append_take_drop_id set_append)
  then show ?thesis by (auto simp: insert_at_def)
qed

lemma rules_ascii: "is_ascii authfail_line" "is_ascii authsucc_line" "is_ascii preauth_line"
  by code_simp+

lemma utf8_arm_pam_stack:
  assumes c: "utf8_valid content" and run: "arm_pam_stack dbg content = Ok out"
  shows "utf8_valid out"
proof -
  let ?ls = "text_lines content" and ?P = "rule_positions is_auth_rule (text_lines content)"
  obtain f n1 n2 n3 ls' where raised: "raise_jumps dbg ?P f [0..<f] ?ls = Ok ls'"
    and f: "position (\<lambda>i. is_faillock ''authfail'' (?ls ! i)) ?P = Some f"
    and out: "out = join ''\<newline>'' (insert_at n1 preauth_line (insert_at n2 authsucc_line (insert_at n3 authfail_line ls'))) @ ''\<newline>''"
    using run by (auto simp: arm_pam_stack_def Let_def ok_inv simp del: upt_Suc split: if_splits option.splits)
  have "\<forall>i\<in>set [0..<f]. i < length ?P" using position_less [OF f] by auto
  moreover have "\<forall>i\<in>set ?P. i < length ?ls" by (auto simp: rule_positions_def)
  ultimately have "utf8_valid l" if "l \<in> set ls'" for l
    using utf8_raise_jumps [OF utf8_text_lines [OF c] _ _ raised that] by blast
  then show ?thesis
    unfolding out using ascii_utf8_valid [OF rules_ascii(1)] ascii_utf8_valid [OF rules_ascii(2)] ascii_utf8_valid [OF rules_ascii(3)]
    by (intro utf8_lines_text) (auto simp: set_insert_at)
qed

section \<open>The initramfs hooks\<close>

lemma utf8_ensure_hook_line:
  assumes l: "utf8_valid l" and r: "ensure_hook_line l = Ok (l', c)"
  shows "utf8_valid l'"
proof -
  have cut: "utf8_valid (take e l @ ''deathstroke '' @ drop e l)"
    if "find_sub p l = Some e" "is_ascii p" "p \<noteq> []" for p e
  proof -
    have "is_ascii ''deathstroke ''" by code_simp
    then show ?thesis
      using utf8_find(1,2) [OF l that] utf8_append ascii_utf8_valid by metis
  qed
  have "is_ascii ''encrypt''" "is_ascii ''sd-encrypt''" by code_simp+
  from cut [OF _ this(1)] cut [OF _ this(2)] l r show ?thesis
    unfolding ensure_hook_line_def Let_def by (auto split: option.splits if_splits)
qed

lemma utf8_ensure_hook_lines:
  "(\<And>l. l \<in> set ls \<Longrightarrow> utf8_valid l) \<Longrightarrow> ensure_hook_lines ls = Ok (out, c, h) \<Longrightarrow> l \<in> set out \<Longrightarrow> utf8_valid l"
proof (induction ls arbitrary: out c h l)
  case (Cons a ls)
  have "\<exists>a' out' c' h'. out = a' # out' \<and> ensure_hook_lines ls = Ok (out', c', h') \<and> (a' = a \<or> (\<exists>b. ensure_hook_line a = Ok (a', b)))"
    using Cons.prems(2) by (cases "is_hooks_line a") (fastforce simp: ok_inv)+
  then obtain a' out' c' h' where out: "out = a' # out'" "ensure_hook_lines ls = Ok (out', c', h')"
    and a': "a' = a \<or> (\<exists>b. ensure_hook_line a = Ok (a', b))"
    by blast
  have "utf8_valid a'" using a' Cons.prems(1) utf8_ensure_hook_line by auto
  then show ?case using Cons.IH [OF _ out(2)] Cons.prems(1,3) out(1) by auto
qed simp

lemma white_space_utf8: "list_all utf8_valid white_space"
  unfolding white_space_def by code_simp

lemma utf8_drop_space: "utf8_valid s \<Longrightarrow> utf8_valid (drop (ws_len s) s)"
proof -
  assume s: "utf8_valid s"
  show ?thesis
  proof (cases "find (\<lambda>w. prefix w s) white_space")
    case (Some w)
    then have w: "w \<in> set white_space" "prefix w s" by (auto dest!: find_Some_iff [THEN iffD1])
    then have "utf8_valid w" using white_space_utf8 by (auto simp: list_all_iff)
    moreover obtain r where r: "s = w @ r" using w(2) by (auto simp: prefix_def)
    moreover have "ws_len s = length w" by (simp add: ws_len_def Some)
    ultimately show ?thesis using s utf8_append by simp
  qed (simp add: ws_len_def s)
qed

lemma utf8_strip_hook: "utf8_valid l \<Longrightarrow> strip_hook l = Ok (l', c) \<Longrightarrow> utf8_valid l'"
proof (induction l arbitrary: l' c rule: strip_hook.induct)
  case (1 l)
  let ?p = "''deathstroke''"
  have p: "is_ascii ?p" "?p \<noteq> []" by code_simp+
  show ?case
  proof (cases "find_sub ?p l")
    case None
    then show ?thesis using 1(2,3) by (simp add: strip_hook.simps [of l])
  next
    case (Some i)
    let ?a = "drop (i + length ?p) l"
    have parts: "utf8_valid (take i l)" "utf8_valid (drop (ws_len ?a) ?a)"
      using utf8_find(1,3) [OF 1(2) Some p] utf8_drop_space by blast+
    obtain c' where rest: "strip_hook (take i l @ drop (ws_len ?a) ?a) = Ok (l', c')"
      and ok: "\<not> (\<not> (take i l = [] \<or> ws_len_end (take i l) > 0 \<or> last (take i l) \<in> {CHR ''('', CHR 0x22}) \<or>
        \<not> (?a = [] \<or> ws_len ?a > 0 \<or> hd ?a \<in> {CHR '')'', CHR 0x22}))"
      using 1(3) unfolding strip_hook.simps [of l] Some Let_def option.case
      by (auto simp: ok_inv split: if_splits)
    show ?thesis
      by (rule 1(1) [OF Some refl refl refl refl ok _ rest]) (use parts utf8_append in blast)
  qed
qed

lemma utf8_without_hook_lines:
  "(\<And>l. l \<in> set ls \<Longrightarrow> utf8_valid l) \<Longrightarrow> without_hook_lines ls = Ok (out, c, h) \<Longrightarrow> l \<in> set out \<Longrightarrow> utf8_valid l"
proof (induction ls arbitrary: out c h l)
  case (Cons a ls)
  have "\<exists>a' out' c' h'. out = a' # out' \<and> without_hook_lines ls = Ok (out', c', h') \<and> (a' = a \<or> (\<exists>b. strip_hook a = Ok (a', b)))"
    using Cons.prems(2) by (cases "is_hooks_line a") (fastforce simp: ok_inv)+
  then obtain a' out' c' h' where out: "out = a' # out'" "without_hook_lines ls = Ok (out', c', h')"
    and a': "a' = a \<or> (\<exists>b. strip_hook a = Ok (a', b))"
    by blast
  have "utf8_valid a'" using a' Cons.prems(1) utf8_strip_hook by auto
  then show ?case using Cons.IH [OF _ out(2)] Cons.prems(1,3) out(1) by auto
qed simp

section \<open>Property\<close>

text \<open>
  C27. The rewritings of \<open>dsctl\<close> take text to text: whatever UTF-8 the PAM stack or \<open>mkinitcpio.conf\<close>
  holds, what \<open>arm\<close> and \<open>disarm\<close> make of it is UTF-8 again. The code cuts these strings at byte offsets, and
  a cut inside a character would be a panic in Rust and broken bytes here.
\<close>

theorem rewritings_keep_text:
  assumes "utf8_valid original"
  shows "(\<forall>out. arm_pam_stack dbg original = Ok out \<longrightarrow> utf8_valid out) \<and>
    (\<forall>ls changed saw. ensure_hook_lines (text_lines original) = Ok (ls, changed, saw) \<longrightarrow> utf8_valid (join ''\<newline>'' ls @ ''\<newline>'')) \<and>
    (\<forall>out changed. without_deathstroke_hook original = Ok (out, changed) \<longrightarrow> utf8_valid out)"
proof (intro conjI allI impI)
  show "utf8_valid out" if "arm_pam_stack dbg original = Ok out" for out
    using utf8_arm_pam_stack assms that by blast
  show "utf8_valid (join ''\<newline>'' ls @ ''\<newline>'')" if "ensure_hook_lines (text_lines original) = Ok (ls, changed, saw)" for ls changed saw
    by (rule utf8_lines_text, rule utf8_ensure_hook_lines [OF utf8_text_lines [OF assms] that])
  show "utf8_valid out" if run: "without_deathstroke_hook original = Ok (out, changed)" for out changed
  proof -
    obtain ls saw where "without_hook_lines (text_lines original) = Ok (ls, changed, saw)" "out = join ''\<newline>'' ls @ ''\<newline>''"
      using run by (auto simp: without_deathstroke_hook_def ok_inv split: if_splits)
    then show ?thesis using utf8_lines_text utf8_without_hook_lines utf8_text_lines [OF assms] by metis
  qed
qed

text \<open>A comment in another script, before and behind the hooks.\<close>

theorem rewritings_keep_text_witness:
  "\<exists>ls. ensure_hook_lines (text_lines ([CHR 0xC3, CHR 0xA9] @ ''\<newline>HOOKS=(base encrypt)'')) = Ok (ls, True, True) \<and>
    utf8_valid (join ''\<newline>'' ls @ ''\<newline>'')"
proof -
  let ?t = "[CHR 0xC3, CHR 0xA9] @ ''\<newline>HOOKS=(base encrypt)''"
  have "utf8_valid ?t" by code_simp
  note this = rewritings_keep_text [OF this, of False]
  moreover have "ensure_hook_lines (text_lines ?t) = Ok ([[CHR 0xC3, CHR 0xA9], ''HOOKS=(base deathstroke encrypt)''], True, True)"
    by code_simp
  ultimately show ?thesis by blast
qed

end
