(* ===== verification/Status_Report.thy ===== *)
theory Status_Report
  imports Reports Handoff Disarm_Safety Utf8
begin

text \<open>
  What \<open>dsctl status\<close> says of the arming, and that it says so after \<open>arm\<close>.
\<close>

definition pam_marked :: "(path \<rightharpoonup> string) \<Rightarrow> bool" where
  "pam_marked S = (case S auth_path of Some c \<Rightarrow> utf8_valid c \<and> contains c ARM_MARKER | None \<Rightarrow> False)"

lemma status_lines_say:
  "armed_line True \<in> set (status_lines e a l p r m) \<longleftrightarrow> a \<and> l \<and> p"
  "inconsistent_line \<in> set (status_lines e a l p r m) \<longleftrightarrow> (a \<or> l \<or> p) \<and> \<not> (a \<and> l \<and> p)"
  by (auto simp: status_lines_def armed_line_def inconsistent_line_def EXPERIMENTAL_def yesno_def Let_def)

text \<open>The places \<open>status\<close> looks at, on a machine at rest.\<close>

lemma calm_looks:
  assumes sched: "w_sched w = []" and w: "armable w" and p: "p \<in> artefacts"
  shows "path_is_file p w = (Ok (armed_state w p \<noteq> None), w)"
    "try_read p w = (Ok (case armed_state w p of Some d \<Rightarrow> if utf8_valid d then Some d else None | None \<Rightarrow> None), w)"
proof -
  have "regular w p" using armable_at [OF w p] by blast
  then have "fs_get (w_vis w) p = None \<and> armed_state w p = None \<or>
      (\<exists>d m s. fs_get (w_vis w) p = Some (File d m s) \<and> armed_state w p = Some d)"
    using p by (auto simp: regular_def armed_state_def data_at_def)
  then show "path_is_file p w = (Ok (armed_state w p \<noteq> None), w)"
    "try_read p w = (Ok (case armed_state w p of Some d \<Rightarrow> if utf8_valid d then Some d else None | None \<Rightarrow> None), w)"
    using sched
    by (auto simp: path_is_file_def probe_def look_None look_File is_file_node_def try_read_def bnd_def attempt_def
        read_to_string_def sys_def read_result_def ret_def rbind_def)
qed

lemma try_read_calm: "w_sched w = [] \<Longrightarrow> \<exists>d. try_read p w = (Ok d, w)"
  by (auto simp: try_read_def bnd_def attempt_def read_to_string_def sys_def ret_def read_result_def rbind_def
      split: option.splits node.splits)

lemma status_calm:
  assumes sched: "w_sched w = []" and w: "armable w"
  shows "\<exists>e r m. status w =
    (Ok (status_lines e (pam_marked (armed_state w)) (armed_state w marker_path \<noteq> None) (armed_state w esp_marker_path \<noteq> None) r m), w)"
proof -
  obtain r where r: "try_read (components (state_dir w @ ''/recovery.device'')) w = (Ok r, w)"
    using try_read_calm [OF sched] by blast
  have ex: "path_exists p w = (Ok (look (w_vis w) p \<noteq> None), w)" for p
    using sched by (simp add: path_exists_def probe_def)
  note looks = calm_looks [OF sched w artefact_paths(3)] calm_looks [OF sched w esp_marker] calm_looks [OF sched w artefact_paths(1)]
  let ?c = "case armed_state w auth_path of Some d \<Rightarrow> if utf8_valid d then Some d else None | None \<Rightarrow> None"
  have lines: "status w = (Ok (status_lines (look (w_vis w) (duress_hash_path w) \<noteq> None)
      (case ?c of Some c \<Rightarrow> contains c ARM_MARKER | None \<Rightarrow> False) (armed_state w marker_path \<noteq> None)
      (armed_state w esp_marker_path \<noteq> None) r (look (w_vis w) (components DISPOSABLE_MARKER) \<noteq> None)), w)"
    by (simp only: status_def bnd_def ask_def ex looks r ret_def prod.case res.case)
  have marked: "(case ?c of Some c \<Rightarrow> contains c ARM_MARKER | None \<Rightarrow> False) = pam_marked (armed_state w)"
    by (auto simp: pam_marked_def split: option.splits)
  show ?thesis by (intro exI) (rule lines [unfolded marked])
qed

text \<open>The rules that \<open>arm\<close> inserts carry the marker.\<close>

lemma contains_append: "contains a p \<or> contains b p \<Longrightarrow> contains (a @ b) p"
  by (auto simp: contains_sublist sublist_append)

lemma contains_join: "l \<in> set ls \<Longrightarrow> contains l p \<Longrightarrow> contains (join sep ls) p"
  by (induction sep ls rule: join.induct) (auto simp: contains_append)

lemma armed_stack_marked:
  assumes "arm_pam_stack dbg content = Ok out"
  shows "contains out ARM_MARKER"
proof -
  obtain ls n where "out = join ''\<newline>'' (insert_at n preauth_line ls) @ ''\<newline>''"
    using assms by (auto simp: arm_pam_stack_def Let_def ok_inv simp del: upt_Suc split: if_splits option.splits)
  moreover have "contains preauth_line ARM_MARKER" by code_simp
  ultimately show ?thesis using contains_join [of preauth_line "insert_at n preauth_line ls"] by (simp add: contains_append set_insert_at)
qed

section \<open>Property\<close>

text \<open>Right after arming all three are there.\<close>

lemma armed_image_marks:
  "armed_image verifier cfg daily_slot recovery_slot updated S auth_path = Some updated"
  "armed_image verifier cfg daily_slot recovery_slot updated S marker_path = Some ''armed=1\<newline>''"
  "armed_image verifier cfg daily_slot recovery_slot updated S esp_marker_path = Some ''armed=1\<newline>''"
proof -
  have n: "auth_path \<notin> esp_path ` set esp_names" "marker_path \<notin> esp_path ` set esp_names" "marker_path \<noteq> auth_path"
    "marker_path \<noteq> MKINITCPIO_CONF"
    using paths_distinct by auto
  have m: "esp_marker_path \<in> esp_path ` set esp_names" using esp_names_members(6) by (rule imageI)
  have e: "esp_marker_path \<noteq> auth_path" "esp_marker_path \<noteq> marker_path"
    by (rule notI, use m n(1,2) in \<open>simp only: simp_thms\<close>)+
  show "armed_image verifier cfg daily_slot recovery_slot updated S auth_path = Some updated"
    "armed_image verifier cfg daily_slot recovery_slot updated S marker_path = Some ''armed=1\<newline>''"
    "armed_image verifier cfg daily_slot recovery_slot updated S esp_marker_path = Some ''armed=1\<newline>''"
    unfolding armed_image_def by (simp_all only: fun_upd_same fun_upd_other n(3,4) e e(2) [symmetric] not_False_eq_True)
qed

lemma marked_after_arm:
  assumes "armable v" "armed_state v auth_path = Some content" "armed_state v marker_path = None" "utf8_valid content"
    and run: "arm_transaction verifier cfg daily recovery content v = (Ok (), w)"
  shows "pam_marked (armed_state w)" "armed_state w marker_path \<noteq> None" "armed_state w esp_marker_path \<noteq> None"
proof -
  obtain updated where up: "arm_pam_stack (w_debug v) content = Ok updated"
    and w: "armed_state w = armed_image verifier cfg daily recovery updated (armed_state v)"
    using wpD [OF wp_arm_transaction [OF assms(1-3)] run] by (auto simp: arm_post_def)
  show "pam_marked (armed_state w)" "armed_state w marker_path \<noteq> None" "armed_state w esp_marker_path \<noteq> None"
    using utf8_arm_pam_stack [OF assms(4) up] armed_stack_marked [OF up] by (simp_all add: pam_marked_def w armed_image_marks)
qed

text \<open>
  C30. \<open>dsctl status\<close> tells the arming. Without faults it prints \<open>armed: yes\<close> exactly when the PAM stack
  carries the marker of \<open>arm\<close> and both armed markers are there, and the line about an inconsistent state
  exactly when some of the three are there and not all; it changes nothing. So it says \<open>yes\<close>, and
  nothing of an inconsistency, on every machine that the transaction of \<open>arm\<close> has just armed.
\<close>

theorem status_tells_arming:
  assumes w: "armable w" and calm: "w_sched w = []"
  shows "\<exists>lines. status w = (Ok lines, w) \<and>
    (let a = pam_marked (armed_state w); l = armed_state w marker_path \<noteq> None; p = armed_state w esp_marker_path \<noteq> None in
      (armed_line True \<in> set lines \<longleftrightarrow> a \<and> l \<and> p) \<and>
      (inconsistent_line \<in> set lines \<longleftrightarrow> (a \<or> l \<or> p) \<and> \<not> (a \<and> l \<and> p))) \<and>
    (\<forall>v verifier cfg daily recovery content.
      armable v \<longrightarrow> armed_state v auth_path = Some content \<longrightarrow> armed_state v marker_path = None \<longrightarrow> utf8_valid content \<longrightarrow>
      arm_transaction verifier cfg daily recovery content v = (Ok (), w) \<longrightarrow>
      armed_line True \<in> set lines \<and> inconsistent_line \<notin> set lines)"
proof -
  obtain e r m where "status w =
      (Ok (status_lines e (pam_marked (armed_state w)) (armed_state w marker_path \<noteq> None) (armed_state w esp_marker_path \<noteq> None) r m), w)"
    using status_calm [OF calm w] by blast
  then obtain lines where lines: "status w = (Ok lines, w)"
    "armed_line True \<in> set lines \<longleftrightarrow>
      pam_marked (armed_state w) \<and> armed_state w marker_path \<noteq> None \<and> armed_state w esp_marker_path \<noteq> None"
    "inconsistent_line \<in> set lines \<longleftrightarrow>
      (pam_marked (armed_state w) \<or> armed_state w marker_path \<noteq> None \<or> armed_state w esp_marker_path \<noteq> None) \<and>
      \<not> (pam_marked (armed_state w) \<and> armed_state w marker_path \<noteq> None \<and> armed_state w esp_marker_path \<noteq> None)"
    by (rule that) (rule status_lines_say)+
  show ?thesis
    unfolding Let_def
  proof (intro exI [of _ lines] conjI allI impI)
    fix v :: "'a world" and verifier cfg daily recovery content
    assume "armable v" "armed_state v auth_path = Some content" "armed_state v marker_path = None" "utf8_valid content"
      "arm_transaction verifier cfg daily recovery content v = (Ok (), w)"
    from marked_after_arm [OF this] lines(2,3)
    show "armed_line True \<in> set lines" "inconsistent_line \<notin> set lines" by blast+
  qed (rule lines)+
qed

text \<open>The stock machine before it is armed, and after.\<close>

theorem status_tells_arming_witness:
  "(\<exists>lines. status stock_machine = (Ok lines, stock_machine) \<and> armed_line True \<notin> set lines) \<and>
    (\<exists>w' lines. arm_transaction (serialize sample_hash) default_policy 0 1 stock_auth stock_machine = (Ok (), w') \<and>
      status w' = (Ok lines, w') \<and> armed_line True \<in> set lines \<and> inconsistent_line \<notin> set lines)"
proof
  have m: "armable stock_machine" "w_sched stock_machine = []" using stock_machine_smooth by (simp_all add: smooth_def)
  have none: "armed_state stock_machine marker_path = None" by (simp only: stock_files)
  show "\<exists>lines. status stock_machine = (Ok lines, stock_machine) \<and> armed_line True \<notin> set lines"
    using status_tells_arming [OF m] none by (auto simp: Let_def)
  obtain w' where w': "arm_transaction (serialize sample_hash) default_policy 0 1 stock_auth stock_machine = (Ok (), w')" "smooth w'"
    using stock_machine_arms by blast
  then have "armable w'" "w_sched w' = []" by (simp_all add: smooth_def)
  from status_tells_arming [OF this] w' m(1) stock_files
  show "\<exists>w' lines. arm_transaction (serialize sample_hash) default_policy 0 1 stock_auth stock_machine = (Ok (), w') \<and>
      status w' = (Ok lines, w') \<and> armed_line True \<in> set lines \<and> inconsistent_line \<notin> set lines"
    by blast
qed

end
